(* ===== verification/Prelude.thy ===== *)
theory Prelude
  imports Main "HOL-Library.Word" "HOL-Library.AList"
begin

text \<open>
  What every component shares: the names of the Rust types the model uses, the
  error type of \<open>anyhow\<close> results, 64-bit saturating arithmetic, wall-clock
  time, and the generic list lemmas.  Rust strings and byte buffers are both HOL
  \<open>string\<close>s: one \<open>char\<close> is one byte (of the UTF-8 encoding, for a string).
\<close>

named_theorems fs_simps \<open>equations of the file-system operations\<close>
named_theorems text_simps \<open>equations of the string operations\<close>

section \<open>Types\<close>

type_synonym u32 = "32 word"
type_synonym u64 = "64 word"
type_synonym bytes = string

text \<open>A path is its list of components; \<open>Path::join\<close> with one component is \<open>join\<close>.\<close>

type_synonym path = "string list"

definition join :: "path \<Rightarrow> string \<Rightarrow> path" where
  "join p n = p @ [n]"

lemma join_eq_iff [simp]: "join p n = join q m \<longleftrightarrow> p = q \<and> n = m"
  by (simp add: join_def)

lemma join_neq_Nil [simp]: "join p n \<noteq> []"
  by (simp add: join_def)

lemma last_join [simp]: "last (join p n) = n"
  by (simp add: join_def)

lemma butlast_join [simp]: "butlast (join p n) = p"
  by (simp add: join_def)

lemma join_same_length: "length (join p n) = Suc (length p)"
  by (simp add: join_def)

text \<open>\<open>Path::file_name\<close>.\<close>

definition file_name :: "path \<Rightarrow> string option" where
  "file_name p = (if p = [] then None else Some (last p))"

lemma file_name_join [simp]: "file_name (join p n) = Some n"
  by (simp add: file_name_def)

section \<open>Errors\<close>

text \<open>
  \<open>std::io::ErrorKind\<close>, as far as the code tells the kinds apart, and an
  \<open>anyhow::Error\<close>: a root cause under a stack of contexts.
\<close>

datatype io_kind = NotFound | AlreadyExists | OtherIo nat

datatype err = IoErr io_kind | Msg string | Ctx string err

type_synonym 'a res = "err + 'a"

fun err_root :: "err \<Rightarrow> err" where
  "err_root (Ctx _ e) = err_root e"
| "err_root e = e"

definition with_context :: "string \<Rightarrow> 'a res \<Rightarrow> 'a res" where
  "with_context c r = (case r of Inl e \<Rightarrow> Inl (Ctx c e) | Inr x \<Rightarrow> Inr x)"

lemma with_context_simps [simp]:
  "with_context c (Inr x) = Inr x"
  "with_context c (Inl e) = Inl (Ctx c e)"
  "with_context c r = Inr y \<longleftrightarrow> r = Inr y"
  by (auto simp: with_context_def split: sum.splits)

text \<open>The \<open>?\<close> operator on a pure result.\<close>

definition and_then :: "'a res \<Rightarrow> ('a \<Rightarrow> 'b res) \<Rightarrow> 'b res" where
  "and_then r f = (case r of Inl e \<Rightarrow> Inl e | Inr x \<Rightarrow> f x)"

lemma and_then_simps [simp]:
  "and_then (Inl e) f = Inl e"
  "and_then (Inr x) f = f x"
  by (simp_all add: and_then_def)

lemma and_then_Inr_iff: "and_then r f = Inr y \<longleftrightarrow> (\<exists>x. r = Inr x \<and> f x = Inr y)"
  by (cases r) auto

text \<open>A guard with an early \<open>bail!\<close>.\<close>

definition ensure :: "bool \<Rightarrow> string \<Rightarrow> unit res" where
  "ensure b m = (if b then Inr () else Inl (Msg m))"

lemma ensure_Inr_iff [simp]: "ensure b m = Inr u \<longleftrightarrow> b"
  by (simp add: ensure_def)

lemma ensure_True [simp]: "ensure True m = Inr ()"
  by (simp add: ensure_def)

definition is_ok :: "'a + 'b \<Rightarrow> bool" where
  "is_ok r = (case r of Inl _ \<Rightarrow> False | Inr _ \<Rightarrow> True)"

lemma is_ok_simps [simp]: "is_ok (Inr x)" "\<not> is_ok (Inl e)"
  by (simp_all add: is_ok_def)

lemma is_ok_iff: "is_ok r \<longleftrightarrow> (\<exists>x. r = Inr x)"
  by (cases r) auto

section \<open>Machine integers\<close>

text \<open>\<open>u64::saturating_add\<close>, \<open>saturating_mul\<close> and \<open>saturating_sub\<close>.\<close>

definition sat_add :: "u64 \<Rightarrow> u64 \<Rightarrow> u64" where
  "sat_add a b = (if unat a + unat b < 2 ^ 64 then a + b else - 1)"

definition sat_mul :: "u64 \<Rightarrow> u64 \<Rightarrow> u64" where
  "sat_mul a b = (if unat a * unat b < 2 ^ 64 then a * b else - 1)"

definition sat_sub :: "u64 \<Rightarrow> u64 \<Rightarrow> u64" where
  "sat_sub a b = (if a < b then 0 else a - b)"

lemma unat_minus1_u64: "unat (- 1 :: u64) = 2 ^ 64 - 1"
  by (simp add: unsigned_minus_1_eq_mask mask_eq_exp_minus_1)

lemma unat_lt_u64: "unat (a :: u64) < 2 ^ 64"
  using unsigned_less [of a] by simp

lemma unat_sat_add: "unat (sat_add a b) = min (unat a + unat b) (2 ^ 64 - 1)"
proof (cases "unat a + unat b < 2 ^ 64")
  case True
  then have "unat (a + b) = unat a + unat b"
    by (simp add: unat_word_ariths)
  with True show ?thesis by (simp add: sat_add_def)
next
  case False
  then show ?thesis by (simp add: sat_add_def unat_minus1_u64)
qed

lemma unat_sat_mul: "unat (sat_mul a b) = min (unat a * unat b) (2 ^ 64 - 1)"
proof (cases "unat a * unat b < 2 ^ 64")
  case True
  then have "unat (a * b) = unat a * unat b"
    by (simp add: unat_word_ariths)
  with True show ?thesis by (simp add: sat_mul_def)
next
  case False
  then show ?thesis by (simp add: sat_mul_def unat_minus1_u64)
qed

lemma unat_sat_sub: "unat (sat_sub a b) = unat a - unat b"
  by (simp add: sat_sub_def unat_sub word_le_nat_alt word_less_nat_alt not_less)

section \<open>Wall-clock time\<close>

text \<open>
  A \<open>SystemTime\<close> is a signed number of nanoseconds since the Unix epoch, a
  \<open>Duration\<close> a natural number of nanoseconds.
\<close>

type_synonym systime = int

definition secs :: "nat \<Rightarrow> nat" where
  "secs n = n * 1000000000"

text \<open>\<open>a.duration_since(b).unwrap_or_default()\<close>: zero when \<open>b\<close> is later.\<close>

definition since_or_zero :: "systime \<Rightarrow> systime \<Rightarrow> nat" where
  "since_or_zero a b = nat (a - b)"

definition as_secs :: "nat \<Rightarrow> nat" where
  "as_secs d = d div 1000000000"

definition as_millis :: "nat \<Rightarrow> nat" where
  "as_millis d = d div 1000000"

definition age_in_secs :: "systime \<Rightarrow> systime \<Rightarrow> nat" where
  "age_in_secs now t = as_secs (since_or_zero now t)"

lemma age_in_secs_future [simp]: "now \<le> t \<Longrightarrow> age_in_secs now t = 0"
  by (simp add: age_in_secs_def as_secs_def since_or_zero_def)

lemma nat_less_pos_iff: "0 < m \<Longrightarrow> nat i < m \<longleftrightarrow> i < int m"
  by (cases "0 \<le> i") (simp_all add: nat_less_iff)

lemma age_in_secs_le_iff:
  "age_in_secs now t \<le> n \<longleftrightarrow> now - t < int (secs (Suc n))"
proof -
  have "age_in_secs now t \<le> n \<longleftrightarrow> nat (now - t) < Suc n * 1000000000"
    unfolding age_in_secs_def as_secs_def since_or_zero_def
    using less_mult_imp_div_less [of "nat (now - t)" "Suc n" 1000000000]
      div_less_iff_less_mult [of 1000000000 "nat (now - t)" "Suc n"]
    by (simp add: less_Suc_eq_le)
  also have "\<dots> \<longleftrightarrow> now - t < int (Suc n * 1000000000)"
    by (rule nat_less_pos_iff) simp
  finally show ?thesis by (simp add: secs_def)
qed

lemma age_in_secs_mono: "s \<le> t \<Longrightarrow> age_in_secs now t \<le> age_in_secs now s"
  by (simp add: age_in_secs_le_iff [symmetric]
      age_in_secs_def as_secs_def since_or_zero_def div_le_mono nat_mono)

section \<open>Lists and association lists\<close>

lemma map_of_update [simp]: "map_of (AList.update k v xs) = (map_of xs)(k \<mapsto> v)"
  by (rule update_conv')

lemma map_of_delete [simp]: "map_of (AList.delete k xs) = (map_of xs)(k := None)"
  by (rule delete_conv')

lemma find_None_all: "List.find P xs = None \<longleftrightarrow> list_all (\<lambda>x. \<not> P x) xs"
  by (auto simp: find_None_iff list_all_iff)

lemma set_fold_insert: "fold (\<lambda>x A. insert (f x) A) xs A = f ` set xs \<union> A"
  by (induction xs arbitrary: A) auto

end
