(* ===== verification/Rust_Text.thy ===== *)
theory Rust_Text
  imports Prelude
begin

text \<open>
  The operations of Rust's \<open>str\<close> the program uses, on the bytes of a UTF-8 string:
  prefixes and suffixes, splitting, lines, trimming, ASCII case, decimal and hexadecimal
  formatting, and \<open>str::parse::<u64>\<close>.
\<close>

section \<open>Bytes\<close>

abbreviation byte :: "char \<Rightarrow> nat" where
  "byte c \<equiv> of_char c"

definition is_digit :: "char \<Rightarrow> bool" where
  "is_digit c \<longleftrightarrow> 48 \<le> byte c \<and> byte c \<le> 57"

definition is_ascii_lower :: "char \<Rightarrow> bool" where
  "is_ascii_lower c \<longleftrightarrow> 97 \<le> byte c \<and> byte c \<le> 122"

definition is_ascii_upper :: "char \<Rightarrow> bool" where
  "is_ascii_upper c \<longleftrightarrow> 65 \<le> byte c \<and> byte c \<le> 90"

definition is_ascii_alnum :: "char \<Rightarrow> bool" where
  "is_ascii_alnum c \<longleftrightarrow> is_digit c \<or> is_ascii_lower c \<or> is_ascii_upper c"

definition is_hex_lower :: "char \<Rightarrow> bool" where
  "is_hex_lower c \<longleftrightarrow> is_digit c \<or> (97 \<le> byte c \<and> byte c \<le> 102)"

definition is_ascii_hexdigit :: "char \<Rightarrow> bool" where
  "is_ascii_hexdigit c \<longleftrightarrow> is_hex_lower c \<or> (65 \<le> byte c \<and> byte c \<le> 70)"

lemma byte_char_of [simp]: "n < 256 \<Longrightarrow> byte (char_of n) = n"
  by (simp add: of_char_of)

section \<open>Prefixes, suffixes, splitting\<close>

definition starts_with :: "string \<Rightarrow> string \<Rightarrow> bool" where
  "starts_with s p \<longleftrightarrow> take (length p) s = p"

definition ends_with :: "string \<Rightarrow> string \<Rightarrow> bool" where
  "ends_with s p \<longleftrightarrow> starts_with (rev s) (rev p)"

definition strip_prefix :: "string \<Rightarrow> string \<Rightarrow> string option" where
  "strip_prefix s p = (if starts_with s p then Some (drop (length p) s) else None)"

definition strip_suffix :: "string \<Rightarrow> string \<Rightarrow> string option" where
  "strip_suffix s p = (if ends_with s p then Some (take (length s - length p) s) else None)"

lemma starts_with_iff: "starts_with s p \<longleftrightarrow> (\<exists>t. s = p @ t)"
  by (auto simp: starts_with_def) (metis append_take_drop_id)

lemma ends_with_iff: "ends_with s p \<longleftrightarrow> (\<exists>t. s = t @ p)"
  by (simp add: ends_with_def starts_with_iff) (metis rev_append rev_rev_ident)

lemma strip_prefix_Some_iff: "strip_prefix s p = Some t \<longleftrightarrow> s = p @ t"
  by (auto simp: strip_prefix_def starts_with_iff)

lemma strip_suffix_Some_iff: "strip_suffix s p = Some t \<longleftrightarrow> s = t @ p"
  by (auto simp: strip_suffix_def ends_with_iff)

lemma strip_prefix_append [simp]: "strip_prefix (p @ t) p = Some t"
  by (simp add: strip_prefix_Some_iff)

lemma strip_suffix_append [simp]: "strip_suffix (t @ p) p = Some t"
  by (simp add: strip_suffix_Some_iff)

text \<open>\<open>str::split_once(char)\<close>.\<close>

fun split_once :: "char \<Rightarrow> string \<Rightarrow> (string \<times> string) option" where
  "split_once d [] = None"
| "split_once d (c # cs) =
     (if c = d then Some ([], cs)
      else map_option (\<lambda>(a, b). (c # a, b)) (split_once d cs))"

lemma split_once_Some_iff:
  "split_once d s = Some (a, b) \<longleftrightarrow> s = a @ d # b \<and> d \<notin> set a"
proof (induction s arbitrary: a)
  case (Cons c cs)
  show ?case
  proof (cases "c = d")
    case True
    then show ?thesis by (cases a) auto
  next
    case False
    then show ?thesis using Cons.IH by (cases a) auto
  qed
qed simp

lemma split_once_None_iff: "split_once d s = None \<longleftrightarrow> d \<notin> set s"
  by (induction s) auto

lemma split_once_append [simp]:
  "d \<notin> set a \<Longrightarrow> split_once d (a @ d # b) = Some (a, b)"
  by (simp add: split_once_Some_iff)

text \<open>\<open>str::split(char)\<close>: always at least one piece.\<close>

fun split_char :: "char \<Rightarrow> string \<Rightarrow> string list" where
  "split_char d [] = [[]]"
| "split_char d (c # cs) =
     (if c = d then [] # split_char d cs
      else (case split_char d cs of [] \<Rightarrow> [[c]] | p # ps \<Rightarrow> (c # p) # ps))"

lemma split_char_nonempty [simp]: "split_char d s \<noteq> []"
  by (cases s) (auto split: list.splits)

lemma split_char_id: "d \<notin> set s \<Longrightarrow> split_char d s = [s]"
  by (induction s) auto

lemma split_char_append:
  "d \<notin> set a \<Longrightarrow> split_char d (a @ d # b) = a # split_char d b"
  by (induction a) auto

text \<open>\<open>str::split(str)\<close> for a non-empty pattern.\<close>

fun split_str :: "string \<Rightarrow> string \<Rightarrow> string \<Rightarrow> string list" where
  "split_str p acc [] = [rev acc]"
| "split_str p acc (c # cs) =
     (if p \<noteq> [] \<and> starts_with (c # cs) p
      then rev acc # split_str p [] (drop (length p - 1) cs)
      else split_str p (c # acc) cs)"

lemma split_str_nonempty [simp]: "split_str p acc s \<noteq> []"
  by (induction p acc s rule: split_str.induct) auto

text \<open>\<open>str::contains(str)\<close>.\<close>

fun contains_str :: "string \<Rightarrow> string \<Rightarrow> bool" where
  "contains_str p [] = (p = [])"
| "contains_str p (c # cs) = (starts_with (c # cs) p \<or> contains_str p cs)"

lemma contains_str_iff: "contains_str p s \<longleftrightarrow> (\<exists>a b. s = a @ p @ b)"
proof (induction s)
  case (Cons c cs)
  have "(\<exists>a b. c # cs = a @ p @ b) \<longleftrightarrow> starts_with (c # cs) p \<or> (\<exists>a b. cs = a @ p @ b)"
    by (auto simp: starts_with_iff) (metis append_Cons append_eq_Cons_conv)+
  with Cons show ?case by simp
qed auto

section \<open>UTF-8 characters, white space and control characters\<close>

text \<open>
  A valid UTF-8 string is cut into characters by their lead bytes.  \<open>utf8_width\<close> is the
  number of bytes the lead byte announces.
\<close>

definition utf8_width :: "char \<Rightarrow> nat" where
  "utf8_width c =
     (if byte c < 192 then 1 else if byte c < 224 then 2 else if byte c < 240 then 3 else 4)"

fun utf8_chars :: "string \<Rightarrow> string list" where
  "utf8_chars [] = []"
| "utf8_chars (c # cs) =
     (c # take (utf8_width c - 1) cs) # utf8_chars (drop (utf8_width c - 1) cs)"

lemma concat_utf8_chars [simp]: "concat (utf8_chars s) = s"
  by (induction s rule: utf8_chars.induct) simp_all

definition is_ascii_string :: "string \<Rightarrow> bool" where
  "is_ascii_string s \<longleftrightarrow> list_all (\<lambda>c. byte c < 128) s"

lemma utf8_chars_ascii: "is_ascii_string s \<Longrightarrow> utf8_chars s = map (\<lambda>c. [c]) s"
proof (induction s)
  case (Cons c s)
  then have "utf8_width c = 1" by (simp add: utf8_width_def is_ascii_string_def)
  with Cons show ?case by (simp add: is_ascii_string_def)
qed simp

text \<open>\<open>char::is_control\<close>: the C0 and C1 control characters and DEL.\<close>

definition is_control :: "string \<Rightarrow> bool" where
  "is_control ch =
     (case map byte ch of
        [b] \<Rightarrow> b < 32 \<or> b = 127
      | [b1, b2] \<Rightarrow> b1 = 194 \<and> 128 \<le> b2 \<and> b2 < 160
      | _ \<Rightarrow> False)"

text \<open>\<open>char::is_whitespace\<close>: the White_Space characters of Unicode.\<close>

definition is_whitespace :: "string \<Rightarrow> bool" where
  "is_whitespace ch =
     (case map byte ch of
        [b] \<Rightarrow> (9 \<le> b \<and> b \<le> 13) \<or> b = 32
      | [b1, b2] \<Rightarrow> b1 = 194 \<and> (b2 = 133 \<or> b2 = 160)
      | [b1, b2, b3] \<Rightarrow>
          (b1 = 225 \<and> b2 = 154 \<and> b3 = 128)
          \<or> (b1 = 226 \<and> b2 = 128 \<and> (128 \<le> b3 \<and> b3 \<le> 138 \<or> b3 = 168 \<or> b3 = 169 \<or> b3 = 175))
          \<or> (b1 = 226 \<and> b2 = 129 \<and> b3 = 159)
          \<or> (b1 = 227 \<and> b2 = 128 \<and> b3 = 128)
      | _ \<Rightarrow> False)"

text \<open>\<open>str::trim_start\<close>, \<open>trim_end\<close> and \<open>trim\<close>.\<close>

definition trim_start :: "string \<Rightarrow> string" where
  "trim_start s = concat (dropWhile is_whitespace (utf8_chars s))"

definition trim_end :: "string \<Rightarrow> string" where
  "trim_end s = concat (rev (dropWhile is_whitespace (rev (utf8_chars s))))"

definition trim :: "string \<Rightarrow> string" where
  "trim s = concat (rev (dropWhile is_whitespace (rev (dropWhile is_whitespace (utf8_chars s)))))"

lemma trim_Nil [simp]: "trim [] = []"
  by (simp add: trim_def)

text \<open>\<open>str::lines\<close>: cut at line feeds, no empty last line, one trailing CR dropped.\<close>

definition strip_cr :: "string \<Rightarrow> string" where
  "strip_cr l = (if l \<noteq> [] \<and> last l = CHR 0x0D then butlast l else l)"

definition str_lines :: "string \<Rightarrow> string list" where
  "str_lines s =
     (let ps = split_char (CHR 0x0A) s
      in map strip_cr (butlast ps) @ (if last ps = [] then [] else [last ps]))"

text \<open>\<open>OsStr::to_str\<close> succeeds on valid UTF-8 only.\<close>

definition is_cont :: "char \<Rightarrow> bool" where
  "is_cont c \<longleftrightarrow> 128 \<le> byte c \<and> byte c < 192"

definition valid_char :: "string \<Rightarrow> bool" where
  "valid_char ch =
     (case ch of
        [] \<Rightarrow> False
      | c # cs \<Rightarrow>
          (let b = byte c; b2 = (case cs of [] \<Rightarrow> 0 | d # _ \<Rightarrow> byte d) in
           length cs = utf8_width c - 1 \<and> list_all is_cont cs \<and>
           (b < 128 \<or> (194 \<le> b \<and> b < 224)
            \<or> (224 \<le> b \<and> b < 240 \<and> (b = 224 \<longrightarrow> 160 \<le> b2) \<and> (b = 237 \<longrightarrow> b2 < 160))
            \<or> (240 \<le> b \<and> b < 245 \<and> (b = 240 \<longrightarrow> 144 \<le> b2) \<and> (b = 244 \<longrightarrow> b2 < 144)))))"

definition valid_utf8 :: "bytes \<Rightarrow> bool" where
  "valid_utf8 s \<longleftrightarrow> list_all valid_char (utf8_chars s)"

lemma valid_utf8_ascii: "is_ascii_string s \<Longrightarrow> valid_utf8 s"
proof -
  assume a: "is_ascii_string s"
  have "valid_char [c]" if "c \<in> set s" for c
    using a that by (auto simp: is_ascii_string_def list_all_iff valid_char_def utf8_width_def)
  with a show ?thesis by (simp add: valid_utf8_def utf8_chars_ascii list_all_iff)
qed

text \<open>
  \<open>String::from_utf8_lossy\<close>: the bytes of the next character, or the longest prefix that could
  have begun one, which becomes U+FFFD.
\<close>

definition second_ok :: "nat \<Rightarrow> char \<Rightarrow> bool" where
  "second_ok b d \<longleftrightarrow>
     is_cont d
     \<and> (b = 224 \<longrightarrow> 160 \<le> byte d) \<and> (b = 237 \<longrightarrow> byte d < 160)
     \<and> (b = 240 \<longrightarrow> 144 \<le> byte d) \<and> (b = 244 \<longrightarrow> byte d < 144)"

definition next_char :: "char \<Rightarrow> bytes \<Rightarrow> nat \<times> bool" where
  "next_char c cs =
     (let b = byte c in
      if b < 128 then (1, True)
      else if b < 194 \<or> 245 \<le> b then (1, False)
      else (case cs of
              [] \<Rightarrow> (1, False)
            | d # ds \<Rightarrow>
                if \<not> second_ok b d then (1, False)
                else if b < 224 then (2, True)
                else (case ds of
                        [] \<Rightarrow> (2, False)
                      | e # es \<Rightarrow>
                          if \<not> is_cont e then (2, False)
                          else if b < 240 then (3, True)
                          else (case es of
                                  [] \<Rightarrow> (3, False)
                                | f # _ \<Rightarrow> if is_cont f then (4, True) else (3, False)))))"

function from_utf8_lossy :: "bytes \<Rightarrow> string" where
  "from_utf8_lossy [] = []"
| "from_utf8_lossy (c # cs) =
     (case next_char c cs of
        (n, ok) \<Rightarrow>
          (if ok then take n (c # cs) else [char_of (239 :: nat), char_of (191 :: nat), char_of (189 :: nat)])
            @ from_utf8_lossy (drop (n - 1) cs))"
  by pat_completeness auto
termination by (relation "measure length") auto

lemma from_utf8_lossy_ascii: "is_ascii_string s \<Longrightarrow> from_utf8_lossy s = s"
  by (induction s) (auto simp: is_ascii_string_def next_char_def Let_def)

section \<open>ASCII case\<close>

definition ascii_lower :: "char \<Rightarrow> char" where
  "ascii_lower c = (if is_ascii_upper c then char_of (byte c + 32) else c)"

definition to_ascii_lowercase :: "string \<Rightarrow> string" where
  "to_ascii_lowercase s = map ascii_lower s"

definition eq_ignore_ascii_case :: "string \<Rightarrow> string \<Rightarrow> bool" where
  "eq_ignore_ascii_case a b \<longleftrightarrow> to_ascii_lowercase a = to_ascii_lowercase b"

lemma ascii_lower_idem [simp]: "ascii_lower (ascii_lower c) = ascii_lower c"
  by (auto simp: ascii_lower_def is_ascii_upper_def)

lemma to_ascii_lowercase_idem [simp]:
  "to_ascii_lowercase (to_ascii_lowercase s) = to_ascii_lowercase s"
  by (simp add: to_ascii_lowercase_def)

lemma eq_ignore_ascii_case_refl [simp]: "eq_ignore_ascii_case a a"
  by (simp add: eq_ignore_ascii_case_def)

lemma eq_ignore_ascii_case_sym: "eq_ignore_ascii_case a b \<longleftrightarrow> eq_ignore_ascii_case b a"
  by (auto simp: eq_ignore_ascii_case_def)

lemma eq_ignore_ascii_case_trans:
  "eq_ignore_ascii_case a b \<Longrightarrow> eq_ignore_ascii_case b c \<Longrightarrow> eq_ignore_ascii_case a c"
  by (simp add: eq_ignore_ascii_case_def)

end
