(* ===== verification/Rust_Format.thy ===== *)
theory Rust_Format
  imports Rust_Text
begin

text \<open>
  \<open>format!("{n}")\<close> and \<open>format!("{n:016x}")\<close> of unsigned integers,
  \<open>str::parse::<u64>\<close>, and the round trips between them.
\<close>

section \<open>Decimal\<close>

definition digit_char :: "nat \<Rightarrow> char" where
  "digit_char d = char_of (48 + d)"

definition digit_val :: "char \<Rightarrow> nat" where
  "digit_val c = byte c - 48"

fun dec :: "nat \<Rightarrow> string" where
  "dec n = (if n < 10 then [digit_char n] else dec (n div 10) @ [digit_char (n mod 10)])"

declare dec.simps [simp del]

definition dec_u64 :: "u64 \<Rightarrow> string" where
  "dec_u64 w = dec (unat w)"

text \<open>
  \<open>u64::from_str\<close>: an optional leading plus sign, at least one digit, and an error as
  soon as the value no longer fits.
\<close>

fun u64_digits :: "nat \<Rightarrow> string \<Rightarrow> nat option" where
  "u64_digits acc [] = Some acc"
| "u64_digits acc (c # cs) =
     (if is_digit c
      then (if acc * 10 + digit_val c < 2 ^ 64 then u64_digits (acc * 10 + digit_val c) cs else None)
      else None)"

definition parse_u64 :: "string \<Rightarrow> u64 option" where
  "parse_u64 s =
     (case s of
        [] \<Rightarrow> None
      | c # cs \<Rightarrow>
          map_option of_nat
            (if c = CHR ''+'' then (if cs = [] then None else u64_digits 0 cs)
             else u64_digits 0 (c # cs)))"

lemma digit_val_char [simp]: "d < 10 \<Longrightarrow> digit_val (digit_char d) = d"
  by (simp add: digit_val_def digit_char_def)

lemma is_digit_char [simp]: "d < 10 \<Longrightarrow> is_digit (digit_char d)"
  by (simp add: is_digit_def digit_char_def)

lemma dec_nonempty [simp]: "dec n \<noteq> []"
  by (subst dec.simps) simp

lemma dec_digits: "c \<in> set (dec n) \<Longrightarrow> is_digit c"
proof (induction n rule: dec.induct)
  case (1 n)
  show ?case
  proof (cases "n < 10")
    case True
    with 1 show ?thesis by (simp add: dec.simps [of n])
  next
    case False
    with 1 show ?thesis by (auto simp: dec.simps [of n])
  qed
qed

lemma u64_digits_append:
  "u64_digits acc (xs @ ys) = Option.bind (u64_digits acc xs) (\<lambda>a. u64_digits a ys)"
  by (induction acc xs rule: u64_digits.induct) auto

lemma u64_digits_dec: "n < 2 ^ 64 \<Longrightarrow> u64_digits 0 (dec n) = Some n"
proof (induction n rule: dec.induct)
  case (1 n)
  show ?case
  proof (cases "n < 10")
    case True
    then show ?thesis using "1.prems" by (simp add: dec.simps [of n])
  next
    case False
    then have "n div 10 < 2 ^ 64" using "1.prems" by simp
    with False 1 have "u64_digits 0 (dec (n div 10)) = Some (n div 10)" by simp
    with False "1.prems" show ?thesis
      by (simp add: dec.simps [of n] u64_digits_append)
  qed
qed

lemma digit_not_plus: "is_digit c \<Longrightarrow> c \<noteq> CHR ''+''"
  by (auto simp: is_digit_def)

lemma parse_u64_dec [simp]: "parse_u64 (dec_u64 w) = Some w"
proof -
  obtain c cs where c: "dec (unat w) = c # cs"
    using dec_nonempty by (metis neq_Nil_conv)
  then have "c \<noteq> CHR ''+''"
    using dec_digits [of c "unat w"] digit_not_plus by simp
  with c show ?thesis
    using u64_digits_dec [of "unat w"] unat_lt_u64 [of w]
    by (simp add: parse_u64_def dec_u64_def)
qed

lemma dec_u64_inj [simp]: "dec_u64 a = dec_u64 b \<longleftrightarrow> a = b"
  by (metis option.inject parse_u64_dec)

lemma dec_u64_nonempty [simp]: "dec_u64 w \<noteq> []"
  by (simp add: dec_u64_def)

lemma dec_u64_digits: "c \<in> set (dec_u64 w) \<Longrightarrow> is_digit c"
  by (simp add: dec_u64_def dec_digits)

section \<open>Hexadecimal\<close>

definition hex_char :: "nat \<Rightarrow> char" where
  "hex_char d = char_of (if d < 10 then 48 + d else 87 + d)"

definition hex_val :: "char \<Rightarrow> nat" where
  "hex_val c = (if is_digit c then byte c - 48 else byte c - 87)"

text \<open>\<open>{:x}\<close> and \<open>{:016x}\<close>: the digits, padded on the left with zeros.\<close>

fun lower_hex :: "nat \<Rightarrow> string" where
  "lower_hex n = (if n < 16 then [hex_char n] else lower_hex (n div 16) @ [hex_char (n mod 16)])"

declare lower_hex.simps [simp del]

definition pad_zero :: "nat \<Rightarrow> string \<Rightarrow> string" where
  "pad_zero w s = replicate (w - length s) (CHR ''0'') @ s"

text \<open>Exactly \<open>k\<close> digits, the form the proofs use.\<close>

fun hexn :: "nat \<Rightarrow> nat \<Rightarrow> string" where
  "hexn 0 n = []"
| "hexn (Suc k) n = hexn k (n div 16) @ [hex_char (n mod 16)]"

definition unhex :: "string \<Rightarrow> nat" where
  "unhex s = foldl (\<lambda>acc c. acc * 16 + hex_val c) 0 s"

lemma length_hexn [simp]: "length (hexn k n) = k"
  by (induction k arbitrary: n) auto

lemma hex_char_lower [simp]: "d < 16 \<Longrightarrow> is_hex_lower (hex_char d)"
  by (auto simp: is_hex_lower_def is_digit_def hex_char_def)

lemma hex_val_char [simp]: "d < 16 \<Longrightarrow> hex_val (hex_char d) = d"
  by (auto simp: hex_val_def is_digit_def hex_char_def)

lemma hex_char_val: "is_hex_lower c \<Longrightarrow> hex_char (hex_val c) = c"
  by (auto simp: is_hex_lower_def hex_val_def is_digit_def hex_char_def)

lemma hex_val_less: "is_hex_lower c \<Longrightarrow> hex_val c < 16"
  by (auto simp: is_hex_lower_def hex_val_def is_digit_def)

lemma hexn_lower: "c \<in> set (hexn k n) \<Longrightarrow> is_hex_lower c"
  by (induction k arbitrary: n) auto

lemma unhex_snoc [simp]: "unhex (s @ [c]) = unhex s * 16 + hex_val c"
  by (simp add: unhex_def)

lemma unhex_Nil [simp]: "unhex [] = 0"
  by (simp add: unhex_def)

lemma unhex_hexn: "n < 16 ^ k \<Longrightarrow> unhex (hexn k n) = n"
proof (induction k arbitrary: n)
  case (Suc k)
  then have "n div 16 < 16 ^ k" by (simp add: less_mult_imp_div_less mult.commute)
  with Suc show ?case by simp
qed simp

lemma hexn_unhex:
  "list_all is_hex_lower s \<Longrightarrow> hexn (length s) (unhex s) = s \<and> unhex s < 16 ^ length s"
proof (induction s rule: rev_induct)
  case (snoc c s)
  then have c: "hex_val c < 16" and s: "hexn (length s) (unhex s) = s" "unhex s < 16 ^ length s"
    by (auto dest: hex_val_less)
  from c have d: "(unhex s * 16 + hex_val c) div 16 = unhex s"
    and m: "(unhex s * 16 + hex_val c) mod 16 = hex_val c" by simp_all
  have "unhex s * 16 + hex_val c < 16 ^ length s * 16" using s(2) c by linarith
  with snoc.prems s(1) d m show ?case by (simp add: hex_char_val mult.commute)
qed simp

lemma hexn_zero: "hexn k 0 = replicate k (CHR ''0'')"
proof (induction k)
  case (Suc k)
  have "hex_char 0 = CHR ''0''" by code_simp
  with Suc show ?case by (simp add: replicate_append_same)
qed simp

lemma pad_zero_lower_hex: "0 < k \<Longrightarrow> n < 16 ^ k \<Longrightarrow> pad_zero k (lower_hex n) = hexn k n"
proof (induction n arbitrary: k rule: lower_hex.induct)
  case (1 n)
  from "1.prems" obtain j where k: "k = Suc j" by (cases k) auto
  show ?case
  proof (cases "n < 16")
    case True
    then show ?thesis by (simp add: k pad_zero_def lower_hex.simps [of n] hexn_zero)
  next
    case False
    from "1.prems" k have n: "n div 16 < 16 ^ j" by (simp add: less_mult_imp_div_less mult.commute)
    with False have "0 < j" by (cases j) auto
    with "1.IH" [OF False this n] show ?thesis
      using False by (simp add: k pad_zero_def lower_hex.simps [of n])
  qed
qed

definition hex_u64 :: "u64 \<Rightarrow> string" where
  "hex_u64 w = pad_zero 16 (lower_hex (unat w))"

lemma hex_u64_hexn: "hex_u64 w = hexn 16 (unat w)"
  using unat_lt_u64 [of w] by (simp add: hex_u64_def pad_zero_lower_hex)

lemma length_hex_u64 [simp]: "length (hex_u64 w) = 16"
  by (simp add: hex_u64_hexn)

lemma hex_u64_lower: "list_all is_hex_lower (hex_u64 w)"
  by (auto simp: hex_u64_hexn list_all_iff dest: hexn_lower)

lemma unhex_hex_u64 [simp]: "unhex (hex_u64 w) = unat w"
  using unat_lt_u64 [of w] by (simp add: hex_u64_hexn unhex_hexn)

lemma hex_u64_inj [simp]: "hex_u64 a = hex_u64 b \<longleftrightarrow> a = b"
  by (metis unhex_hex_u64 word_unat_eq_iff)

lemma hex_u64_surj:
  assumes "length s = 16" and "list_all is_hex_lower s"
  shows "hex_u64 (of_nat (unhex s)) = s"
proof -
  from hexn_unhex [OF assms(2)] assms(1)
  have h: "hexn 16 (unhex s) = s" and b: "unhex s < 2 ^ 64" by simp_all
  from b have "unat (of_nat (unhex s) :: u64) = unhex s" by (simp add: unat_of_nat)
  with h show ?thesis by (simp add: hex_u64_hexn)
qed

end
