(* ===== verification/Github_Types.thy ===== *)
theory Github_Types
  imports Rust_Format
begin

text \<open>
  The data the program receives from outside (\<open>github/event.rs\<close>, the response types of
  \<open>github/jit.rs\<close>, the spool envelope) and the functions of third-party crates that read and
  write it.  The crates are not part of the repository: each of their functions the program calls
  is a field of the record \<open>crates\<close>, an argument of the definitions that use it.
\<close>

section \<open>Webhook events (\<open>github/event.rs\<close>)\<close>

record workflow_job_info =
  job_id :: u64
  job_run_id :: u64
  job_run_attempt :: u64
  job_head_branch :: "string option"
  job_head_sha :: "string option"
  job_name :: string
  job_labels :: "string list"

record repository =
  repository_id :: u64
  full_name :: string

record workflow_job =
  ev_action :: string
  ev_job :: workflow_job_info
  ev_repository :: repository

section \<open>The spool envelope (\<open>spool.rs\<close>)\<close>

record envelope =
  env_schema :: u32
  env_event :: string
  env_delivery :: string
  env_repo_id :: u64
  env_repo :: string
  env_action :: string
  env_workflow_job_id :: u64
  env_received_at_ms :: nat
  env_signature :: string

section \<open>GitHub API answers (\<open>github/jit.rs\<close>)\<close>

record runner =
  runner_id :: u64
  runner_name :: string
  runner_state :: string
  runner_busy :: bool

record jit_runner =
  jit_runner_id :: u64
  jit_runner_name :: string

record jit_config_resp =
  jit_runner :: jit_runner
  encoded_jit_config :: string

record job_status =
  js_id :: u64
  js_status :: string
  js_run_id :: u64
  js_run_attempt :: u64
  js_name :: string
  js_labels :: "string list"
  js_repo_id :: u64

record run_repo =
  run_repo_id :: u64

record workflow_run =
  run_id :: u64
  run_repository :: run_repo

text \<open>\<open>RepoInfo\<close> is its \<open>default_branch\<close>, \<open>BranchInfo\<close> the sha of its commit.\<close>

section \<open>JSON values and the crates\<close>

datatype json =
  JNull
| JBool bool
| JNum nat
| JOther string
| JStr string
| JArr "json list"
| JObj "(string \<times> json) list"

text \<open>
  \<open>hmac_sha256 key message\<close> (crates \<open>hmac\<close>, \<open>sha2\<close>), \<open>hex\<close>, and
  \<open>serde_json\<close>: \<open>json_vec\<close> serialises a value, the others decode bytes into the
  structure the caller asks for, with an error text otherwise; a missing
  \<open>#[serde(default)]\<close> field decodes to its default.  \<open>JOther\<close> is a number that is not
  natural.  \<open>jwt_rs256 iat exp iss key\<close> and \<open>rsa_key_from_pem\<close> are \<open>jsonwebtoken\<close>.
\<close>

record crates =
  hmac_sha256 :: "bytes \<Rightarrow> bytes \<Rightarrow> bytes"
  hex_encode :: "bytes \<Rightarrow> string"
  hex_decode :: "string \<Rightarrow> bytes option"
  json_vec :: "json \<Rightarrow> string + bytes"
  json_envelope :: "bytes \<Rightarrow> string + envelope"
  json_event :: "bytes \<Rightarrow> string + workflow_job"
  json_value :: "bytes \<Rightarrow> string + json"
  json_runner :: "bytes \<Rightarrow> string + runner"
  json_runners :: "bytes \<Rightarrow> string + runner list"
  json_jit_config :: "bytes \<Rightarrow> string + jit_config_resp"
  json_job_status :: "bytes \<Rightarrow> string + job_status"
  json_runs :: "bytes \<Rightarrow> string + workflow_run list"
  json_run_jobs :: "bytes \<Rightarrow> string + job_status list"
  json_repo_info :: "bytes \<Rightarrow> string + string"
  json_branch_info :: "bytes \<Rightarrow> string + string"
  json_installation :: "bytes \<Rightarrow> string + u64"
  json_token :: "bytes \<Rightarrow> string + string"
  rsa_key_from_pem :: "bytes \<Rightarrow> string + bytes"
  jwt_rs256 :: "u64 \<Rightarrow> u64 \<Rightarrow> u64 \<Rightarrow> bytes \<Rightarrow> string + string"

end
