(* ===== verification/Filesystem.thy ===== *)
theory Filesystem
  imports Rust_Text
begin

text \<open>
  The part of the operating system the program talks to through \<open>std::fs\<close>,
  \<open>tokio::fs\<close> and \<open>libc\<close>: a finite table of inodes by path, the wall clock, the
  effective uid, and a fault oracle that makes any system call on any path fail with any error.
  Each call is one function; the calls that change the table return the new state.
  A directory needs no entry of its own (one that has an entry has an owner and a mode): the children
  of \<open>d\<close> are the entries whose path is \<open>join d name\<close>, and a missing or unreadable directory
  is a fault of \<open>OpReadDir\<close>.  A call looks its path up in the table and follows symbolic links in
  the last component where the system call does; \<open>sys_realpath\<close> resolves every component.
\<close>

datatype fkind = Regular | Directory | Symlink path | Special

record inode =
  ikind :: fkind
  idata :: bytes
  imtime :: systime
  imode :: u32
  iuid :: u32

datatype fop =
  OpStat | OpOpen | OpFstat | OpRead | OpRename | OpUnlink | OpCreate | OpWrite
| OpUtime | OpReadDir | OpNextEntry | OpEntryType | OpChmod | OpMkdir

record fsys =
  nodes :: "(path \<times> inode) list"
  clock :: systime
  euid :: u32
  fault :: "fop \<Rightarrow> path \<Rightarrow> io_kind option"
  cut :: "path \<Rightarrow> nat"

section \<open>The table\<close>

definition get :: "fsys \<Rightarrow> path \<Rightarrow> inode option" where
  "get fs p = map_of (nodes fs) p"

definition put :: "path \<Rightarrow> inode \<Rightarrow> fsys \<Rightarrow> fsys" where
  "put p i fs = fs\<lparr>nodes := AList.update p i (nodes fs)\<rparr>"

definition del :: "path \<Rightarrow> fsys \<Rightarrow> fsys" where
  "del p fs = fs\<lparr>nodes := AList.delete p (nodes fs)\<rparr>"

lemma get_put [simp]: "get (put p i fs) q = (if q = p then Some i else get fs q)"
  by (simp add: get_def put_def)

lemma get_del [simp]: "get (del p fs) q = (if q = p then None else get fs q)"
  by (simp add: get_def del_def)

lemma put_fields [simp]:
  "clock (put p i fs) = clock fs" "euid (put p i fs) = euid fs"
  "fault (put p i fs) = fault fs" "cut (put p i fs) = cut fs"
  by (simp_all add: put_def)

lemma del_fields [simp]:
  "clock (del p fs) = clock fs" "euid (del p fs) = euid fs"
  "fault (del p fs) = fault fs" "cut (del p fs) = cut fs"
  by (simp_all add: del_def)

section \<open>Looking\<close>

text \<open>\<open>lstat\<close>, and \<open>stat\<close> through at most 40 links (\<open>ELOOP\<close> beyond).\<close>

definition sys_lstat :: "path \<Rightarrow> fsys \<Rightarrow> io_kind + inode" where
  "sys_lstat p fs =
     (case fault fs OpStat p of
        Some e \<Rightarrow> Inl e
      | None \<Rightarrow> (case get fs p of None \<Rightarrow> Inl NotFound | Some i \<Rightarrow> Inr i))"

fun follow :: "nat \<Rightarrow> fsys \<Rightarrow> path \<Rightarrow> io_kind + inode" where
  "follow 0 fs p = Inl (OtherIo 40)"
| "follow (Suc k) fs p =
     (case get fs p of
        None \<Rightarrow> Inl NotFound
      | Some i \<Rightarrow> (case ikind i of Symlink t \<Rightarrow> follow k fs t | _ \<Rightarrow> Inr i))"

definition sys_stat :: "path \<Rightarrow> fsys \<Rightarrow> io_kind + inode" where
  "sys_stat p fs = (case fault fs OpStat p of Some e \<Rightarrow> Inl e | None \<Rightarrow> follow 40 fs p)"

text \<open>\<open>fs::try_exists(p).unwrap_or(false)\<close>.\<close>

definition try_exists_or_false :: "path \<Rightarrow> fsys \<Rightarrow> bool" where
  "try_exists_or_false p fs = is_ok (sys_stat p fs)"

lemma try_exists_regular:
  "get fs p = Some i \<Longrightarrow> ikind i = Regular \<Longrightarrow> fault fs OpStat p = None \<Longrightarrow>
   try_exists_or_false p fs"
  by (simp add: try_exists_or_false_def sys_stat_def eval_nat_numeral)

lemma try_exists_missing: "get fs p = None \<Longrightarrow> \<not> try_exists_or_false p fs"
  by (auto simp: try_exists_or_false_def sys_stat_def eval_nat_numeral split: option.splits)

text \<open>\<open>open(O_RDONLY | O_NOFOLLOW | O_NONBLOCK)\<close>: a symbolic link is \<open>ELOOP\<close>, a FIFO opens.\<close>

definition sys_open_nofollow :: "path \<Rightarrow> fsys \<Rightarrow> io_kind + inode" where
  "sys_open_nofollow p fs =
     (case fault fs OpOpen p of
        Some e \<Rightarrow> Inl e
      | None \<Rightarrow>
          (case get fs p of
             None \<Rightarrow> Inl NotFound
           | Some i \<Rightarrow> (case ikind i of Symlink _ \<Rightarrow> Inl (OtherIo 40) | _ \<Rightarrow> Inr i)))"

text \<open>\<open>fstat\<close> and \<open>read\<close> of a descriptor opened at \<open>p\<close>.\<close>

definition sys_fstat :: "path \<Rightarrow> inode \<Rightarrow> fsys \<Rightarrow> io_kind + inode" where
  "sys_fstat p i fs = (case fault fs OpFstat p of Some e \<Rightarrow> Inl e | None \<Rightarrow> Inr i)"

definition sys_read :: "path \<Rightarrow> inode \<Rightarrow> fsys \<Rightarrow> io_kind + bytes" where
  "sys_read p i fs = (case fault fs OpRead p of Some e \<Rightarrow> Inl e | None \<Rightarrow> Inr (idata i))"

text \<open>
  \<open>read_dir\<close>: the names in the directory in some order, and an error of \<open>next_entry\<close>
  that cuts the listing after \<open>cut fs d\<close> names.
\<close>

definition children :: "path \<Rightarrow> fsys \<Rightarrow> string list" where
  "children d fs = map (last \<circ> fst) (filter (\<lambda>(p, _). p \<noteq> [] \<and> butlast p = d) (nodes fs))"

definition sys_read_dir :: "path \<Rightarrow> fsys \<Rightarrow> io_kind + (string list \<times> io_kind option)" where
  "sys_read_dir d fs =
     (case fault fs OpReadDir d of
        Some e \<Rightarrow> Inl e
      | None \<Rightarrow>
          (case fault fs OpNextEntry d of
             None \<Rightarrow> Inr (children d fs, None)
           | Some e \<Rightarrow> Inr (take (cut fs d) (children d fs), Some e)))"

lemma set_children: "set (children d fs) = {n. get fs (join d n) \<noteq> None}"
proof -
  have "n \<in> set (children d fs) \<longleftrightarrow> join d n \<in> fst ` set (nodes fs)" for n
  proof
    assume "n \<in> set (children d fs)"
    then obtain p i where "(p, i) \<in> set (nodes fs)" "p \<noteq> []" "butlast p = d" "n = last p"
      by (auto simp: children_def)
    then show "join d n \<in> fst ` set (nodes fs)"
      by (auto simp: join_def image_iff intro!: bexI [of _ "(p, i)"])
  next
    assume "join d n \<in> fst ` set (nodes fs)"
    then obtain i where "(join d n, i) \<in> set (nodes fs)" by force
    then show "n \<in> set (children d fs)"
      by (force simp: children_def)
  qed
  then show ?thesis by (auto simp: get_def map_of_eq_None_iff)
qed

section \<open>Changing\<close>

type_synonym 'a io = "(io_kind + 'a) \<times> fsys"

text \<open>
  \<open>rename(2)\<close> and its exclusive form (\<open>renameat2(RENAME_NOREPLACE)\<close>,
  \<open>renameatx_np(RENAME_EXCL)\<close>): both look the source up first.
\<close>

definition sys_rename :: "path \<Rightarrow> path \<Rightarrow> fsys \<Rightarrow> unit io" where
  "sys_rename a b fs =
     (case fault fs OpRename a of
        Some e \<Rightarrow> (Inl e, fs)
      | None \<Rightarrow>
          (case get fs a of
             None \<Rightarrow> (Inl NotFound, fs)
           | Some i \<Rightarrow> (Inr (), if a = b then fs else put b i (del a fs))))"

definition sys_rename_excl :: "path \<Rightarrow> path \<Rightarrow> fsys \<Rightarrow> unit io" where
  "sys_rename_excl a b fs =
     (case fault fs OpRename a of
        Some e \<Rightarrow> (Inl e, fs)
      | None \<Rightarrow>
          (case get fs a of
             None \<Rightarrow> (Inl NotFound, fs)
           | Some i \<Rightarrow>
               (case get fs b of
                  Some _ \<Rightarrow> (Inl AlreadyExists, fs)
                | None \<Rightarrow> (Inr (), put b i (del a fs)))))"

definition sys_unlink :: "path \<Rightarrow> fsys \<Rightarrow> unit io" where
  "sys_unlink p fs =
     (case fault fs OpUnlink p of
        Some e \<Rightarrow> (Inl e, fs)
      | None \<Rightarrow>
          (case get fs p of
             None \<Rightarrow> (Inl NotFound, fs)
           | Some i \<Rightarrow> if ikind i = Directory then (Inl (OtherIo 21), fs) else (Inr (), del p fs)))"

text \<open>\<open>open(O_CREAT | O_EXCL, mode)\<close> then \<open>write_all\<close> and \<open>fsync\<close>.\<close>

definition sys_create_new :: "path \<Rightarrow> u32 \<Rightarrow> fsys \<Rightarrow> unit io" where
  "sys_create_new p mode fs =
     (case fault fs OpCreate p of
        Some e \<Rightarrow> (Inl e, fs)
      | None \<Rightarrow>
          (case get fs p of
             Some _ \<Rightarrow> (Inl AlreadyExists, fs)
           | None \<Rightarrow>
               (Inr (), put p \<lparr>ikind = Regular, idata = [], imtime = clock fs, imode = mode,
                               iuid = euid fs\<rparr> fs)))"

definition sys_write_all :: "path \<Rightarrow> bytes \<Rightarrow> fsys \<Rightarrow> unit io" where
  "sys_write_all p b fs =
     (case fault fs OpWrite p of
        Some e \<Rightarrow> (Inl e, fs)
      | None \<Rightarrow>
          (case get fs p of
             None \<Rightarrow> (Inr (), fs)
           | Some i \<Rightarrow> (Inr (), put p (i\<lparr>idata := b, imtime := clock fs\<rparr>) fs)))"

text \<open>\<open>fs::write\<close>: create or truncate, through symbolic links.\<close>

fun link_target :: "nat \<Rightarrow> fsys \<Rightarrow> path \<Rightarrow> path option" where
  "link_target 0 fs p = None"
| "link_target (Suc k) fs p =
     (case get fs p of
        Some i \<Rightarrow> (case ikind i of Symlink t \<Rightarrow> link_target k fs t | _ \<Rightarrow> Some p)
      | None \<Rightarrow> Some p)"

definition sys_write_file :: "path \<Rightarrow> bytes \<Rightarrow> fsys \<Rightarrow> unit io" where
  "sys_write_file p b fs =
     (case fault fs OpWrite p of
        Some e \<Rightarrow> (Inl e, fs)
      | None \<Rightarrow>
          (case link_target 40 fs p of
             None \<Rightarrow> (Inl (OtherIo 40), fs)
           | Some q \<Rightarrow>
               (case get fs q of
                  None \<Rightarrow> (Inr (), put q \<lparr>ikind = Regular, idata = b, imtime = clock fs,
                                           imode = 0x1A4, iuid = euid fs\<rparr> fs)
                | Some i \<Rightarrow>
                    if ikind i = Regular
                    then (Inr (), put q (i\<lparr>idata := b, imtime := clock fs\<rparr>) fs)
                    else (Inl (OtherIo 21), fs))))"

text \<open>\<open>File::set_modified\<close> on the file opened at \<open>p\<close>.\<close>

definition sys_set_mtime :: "path \<Rightarrow> systime \<Rightarrow> fsys \<Rightarrow> unit io" where
  "sys_set_mtime p t fs =
     (case fault fs OpUtime p of
        Some e \<Rightarrow> (Inl e, fs)
      | None \<Rightarrow>
          (case get fs p of
             None \<Rightarrow> (Inr (), fs)
           | Some i \<Rightarrow> (Inr (), put p (i\<lparr>imtime := t\<rparr>) fs)))"

text \<open>
  \<open>create_dir_all\<close>: an existing directory is fine, an ancestor that is a file is not;
  \<open>set_permissions\<close> is \<open>chmod(2)\<close>, which follows links.
\<close>

definition is_dir_at :: "fsys \<Rightarrow> path \<Rightarrow> bool" where
  "is_dir_at fs p \<longleftrightarrow> (case follow 40 fs p of Inl _ \<Rightarrow> False | Inr i \<Rightarrow> ikind i = Directory)"

definition sys_mkdir_all :: "path \<Rightarrow> fsys \<Rightarrow> unit io" where
  "sys_mkdir_all p fs =
     (case fault fs OpMkdir p of
        Some e \<Rightarrow> (Inl e, fs)
      | None \<Rightarrow>
          if list_ex (\<lambda>n. get fs (take n p) \<noteq> None \<and> \<not> is_dir_at fs (take n p)) [1..<length p]
          then (Inl (OtherIo 20), fs)
          else (case get fs p of
                  None \<Rightarrow> (Inr (), put p \<lparr>ikind = Directory, idata = [], imtime = clock fs,
                                           imode = 0x1ED, iuid = euid fs\<rparr> fs)
                | Some _ \<Rightarrow> if is_dir_at fs p then (Inr (), fs) else (Inl AlreadyExists, fs)))"

definition sys_chmod :: "path \<Rightarrow> u32 \<Rightarrow> fsys \<Rightarrow> unit io" where
  "sys_chmod p mode fs =
     (case fault fs OpChmod p of
        Some e \<Rightarrow> (Inl e, fs)
      | None \<Rightarrow>
          (case link_target 40 fs p of
             None \<Rightarrow> (Inl (OtherIo 40), fs)
           | Some q \<Rightarrow>
               (case get fs q of
                  None \<Rightarrow> (Inl NotFound, fs)
                | Some i \<Rightarrow> (Inr (), put q (i\<lparr>imode := mode\<rparr>) fs))))"

text \<open>
  \<open>fs::canonicalize\<close> of an absolute path: every link and every \<open>..\<close> on the way is resolved,
  and the result exists (as an entry, or as a directory on the way to one).
\<close>

definition exists_at :: "fsys \<Rightarrow> path \<Rightarrow> bool" where
  "exists_at fs p \<longleftrightarrow> list_ex (\<lambda>(q, _). take (length p) q = p) (nodes fs) \<or> length p \<le> 1"

function walk :: "nat \<Rightarrow> fsys \<Rightarrow> path \<Rightarrow> path \<Rightarrow> io_kind + path" where
  "walk links fs acc [] = Inr acc"
| "walk links fs acc (c # cs) =
     (if c = ''.'' then walk links fs acc cs
      else if c = ''..'' then walk links fs (take (max 1 (length acc - 1)) acc) cs
      else if \<not> exists_at fs (acc @ [c]) then Inl NotFound
      else (case map_option ikind (get fs (acc @ [c])) of
              Some (Symlink t) \<Rightarrow>
                (case links of
                   0 \<Rightarrow> Inl (OtherIo 40)
                 | Suc k \<Rightarrow> if take 1 t = [''/''] then walk k fs [''/''] (tl t @ cs) else walk k fs acc (t @ cs))
            | Some Directory \<Rightarrow> walk links fs (acc @ [c]) cs
            | None \<Rightarrow> walk links fs (acc @ [c]) cs
            | Some _ \<Rightarrow> if cs = [] then Inr (acc @ [c]) else Inl (OtherIo 20)))"
  by pat_completeness auto
termination
  by (relation "measures [\<lambda>(links, _, _, _). links, \<lambda>(_, _, _, cs). length cs]") auto

definition sys_realpath :: "path \<Rightarrow> fsys \<Rightarrow> io_kind + path" where
  "sys_realpath p fs = (case fault fs OpStat p of Some e \<Rightarrow> Inl e | None \<Rightarrow> walk 40 fs (take 1 p) (tl p))"

text \<open>
  \<open>create_dir\<close> makes one directory; \<open>remove_dir_all\<close> removes what is at a path and below
  it, without following links, entry by entry until one cannot be removed.
\<close>

definition sys_mkdir :: "path \<Rightarrow> fsys \<Rightarrow> unit io" where
  "sys_mkdir p fs =
     (case fault fs OpMkdir p of
        Some e \<Rightarrow> (Inl e, fs)
      | None \<Rightarrow>
          if exists_at fs p then (Inl AlreadyExists, fs)
          else if get fs (butlast p) \<noteq> None \<and> \<not> is_dir_at fs (butlast p) then (Inl (OtherIo 20), fs)
          else (Inr (), put p \<lparr>ikind = Directory, idata = [], imtime = clock fs, imode = 0x1ED,
                                iuid = euid fs\<rparr> fs))"

definition below :: "path \<Rightarrow> path \<Rightarrow> bool" where
  "below p q \<longleftrightarrow> take (length p) q = p"

definition sys_remove_dir_all :: "path \<Rightarrow> fsys \<Rightarrow> unit io" where
  "sys_remove_dir_all p fs =
     (if \<not> exists_at fs p then (Inl NotFound, fs)
      else if map_option ikind (get fs p) = Some Regular \<or> map_option ikind (get fs p) = Some Special
        then (Inl (OtherIo 20), fs)
      else
        (let entries = filter (below p) (map fst (nodes fs));
             removed = takeWhile (\<lambda>q. fault fs OpUnlink q = None) entries;
             fs' = fs\<lparr>nodes := filter (\<lambda>(q, _). q \<notin> set removed) (nodes fs)\<rparr>
         in case drop (length removed) entries of
              [] \<Rightarrow> (Inr (), fs')
            | q # _ \<Rightarrow> (Inl (the (fault fs OpUnlink q)), fs')))"

section \<open>What each call does to the table\<close>

lemma rename_excl_cases:
  assumes "sys_rename_excl a b fs = (r, fs')"
  obtains (ok) i where "r = Inr ()" "get fs a = Some i" "get fs b = None"
      "fs' = put b i (del a fs)" "fault fs OpRename a = None"
  | (missing) "r = Inl NotFound" "get fs a = None" "fs' = fs" "fault fs OpRename a = None"
  | (occupied) i j where "r = Inl AlreadyExists" "get fs a = Some i" "get fs b = Some j"
      "fs' = fs" "fault fs OpRename a = None"
  | (failed) e where "r = Inl e" "fs' = fs" "fault fs OpRename a = Some e"
  using assms by (auto simp: sys_rename_excl_def split: option.splits)

lemma rename_cases:
  assumes "sys_rename a b fs = (r, fs')"
  obtains (ok) i where "r = Inr ()" "get fs a = Some i" "fault fs OpRename a = None"
      "fs' = (if a = b then fs else put b i (del a fs))"
  | (missing) "r = Inl NotFound" "get fs a = None" "fs' = fs" "fault fs OpRename a = None"
  | (failed) e where "r = Inl e" "fs' = fs" "fault fs OpRename a = Some e"
  using assms by (auto simp: sys_rename_def split: option.splits)

lemma unlink_cases:
  assumes "sys_unlink p fs = (r, fs')"
  obtains (ok) i where "r = Inr ()" "get fs p = Some i" "ikind i \<noteq> Directory" "fs' = del p fs"
  | (failed) e where "r = Inl e" "fs' = fs"
proof (cases "\<exists>i. r = Inr () \<and> get fs p = Some i \<and> ikind i \<noteq> Directory \<and> fs' = del p fs")
  case True
  then show ?thesis using ok by blast
next
  case False
  with assms have "fs' = fs \<and> (\<exists>e. r = Inl e)"
    by (auto simp: sys_unlink_def split: option.splits if_splits)
  then show ?thesis using failed by blast
qed

lemma get_rename_excl_other:
  "q \<noteq> a \<Longrightarrow> q \<noteq> b \<Longrightarrow> get (snd (sys_rename_excl a b fs)) q = get fs q"
  by (simp add: sys_rename_excl_def split: option.split)

lemma get_rename_other:
  "q \<noteq> a \<Longrightarrow> q \<noteq> b \<Longrightarrow> get (snd (sys_rename a b fs)) q = get fs q"
  by (simp add: sys_rename_def split: option.split)

lemma get_unlink_other: "q \<noteq> p \<Longrightarrow> get (snd (sys_unlink p fs)) q = get fs q"
  by (simp add: sys_unlink_def split: option.split)

lemma get_create_other: "q \<noteq> p \<Longrightarrow> get (snd (sys_create_new p m fs)) q = get fs q"
  by (simp add: sys_create_new_def split: option.split)

lemma get_write_all_other: "q \<noteq> p \<Longrightarrow> get (snd (sys_write_all p b fs)) q = get fs q"
  by (simp add: sys_write_all_def split: option.split)

lemma get_set_mtime_other: "q \<noteq> p \<Longrightarrow> get (snd (sys_set_mtime p t fs)) q = get fs q"
  by (simp add: sys_set_mtime_def split: option.split)

lemma sys_fields [simp]:
  "fault (snd (sys_rename_excl a b fs)) = fault fs"
  "fault (snd (sys_rename a b fs)) = fault fs"
  "fault (snd (sys_unlink a fs)) = fault fs"
  "fault (snd (sys_create_new a m fs)) = fault fs"
  "fault (snd (sys_write_all a d fs)) = fault fs"
  "fault (snd (sys_write_file a d fs)) = fault fs"
  "fault (snd (sys_set_mtime a t fs)) = fault fs"
  "clock (snd (sys_rename_excl a b fs)) = clock fs"
  "clock (snd (sys_rename a b fs)) = clock fs"
  "clock (snd (sys_unlink a fs)) = clock fs"
  "clock (snd (sys_create_new a m fs)) = clock fs"
  "clock (snd (sys_write_all a d fs)) = clock fs"
  "clock (snd (sys_write_file a d fs)) = clock fs"
  "clock (snd (sys_set_mtime a t fs)) = clock fs"
  by (simp_all add: sys_rename_excl_def sys_rename_def sys_unlink_def sys_create_new_def
      sys_write_all_def sys_write_file_def sys_set_mtime_def split: option.split)

text \<open>
  A write through \<open>fs::write\<close> keeps every inode it does not name, except that the target
  of a link is rewritten in place: an existing path stays, with its kind.
\<close>

definition present :: "fsys \<Rightarrow> path \<Rightarrow> bool" where
  "present fs p \<longleftrightarrow> get fs p \<noteq> None"

lemma link_target_regular:
  "get fs p = Some i \<Longrightarrow> ikind i = Regular \<Longrightarrow> link_target (Suc k) fs p = Some p"
  by simp

lemma write_file_kind:
  "get fs q = Some i \<Longrightarrow> \<exists>j. get (snd (sys_write_file p b fs)) q = Some j \<and> ikind j = ikind i"
  by (auto simp: sys_write_file_def split: option.split)

lemma write_file_missing:
  assumes "get fs q = None" and "link_target 40 fs p \<noteq> Some q"
  shows "get (snd (sys_write_file p b fs)) q = None"
  using assms by (auto simp: sys_write_file_def split: option.split)

text \<open>After a removal that nothing stops, nothing is left below the path; elsewhere nothing changed.\<close>

lemma below_join [simp]: "below p (join p n)"
  by (simp add: below_def join_def)

lemma remove_dir_all_gone:
  assumes "\<And>q. fault fs OpUnlink q = None" and "below p q"
    and "map_option ikind (get fs p) \<noteq> Some Regular" "map_option ikind (get fs p) \<noteq> Some Special"
    and "1 < length p"
  shows "get (snd (sys_remove_dir_all p fs)) q = None"
proof (cases "exists_at fs p")
  case True
  have t: "takeWhile (\<lambda>q. fault fs OpUnlink q = None) xs = xs" for xs
    by (simp add: assms(1) takeWhile_eq_all_conv)
  have "sys_remove_dir_all p fs
      = (Inr (), fs\<lparr>nodes := filter (\<lambda>(r, _). r \<notin> set (filter (below p) (map fst (nodes fs)))) (nodes fs)\<rparr>)"
    unfolding sys_remove_dir_all_def Let_def t using True assms(3,4) by simp
  moreover have "q \<notin> fst ` set (filter (\<lambda>(r, _). r \<notin> set (filter (below p) (map fst (nodes fs)))) (nodes fs))"
    using assms(2) by (auto simp: image_iff) (metis fst_conv image_eqI)
  ultimately show ?thesis by (simp add: get_def map_of_eq_None_iff)
next
  case False
  with assms(2,5) have "q \<notin> fst ` set (nodes fs)"
    by (auto simp: exists_at_def below_def list_ex_iff)
  with False show ?thesis by (simp add: sys_remove_dir_all_def get_def map_of_eq_None_iff)
qed

lemma remove_dir_all_fields [simp]:
  "fault (snd (sys_remove_dir_all p fs)) = fault fs" "clock (snd (sys_remove_dir_all p fs)) = clock fs"
  by (simp_all add: sys_remove_dir_all_def Let_def split: list.split)

end
