(* ===== verification/Spool.thy ===== *)
theory Spool
  imports Github_Types Filesystem
begin

text \<open>
  Reading the spool (\<open>spool.rs\<close>): file names, file caps, the split into envelope line and
  body, the webhook signature, and the listing of \<open>new/\<close>.
\<close>

section \<open>The spool root\<close>

definition MAX_FILE_BYTES :: nat where
  "MAX_FILE_BYTES = 6 * 1024 * 1024"

definition MAX_ENVELOPE_BYTES :: nat where
  "MAX_ENVELOPE_BYTES = 4 * 1024"

record spool =
  root :: path

definition new_dir :: "spool \<Rightarrow> path" where
  "new_dir s = join (root s) ''new''"

definition cur_dir :: "spool \<Rightarrow> path" where
  "cur_dir s = join (root s) ''cur''"

definition done_dir :: "spool \<Rightarrow> path" where
  "done_dir s = join (root s) ''done''"

definition error_dir :: "spool \<Rightarrow> path" where
  "error_dir s = join (root s) ''error''"

lemmas spool_dirs = new_dir_def cur_dir_def done_dir_def error_dir_def

lemma spool_dirs_distinct [simp]:
  "new_dir s \<noteq> cur_dir s" "cur_dir s \<noteq> new_dir s"
  "new_dir s \<noteq> done_dir s" "done_dir s \<noteq> new_dir s"
  "new_dir s \<noteq> error_dir s" "error_dir s \<noteq> new_dir s"
  "cur_dir s \<noteq> done_dir s" "done_dir s \<noteq> cur_dir s"
  "cur_dir s \<noteq> error_dir s" "error_dir s \<noteq> cur_dir s"
  "done_dir s \<noteq> error_dir s" "error_dir s \<noteq> done_dir s"
  by (simp_all add: spool_dirs)

section \<open>File names\<close>

definition parse_spool_filename :: "string \<Rightarrow> u64 option" where
  "parse_spool_filename name =
     (case strip_suffix name ''.job'' of
        None \<Rightarrow> None
      | Some stem \<Rightarrow> parse_u64 stem)"

text \<open>\<open>format!("{id}.job")\<close>, the name the spooler writes.\<close>

definition canonical_name :: "u64 \<Rightarrow> string" where
  "canonical_name i = dec_u64 i @ ''.job''"

lemma parse_canonical_name [simp]: "parse_spool_filename (canonical_name i) = Some i"
  by (simp add: parse_spool_filename_def canonical_name_def del: append.simps)

lemma canonical_name_inj [simp]: "canonical_name i = canonical_name j \<longleftrightarrow> i = j"
  by (simp add: canonical_name_def)

lemma valid_utf8_canonical [simp]: "valid_utf8 (canonical_name i)"
  by (rule valid_utf8_ascii)
     (auto simp: is_ascii_string_def canonical_name_def list_all_iff is_digit_def dest: dec_u64_digits)

lemma parse_spool_filename_suffix:
  "parse_spool_filename n = Some i \<Longrightarrow> ends_with n ''.job''"
  by (auto simp: parse_spool_filename_def strip_suffix_def split: option.splits if_splits)

section \<open>Signatures\<close>

definition verify_signature :: "crates \<Rightarrow> string \<Rightarrow> bytes \<Rightarrow> bytes \<Rightarrow> bool" where
  "verify_signature C sig_header body secret =
     (case strip_prefix sig_header ''sha256='' of
        None \<Rightarrow> False
      | Some hex_sig \<Rightarrow>
          (case hex_decode C hex_sig of
             None \<Rightarrow> False
           | Some expected \<Rightarrow>
               if length expected \<noteq> 32 then False
               else hmac_sha256 C secret body = expected))"

definition sign_body :: "crates \<Rightarrow> bytes \<Rightarrow> bytes \<Rightarrow> string" where
  "sign_body C secret body = ''sha256='' @ hex_encode C (hmac_sha256 C secret body)"

text \<open>Documented behaviour of the crates, at one key and message.\<close>

definition digest_encodable :: "crates \<Rightarrow> bytes \<Rightarrow> bytes \<Rightarrow> bool" where
  "digest_encodable C secret body \<longleftrightarrow>
     (let d = hmac_sha256 C secret body in
      length d = 32 \<and> hex_decode C (hex_encode C d) = Some d)"

lemma verify_sign_body:
  assumes "digest_encodable C secret body"
  shows "verify_signature C (sign_body C secret body) body secret"
  using assms
  by (simp add: verify_signature_def sign_body_def digest_encodable_def Let_def del: append.simps)

section \<open>Log sanitising\<close>

definition sanitize_for_log :: "string \<Rightarrow> string" where
  "sanitize_for_log s = concat (take 256 (filter (\<lambda>c. \<not> is_control c) (utf8_chars s)))"

section \<open>Reading an entry\<close>

text \<open>The last part of \<open>read_spool_file\<close>: bytes to envelope and raw body.\<close>

definition split_entry :: "crates \<Rightarrow> bytes \<Rightarrow> (envelope \<times> bytes) res" where
  "split_entry C bytes =
     (case split_once (CHR 0x0A) bytes of
        None \<Rightarrow> Inl (Msg ''no newline after envelope'')
      | Some (line, body) \<Rightarrow>
        if length line > MAX_ENVELOPE_BYTES then Inl (Msg ''envelope line exceeds byte cap'')
        else
     (case json_envelope C line of
        Inl e \<Rightarrow> Inl (Ctx ''parse envelope'' (Msg e))
      | Inr env \<Rightarrow> Inr (env, body)))"

definition read_spool_file :: "crates \<Rightarrow> path \<Rightarrow> fsys \<Rightarrow> (envelope \<times> bytes) res" where
  "read_spool_file C p fs =
     (case sys_open_nofollow p fs of
        Inl e \<Rightarrow> Inl (Ctx ''open'' (IoErr e))
      | Inr f \<Rightarrow>
     (case sys_fstat p f fs of
        Inl e \<Rightarrow> Inl (Ctx ''fstat'' (IoErr e))
      | Inr md \<Rightarrow>
        if ikind md \<noteq> Regular then Inl (Msg ''not a regular file'')
        else if length (idata md) > MAX_FILE_BYTES then Inl (Msg ''exceeds byte cap'')
        else
     (case sys_read p f fs of
        Inl e \<Rightarrow> Inl (Ctx ''read'' (IoErr e))
      | Inr content \<Rightarrow>
        let bytes = take (MAX_FILE_BYTES + 1) content in
        if length bytes > MAX_FILE_BYTES then Inl (Msg ''grew past byte cap during read'')
        else split_entry C bytes)))"

lemma split_entry_Inr_iff:
  "split_entry C b = Inr (env, body) \<longleftrightarrow>
   (\<exists>line. b = line @ CHR 0x0A # body \<and> CHR 0x0A \<notin> set line \<and>
           length line \<le> MAX_ENVELOPE_BYTES \<and> json_envelope C line = Inr env)"
proof (cases "split_once (CHR 0x0A) b")
  case None
  then have "CHR 0x0A \<notin> set b" by (simp add: split_once_None_iff)
  then show ?thesis using None by (auto simp: split_entry_def)
next
  case (Some q)
  then obtain line body' where q: "split_once (CHR 0x0A) b = Some (line, body')" by (cases q) auto
  then have b: "b = line @ CHR 0x0A # body'" "CHR 0x0A \<notin> set line"
    by (simp_all add: split_once_Some_iff)
  have u: "l = line \<and> bo = body'" if "b = l @ CHR 0x0A # bo" "CHR 0x0A \<notin> set l" for l bo
    using q that by (simp add: split_once_Some_iff [symmetric])
  show ?thesis
  proof
    assume "split_entry C b = Inr (env, body)"
    with q b show "\<exists>line. b = line @ CHR 0x0A # body \<and> CHR 0x0A \<notin> set line \<and>
        length line \<le> MAX_ENVELOPE_BYTES \<and> json_envelope C line = Inr env"
      by (simp add: split_entry_def split: if_splits sum.splits)
  next
    assume "\<exists>line. b = line @ CHR 0x0A # body \<and> CHR 0x0A \<notin> set line \<and>
        length line \<le> MAX_ENVELOPE_BYTES \<and> json_envelope C line = Inr env"
    with u q show "split_entry C b = Inr (env, body)" by (auto simp: split_entry_def)
  qed
qed

text \<open>What a successful read says about the file.\<close>

lemma read_spool_file_Inr_iff:
  "read_spool_file C p fs = Inr r \<longleftrightarrow>
   (\<exists>i. sys_open_nofollow p fs = Inr i \<and> fault fs OpFstat p = None \<and> ikind i = Regular \<and>
        length (idata i) \<le> MAX_FILE_BYTES \<and> fault fs OpRead p = None \<and>
        split_entry C (idata i) = Inr r)"
proof (cases "sys_open_nofollow p fs")
  case (Inr i)
  then show ?thesis
    by (cases "length (idata i) \<le> MAX_FILE_BYTES")
       (auto simp: read_spool_file_def sys_fstat_def sys_read_def split: option.splits if_splits)
qed (simp add: read_spool_file_def)

lemma open_nofollow_Inr:
  "sys_open_nofollow p fs = Inr i \<Longrightarrow> get fs p = Some i"
  by (auto simp: sys_open_nofollow_def split: option.splits fkind.splits)

lemma read_spool_file_InrD:
  assumes "read_spool_file C p fs = Inr (env, body)"
  shows "\<exists>i line. get fs p = Some i \<and> ikind i = Regular \<and> idata i = line @ CHR 0x0A # body \<and>
    CHR 0x0A \<notin> set line \<and> length line \<le> MAX_ENVELOPE_BYTES \<and>
    length (idata i) \<le> MAX_FILE_BYTES \<and> json_envelope C line = Inr env"
proof -
  from assms obtain i where i: "sys_open_nofollow p fs = Inr i" "ikind i = Regular"
    "length (idata i) \<le> MAX_FILE_BYTES" "split_entry C (idata i) = Inr (env, body)"
    unfolding read_spool_file_Inr_iff by blast
  with open_nofollow_Inr [OF i(1)] show ?thesis unfolding split_entry_Inr_iff by blast
qed

text \<open>A file in the wire format reads back.\<close>

lemma read_spool_file_written:
  assumes "get fs p = Some i" and "ikind i = Regular" and "idata i = line @ CHR 0x0A # body"
    and "CHR 0x0A \<notin> set line" and "length line \<le> MAX_ENVELOPE_BYTES"
    and "length (idata i) \<le> MAX_FILE_BYTES" and "json_envelope C line = Inr env"
    and "fault fs OpOpen p = None" and "fault fs OpFstat p = None" and "fault fs OpRead p = None"
  shows "read_spool_file C p fs = Inr (env, body)"
proof -
  from assms have "sys_open_nofollow p fs = Inr i" by (simp add: sys_open_nofollow_def)
  moreover from assms have "split_entry C (idata i) = Inr (env, body)"
    unfolding split_entry_Inr_iff by blast
  ultimately show ?thesis using assms unfolding read_spool_file_Inr_iff by blast
qed

section \<open>Listing \<open>new/\<close>\<close>

text \<open>
  \<open>enumerate_new\<close> sends the names down a channel; \<open>room\<close> is how many sends the
  receiver still takes before it is closed (\<open>None\<close>: it stays open).  The result is what was
  sent and the error that ended the scan, if one did.
\<close>

definition sendable :: "path \<Rightarrow> fsys \<Rightarrow> string \<Rightarrow> bool" where
  "sendable d fs s =
     (if \<not> valid_utf8 s then False
      else if \<not> ends_with s ''.job'' then False
      else (case fault fs OpEntryType (join d s) of
              Some _ \<Rightarrow> False
            | None \<Rightarrow> map_option ikind (get fs (join d s)) = Some Regular))"

fun send_entries :: "path \<Rightarrow> fsys \<Rightarrow> nat option \<Rightarrow> string list \<Rightarrow> string list \<times> bool" where
  "send_entries d fs room [] = ([], True)"
| "send_entries d fs room (s # ns) =
     (if \<not> sendable d fs s then send_entries d fs room ns
      else if room = Some 0 then ([], False)
      else (let r = send_entries d fs (map_option (\<lambda>k. k - 1) room) ns
            in (s # fst r, snd r)))"

definition enumerate_new :: "path \<Rightarrow> nat option \<Rightarrow> fsys \<Rightarrow> string list \<times> unit res" where
  "enumerate_new d room fs =
     (case sys_read_dir d fs of
        Inl e \<Rightarrow> ([], Inl (IoErr e))
      | Inr (ns, tail) \<Rightarrow>
          (case send_entries d fs room ns of
             (out, False) \<Rightarrow> (out, Inr ())
           | (out, True) \<Rightarrow>
               (out, (case tail of None \<Rightarrow> Inr () | Some e \<Rightarrow> Inl (IoErr e)))))"

lemma send_entries_open:
  "send_entries d fs None ns = (filter (sendable d fs) ns, True)"
  by (induction ns) (simp_all add: Let_def)

lemma send_entries_closing:
  "fst (send_entries d fs (Some k) ns) = take k (filter (sendable d fs) ns)"
  by (induction ns arbitrary: k) (auto simp: Let_def take_Cons')

lemma sendable_iff:
  "sendable d fs n \<longleftrightarrow> valid_utf8 n \<and> ends_with n ''.job'' \<and> fault fs OpEntryType (join d n) = None
     \<and> map_option ikind (get fs (join d n)) = Some Regular"
  by (simp add: sendable_def split: option.split)

end
