(* ===== verification/Spool_Ops.thy ===== *)
theory Spool_Ops
  imports Spool
begin

text \<open>
  The state-changing operations of the spool (\<open>spool.rs\<close>): claiming an entry of
  \<open>new/\<close>, archiving a claim into \<open>done/\<close> or \<open>error/\<close>, and the reconciler's
  synthetic claim.  Log lines are left out; everything else is every branch of the source.
\<close>

section \<open>Renames and time stamps\<close>

text \<open>\<open>CString::new\<close> refuses a path with an interior NUL.\<close>

definition has_nul :: "path \<Rightarrow> bool" where
  "has_nul p \<longleftrightarrow> list_ex (\<lambda>n. CHR 0x00 \<in> set n) p"

definition rename_no_clobber :: "path \<Rightarrow> path \<Rightarrow> fsys \<Rightarrow> unit io" where
  "rename_no_clobber from to fs =
     (if has_nul from then (Inl (OtherIo 22), fs)
      else if has_nul to then (Inl (OtherIo 22), fs)
      else sys_rename_excl from to fs)"

definition stamp_mtime_now :: "path \<Rightarrow> fsys \<Rightarrow> fsys" where
  "stamp_mtime_now p fs =
     (case sys_open_nofollow p fs of
        Inl NotFound \<Rightarrow> fs
      | Inl _ \<Rightarrow> fs
      | Inr file \<Rightarrow>
          (case sys_fstat p file fs of
             Inl _ \<Rightarrow> fs
           | Inr md \<Rightarrow>
               if ikind md \<noteq> Regular then fs
               else snd (sys_set_mtime p (clock fs) fs)))"

lemma get_stamp_other: "q \<noteq> p \<Longrightarrow> get (stamp_mtime_now p fs) q = get fs q"
  by (auto simp: stamp_mtime_now_def get_set_mtime_other split: sum.split io_kind.split)

lemma get_stamp_same:
  "get (stamp_mtime_now p fs) p = get fs p \<or>
   get (stamp_mtime_now p fs) p = map_option (\<lambda>i. i\<lparr>imtime := clock fs\<rparr>) (get fs p)"
  by (auto simp: stamp_mtime_now_def sys_set_mtime_def split: sum.split io_kind.split option.split)

lemma get_stamp_None [simp]: "get (stamp_mtime_now p fs) q = None \<longleftrightarrow> get fs q = None"
  using get_stamp_other [of q p fs] get_stamp_same [of p fs] by (cases "q = p") auto

lemma present_stamp [simp]: "present (stamp_mtime_now p fs) q = present fs q"
  by (simp add: present_def)

lemma stamp_fields [simp]:
  "fault (stamp_mtime_now p fs) = fault fs" "clock (stamp_mtime_now p fs) = clock fs"
  by (simp_all add: stamp_mtime_now_def split: sum.split io_kind.split)

text \<open>A stamp changes nothing but the time of a file.\<close>

lemma get_stamp_SomeD:
  assumes "get (stamp_mtime_now p fs) q = Some j"
  obtains i where "get fs q = Some i" "ikind j = ikind i" "idata j = idata i"
    "imode j = imode i" "iuid j = iuid i" "imtime j = imtime i \<or> imtime j = clock fs"
proof (cases "q = p")
  case True
  with assms have "get fs p \<noteq> None" by (metis get_stamp_None option.distinct(1))
  then obtain i where "get fs p = Some i" by blast
  with assms True get_stamp_same [of p fs] that show ?thesis by auto
next
  case False
  with assms that show ?thesis by (simp add: get_stamp_other)
qed

lemma stamp_regular:
  assumes "get fs p = Some i" and "ikind i = Regular"
    and "fault fs OpOpen p = None" "fault fs OpFstat p = None" "fault fs OpUtime p = None"
  shows "get (stamp_mtime_now p fs) p = Some (i\<lparr>imtime := clock fs\<rparr>)"
  using assms
  by (simp add: stamp_mtime_now_def sys_open_nofollow_def sys_fstat_def sys_set_mtime_def)

lemma rename_no_clobber_ok:
  assumes "rename_no_clobber a b fs = (Inr u, fs')"
  obtains i where "get fs a = Some i" "get fs b = None" "fs' = put b i (del a fs)"
  using assms
  by (auto simp: rename_no_clobber_def split: if_splits elim!: rename_excl_cases)

lemma rename_no_clobber_err:
  "rename_no_clobber a b fs = (Inl e, fs') \<Longrightarrow> fs' = fs"
  by (auto simp: rename_no_clobber_def split: if_splits elim!: rename_excl_cases)

lemma rename_no_clobber_exists:
  assumes "rename_no_clobber a b fs = (Inl AlreadyExists, fs')" and "fault fs OpRename a = None"
  shows "get fs a \<noteq> None \<and> get fs b \<noteq> None"
  using assms
  by (auto simp: rename_no_clobber_def sys_rename_excl_def split: if_splits option.splits)

lemma rename_no_clobber_works:
  assumes "\<not> has_nul a" "\<not> has_nul b" "fault fs OpRename a = None" "get fs a = Some i"
    and "get fs b = None"
  shows "rename_no_clobber a b fs = (Inr (), put b i (del a fs))"
  using assms by (simp add: rename_no_clobber_def sys_rename_excl_def)

lemma rename_no_clobber_fault [simp]:
  "fault (snd (rename_no_clobber a b fs)) = fault fs"
  by (simp add: rename_no_clobber_def)

lemma rename_no_clobber_clock [simp]:
  "clock (snd (rename_no_clobber a b fs)) = clock fs"
  by (simp add: rename_no_clobber_def)

section \<open>Claiming\<close>

definition is_archived :: "spool \<Rightarrow> string \<Rightarrow> fsys \<Rightarrow> bool" where
  "is_archived s name fs \<longleftrightarrow>
     try_exists_or_false (join (done_dir s) name) fs
     \<or> try_exists_or_false (join (error_dir s) name) fs"

text \<open>
  \<open>between_checks\<close> is the seam of the source: whatever other tasks do between the first
  archive check and the rename.
\<close>

definition try_claim_inner ::
    "spool \<Rightarrow> string \<Rightarrow> (fsys \<Rightarrow> fsys) \<Rightarrow> fsys \<Rightarrow> path option res \<times> fsys" where
  "try_claim_inner s name between_checks fs =
     (let from = join (new_dir s) name in
      if is_archived s name fs then (Inr None, snd (sys_unlink from fs))
      else
        (let to = join (cur_dir s) name;
             fs1 = stamp_mtime_now from (between_checks fs)
         in case rename_no_clobber from to fs1 of
              (Inr _, fs2) \<Rightarrow>
                if is_archived s name fs2 then (Inr None, snd (sys_unlink to fs2))
                else (Inr (Some to), fs2)
            | (Inl NotFound, fs2) \<Rightarrow> (Inr None, fs2)
            | (Inl AlreadyExists, fs2) \<Rightarrow> (Inr None, snd (sys_unlink from fs2))
            | (Inl e, fs2) \<Rightarrow> (Inl (Ctx (''claim '' @ name) (IoErr e)), fs2)))"

definition try_claim :: "spool \<Rightarrow> string \<Rightarrow> fsys \<Rightarrow> path option res \<times> fsys" where
  "try_claim s name fs = try_claim_inner s name (\<lambda>fs. fs) fs"

section \<open>Archiving\<close>

text \<open>The name of a preserved marker: \<open><dest>.<unix_millis>.bak\<close>.\<close>

definition unix_millis :: "systime \<Rightarrow> nat" where
  "unix_millis t = (if t < 0 then 0 else as_millis (nat t))"

definition bak_path :: "path \<Rightarrow> systime \<Rightarrow> path" where
  "bak_path dest t = join (butlast dest) (last dest @ ''.'' @ dec (unix_millis t) @ ''.bak'')"

definition preserve_existing :: "path \<Rightarrow> fsys \<Rightarrow> path option \<times> fsys" where
  "preserve_existing dest fs =
     (if \<not> try_exists_or_false dest fs then (None, fs)
      else
        (let bak = bak_path dest (clock fs)
         in case sys_rename dest bak fs of
              (Inr _, fs1) \<Rightarrow> (Some bak, fs1)
            | (Inl _, fs1) \<Rightarrow> (None, fs1)))"

lemma preserve_existing_fields [simp]:
  "fault (snd (preserve_existing d fs)) = fault fs"
  "clock (snd (preserve_existing d fs)) = clock fs"
  by (simp_all add: preserve_existing_def Let_def case_prod_beta split: sum.split)

text \<open>
  \<open>archive\<close> with what other tasks do (\<open>env\<close>) while it waits for
  \<open>preserve_existing\<close>; the program's own call is \<open>archive\<close>.
\<close>

definition archive_inner :: "(fsys \<Rightarrow> fsys) \<Rightarrow> path \<Rightarrow> path \<Rightarrow> fsys \<Rightarrow> bool res \<times> fsys" where
  "archive_inner env cur_path dest fs =
     (case rename_no_clobber cur_path dest fs of
        (Inr _, fs1) \<Rightarrow> (Inr True, fs1)
      | (Inl NotFound, fs1) \<Rightarrow> (Inr False, fs1)
      | (Inl AlreadyExists, fs1) \<Rightarrow>
          (case preserve_existing dest fs1 of
             (None, fs2) \<Rightarrow>
               (case sys_rename cur_path dest (env fs2) of
                  (Inl e, fs3) \<Rightarrow> (Inl (IoErr e), fs3)
                | (Inr _, fs3) \<Rightarrow> (Inr True, fs3))
           | (Some bak, fs2) \<Rightarrow>
               (case sys_rename cur_path dest (env fs2) of
                  (Inr _, fs3) \<Rightarrow> (Inr True, fs3)
                | (Inl e, fs3) \<Rightarrow>
                    (Inl (Ctx ''install archive'' (IoErr e)), snd (sys_rename bak dest fs3))))
      | (Inl e, fs1) \<Rightarrow> (Inl (Ctx ''archive'' (IoErr e)), fs1))"

definition archive :: "path \<Rightarrow> path \<Rightarrow> fsys \<Rightarrow> bool res \<times> fsys" where
  "archive cur_path dest fs = archive_inner (\<lambda>fs. fs) cur_path dest fs"

definition finalize_done :: "spool \<Rightarrow> path \<Rightarrow> fsys \<Rightarrow> unit res \<times> fsys" where
  "finalize_done s cur_path fs =
     (case file_name cur_path of
        None \<Rightarrow> (Inl (Msg ''cur path has no filename''), fs)
      | Some name \<Rightarrow>
          (let dest = join (done_dir s) name
           in case archive cur_path dest fs of
                (Inl e, fs1) \<Rightarrow> (Inl (Ctx ''move to done/'' e), fs1)
              | (Inr True, fs1) \<Rightarrow> (Inr (), stamp_mtime_now dest fs1)
              | (Inr False, fs1) \<Rightarrow> (Inr (), fs1)))"

definition finalize_error :: "spool \<Rightarrow> path \<Rightarrow> string \<Rightarrow> fsys \<Rightarrow> unit res \<times> fsys" where
  "finalize_error s cur_path reason fs =
     (case file_name cur_path of
        None \<Rightarrow> (Inl (Msg ''cur path has no filename''), fs)
      | Some name \<Rightarrow>
          (let err_path = join (error_dir s) (name @ ''.err'');
               fs0 = snd (sys_write_file err_path reason fs);
               dest = join (error_dir s) name
           in case archive cur_path dest fs0 of
                (Inl e, fs1) \<Rightarrow> (Inl (Ctx ''move to error/'' e), fs1)
              | (Inr True, fs1) \<Rightarrow> (Inr (), stamp_mtime_now dest fs1)
              | (Inr False, fs1) \<Rightarrow> (Inr (), fs1)))"

section \<open>Synthetic claims\<close>

definition write_private_file :: "path \<Rightarrow> bytes \<Rightarrow> fsys \<Rightarrow> unit res \<times> fsys" where
  "write_private_file p contents fs =
     (case sys_create_new p 0x180 fs of
        (Inl e, fs1) \<Rightarrow> (Inl (IoErr e), fs1)
      | (Inr _, fs1) \<Rightarrow>
          (case sys_write_all p contents fs1 of
             (Inl e, fs2) \<Rightarrow> (Inl (IoErr e), fs2)
           | (Inr _, fs2) \<Rightarrow> (Inr (), fs2)))"

definition synthetic_body :: "job_status \<Rightarrow> string \<Rightarrow> json" where
  "synthetic_body job fname =
     JObj [(''action'', JStr ''queued''),
           (''workflow_job'',
              JObj [(''id'', JNum (unat (js_id job))),
                    (''run_id'', JNum (unat (js_run_id job))),
                    (''run_attempt'', JNum (unat (js_run_attempt job))),
                    (''name'', JStr (js_name job)),
                    (''labels'', JArr (map JStr (js_labels job)))]),
           (''repository'',
              JObj [(''id'', JNum (unat (js_repo_id job))), (''full_name'', JStr fname)])]"

definition synthetic_envelope :: "job_status \<Rightarrow> string \<Rightarrow> string \<Rightarrow> json" where
  "synthetic_envelope job fname sig =
     JObj [(''schema'', JNum 2),
           (''event'', JStr ''workflow_job''),
           (''delivery'', JStr (''reconciler:'' @ dec_u64 (js_id job))),
           (''repo_id'', JNum (unat (js_repo_id job))),
           (''repo'', JStr fname),
           (''action'', JStr ''queued''),
           (''workflow_job_id'', JNum (unat (js_id job))),
           (''received_at_ms'', JNum 0),
           (''signature'', JStr sig)]"

definition synthetic_bytes :: "crates \<Rightarrow> job_status \<Rightarrow> string \<Rightarrow> bytes \<Rightarrow> bytes res" where
  "synthetic_bytes C job fname secret =
     (case json_vec C (synthetic_body job fname) of
        Inl e \<Rightarrow> Inl (Ctx ''serialize synthetic body'' (Msg e))
      | Inr body \<Rightarrow>
          (case json_vec C (synthetic_envelope job fname (sign_body C secret body)) of
             Inl e \<Rightarrow> Inl (Ctx ''serialize synthetic envelope'' (Msg e))
           | Inr env \<Rightarrow> Inr (env @ [CHR 0x0A] @ body)))"

definition unix_nanos :: "systime \<Rightarrow> nat" where
  "unix_nanos t = (if t < 0 then 0 else nat t)"

definition tmp_claim_name :: "job_status \<Rightarrow> u32 \<Rightarrow> systime \<Rightarrow> string" where
  "tmp_claim_name job pid t =
     ''.tmp-reconcile-'' @ dec_u64 (js_id job) @ ''-'' @ dec (unat pid) @ ''-'' @ dec (unix_nanos t)"

text \<open>\<open>pid\<close> is \<open>std::process::id()\<close>.\<close>

definition write_synthetic_claim ::
    "crates \<Rightarrow> u32 \<Rightarrow> spool \<Rightarrow> job_status \<Rightarrow> string \<Rightarrow> bytes \<Rightarrow> fsys \<Rightarrow> path option res \<times> fsys"
where
  "write_synthetic_claim C pid s job fname secret fs =
     (let name = canonical_name (js_id job); dst = join (cur_dir s) name in
      if try_exists_or_false dst fs then (Inr None, fs)
      else
     (case synthetic_bytes C job fname secret of
        Inl e \<Rightarrow> (Inl e, fs)
      | Inr bytes \<Rightarrow>
          (let tmp = join (cur_dir s) (tmp_claim_name job pid (clock fs))
           in case write_private_file tmp bytes fs of
                (Inl e, fs1) \<Rightarrow> (Inl (Ctx (''write synthetic claim '' @ name) e), fs1)
              | (Inr _, fs1) \<Rightarrow>
                  (case rename_no_clobber tmp dst fs1 of
                     (Inr _, fs2) \<Rightarrow> (Inr (Some dst), stamp_mtime_now dst fs2)
                   | (Inl AlreadyExists, fs2) \<Rightarrow> (Inr None, snd (sys_unlink tmp fs2))
                   | (Inl e, fs2) \<Rightarrow>
                       (Inl (Ctx (''synthetic claim rename '' @ name) (IoErr e)),
                        snd (sys_unlink tmp fs2))))))"

end
