(* ===== verification/Spool_Claims.thy ===== *)
theory Spool_Claims
  imports Spool_Ops
begin

text \<open>
  What the spool operations promise: what a claim took and from where, that a claim never
  displaces a live one or revives an archived name, that archiving never loses the marker, and
  that over any history a delivered name is claimed at most once.
\<close>

section \<open>Paths of one name\<close>

abbreviation new_path :: "spool \<Rightarrow> string \<Rightarrow> path" where
  "new_path s n \<equiv> join (new_dir s) n"

abbreviation cur_path_of :: "spool \<Rightarrow> string \<Rightarrow> path" where
  "cur_path_of s n \<equiv> join (cur_dir s) n"

abbreviation done_path :: "spool \<Rightarrow> string \<Rightarrow> path" where
  "done_path s n \<equiv> join (done_dir s) n"

abbreviation error_path :: "spool \<Rightarrow> string \<Rightarrow> path" where
  "error_path s n \<equiv> join (error_dir s) n"

definition marked :: "spool \<Rightarrow> string \<Rightarrow> fsys \<Rightarrow> bool" where
  "marked s n fs \<longleftrightarrow> present fs (done_path s n) \<or> present fs (error_path s n)"

definition spent :: "spool \<Rightarrow> fsys \<Rightarrow> string \<Rightarrow> bool" where
  "spent s fs n \<longleftrightarrow> present fs (cur_path_of s n) \<or> marked s n fs"

lemma bak_path_neq [simp]: "bak_path d t \<noteq> d"
proof
  assume "bak_path d t = d"
  then have "last (bak_path d t) = last d" by simp
  then show False by (simp add: bak_path_def)
qed

lemma neq_bak_path [simp]: "d \<noteq> bak_path d t"
  using bak_path_neq [of d t, symmetric] .

lemma bak_path_join [simp]: "bak_path (join d n) t = join d (n @ ''.'' @ dec (unix_millis t) @ ''.bak'')"
  by (simp add: bak_path_def)

lemma no_nul_canonical: "\<not> has_nul (root s) \<Longrightarrow> \<not> has_nul (new_path s (canonical_name i))"
  "\<not> has_nul (root s) \<Longrightarrow> \<not> has_nul (cur_path_of s (canonical_name i))"
  by (auto simp: has_nul_def join_def new_dir_def cur_dir_def canonical_name_def is_digit_def dest: dec_u64_digits)

lemma no_nul_tmp: "\<not> has_nul (root s) \<Longrightarrow> \<not> has_nul (cur_path_of s (tmp_claim_name job pid t))"
  by (auto simp: has_nul_def join_def cur_dir_def tmp_claim_name_def is_digit_def dest: dec_u64_digits dec_digits)

lemma tmp_name_neq [simp]: "tmp_claim_name job pid t \<noteq> canonical_name i" "canonical_name i \<noteq> tmp_claim_name job pid t"
proof -
  have "hd (canonical_name i) \<in> set (dec_u64 i)"
    by (cases "dec_u64 i") (simp_all add: canonical_name_def)
  then have "is_digit (hd (canonical_name i))" by (rule dec_u64_digits)
  moreover have "hd (tmp_claim_name job pid t) = CHR ''.''" by (simp add: tmp_claim_name_def)
  ultimately show "tmp_claim_name job pid t \<noteq> canonical_name i" "canonical_name i \<noteq> tmp_claim_name job pid t"
    by (auto simp: is_digit_def)
qed

lemma is_archived_marked: "is_archived s n fs \<Longrightarrow> marked s n fs"
  using try_exists_missing [of fs] by (auto simp: is_archived_def marked_def present_def)

text \<open>The archive check trusts \<open>stat\<close>: when that itself fails, whatever the error, an archived name
  counts as new.\<close>

lemma stat_error_forgets_archive:
  assumes "fault fs OpStat (done_path s n) \<noteq> None" and "fault fs OpStat (error_path s n) \<noteq> None"
  shows "\<not> is_archived s n fs"
  using assms by (auto simp: is_archived_def try_exists_or_false_def sys_stat_def)

section \<open>Claims\<close>

lemma try_claim_inner_SomeD:
  assumes "try_claim_inner s n between fs = (Inr (Some p), fs')"
  obtains i where
    "\<not> is_archived s n fs" "\<not> is_archived s n fs'" "p = cur_path_of s n"
    "get (stamp_mtime_now (new_path s n) (between fs)) (new_path s n) = Some i"
    "get (between fs) (cur_path_of s n) = None"
    "fs' = put (cur_path_of s n) i
             (del (new_path s n) (stamp_mtime_now (new_path s n) (between fs)))"
proof -
  let ?f = "stamp_mtime_now (new_path s n) (between fs)"
  have a: "\<not> is_archived s n fs"
    using assms by (auto simp: try_claim_inner_def Let_def)
  obtain r fs2 where r: "rename_no_clobber (new_path s n) (cur_path_of s n) ?f = (r, fs2)"
    by fastforce
  have ok: "r = Inr () \<and> \<not> is_archived s n fs2 \<and> p = cur_path_of s n \<and> fs' = fs2"
    using assms a r
    by (auto simp: try_claim_inner_def Let_def split: sum.splits io_kind.splits if_splits)
  with r have "rename_no_clobber (new_path s n) (cur_path_of s n) ?f = (Inr (), fs2)" by simp
  then obtain i where i: "get ?f (new_path s n) = Some i" "get ?f (cur_path_of s n) = None"
    "fs2 = put (cur_path_of s n) i (del (new_path s n) ?f)"
    by (rule rename_no_clobber_ok)
  from i(2) have "get (between fs) (cur_path_of s n) = None" by simp
  with a ok i that show ?thesis by blast
qed

text \<open>
  A claim succeeds only on an entry that was in \<open>new/\<close>, with nothing at its name in
  \<open>cur/\<close> and no archive marker after the rename; the claimed file is the delivered one.
\<close>

lemma try_claim_inner_took:
  assumes "try_claim_inner s n between fs = (Inr (Some p), fs')"
  shows "p = cur_path_of s n \<and> \<not> is_archived s n fs' \<and> get (between fs) p = None \<and>
    get fs' (new_path s n) = None \<and>
    (\<exists>i j. get (between fs) (new_path s n) = Some i \<and> get fs' p = Some j \<and>
           idata j = idata i \<and> ikind j = ikind i \<and>
           (imtime j = imtime i \<or> imtime j = clock (between fs)))"
proof -
  from assms obtain j where j: "\<not> is_archived s n fs'" "p = cur_path_of s n"
    "get (stamp_mtime_now (new_path s n) (between fs)) (new_path s n) = Some j"
    "get (between fs) (cur_path_of s n) = None"
    "fs' = put (cur_path_of s n) j
             (del (new_path s n) (stamp_mtime_now (new_path s n) (between fs)))"
    by (rule try_claim_inner_SomeD)
  from j(3) obtain i where "get (between fs) (new_path s n) = Some i"
    "ikind j = ikind i" "idata j = idata i"
    "imtime j = imtime i \<or> imtime j = clock (between fs)"
    by (rule get_stamp_SomeD)
  with j show ?thesis by simp
qed

text \<open>A regular file on a sound file system is born in \<open>cur/\<close> with the claim time.\<close>

lemma try_claim_inner_fresh:
  assumes "try_claim_inner s n between fs = (Inr (Some p), fs')"
    and "get (between fs) (new_path s n) = Some i" and "ikind i = Regular"
    and "\<And>op. fault (between fs) op (new_path s n) = None"
  shows "get fs' p = Some (i\<lparr>imtime := clock (between fs)\<rparr>)"
proof -
  from assms(1) obtain j where j: "p = cur_path_of s n"
    "get (stamp_mtime_now (new_path s n) (between fs)) (new_path s n) = Some j"
    "fs' = put (cur_path_of s n) j
             (del (new_path s n) (stamp_mtime_now (new_path s n) (between fs)))"
    by (rule try_claim_inner_SomeD)
  from stamp_regular [OF assms(2,3) assms(4) assms(4) assms(4)] j(2)
  have "j = i\<lparr>imtime := clock (between fs)\<rparr>" by simp
  with j show ?thesis by simp
qed

text \<open>
  A live claim is never displaced: with \<open>cur/<name>\<close> taken the attempt returns no claim
  and leaves the entry untouched.
\<close>

lemma try_claim_inner_live:
  assumes "get (between fs) (cur_path_of s n) = Some c" and "get fs (cur_path_of s n) = Some c"
  shows "get (snd (try_claim_inner s n between fs)) (cur_path_of s n) = Some c
       \<and> (\<forall>p. fst (try_claim_inner s n between fs) \<noteq> Inr (Some p))"
proof (cases "is_archived s n fs")
  case True
  then show ?thesis using assms by (simp add: try_claim_inner_def Let_def get_unlink_other)
next
  case False
  let ?f = "stamp_mtime_now (new_path s n) (between fs)"
  have c: "get ?f (cur_path_of s n) = Some c" using assms(1) by (simp add: get_stamp_other)
  obtain q fs2 where q: "rename_no_clobber (new_path s n) (cur_path_of s n) ?f = (q, fs2)"
    by fastforce
  obtain e where e: "q = Inl e"
  proof (cases q)
    case (Inr u)
    with q have "rename_no_clobber (new_path s n) (cur_path_of s n) ?f = (Inr u, fs2)" by simp
    then have "get ?f (cur_path_of s n) = None" by (rule rename_no_clobber_ok)
    with c show ?thesis by simp
  qed (use that in blast)
  with q have "fs2 = ?f" by (simp add: rename_no_clobber_err)
  with False q e c show ?thesis
    by (simp add: try_claim_inner_def Let_def get_unlink_other split: io_kind.split)
qed

text \<open>
  A marker present before the attempt, or appearing while it runs, keeps the name unclaimed.
  The stat calls must not fail: the source reads a failing one as ``not archived''.
\<close>

lemma is_archived_regular:
  assumes "get fs p = Some i" and "ikind i = Regular" and "fault fs OpStat p = None"
    and "p = done_path s n \<or> p = error_path s n"
  shows "is_archived s n fs"
  using assms try_exists_regular [of fs p i] by (auto simp: is_archived_def)

lemma try_claim_inner_replay:
  assumes "get (between fs) p = Some i" and "ikind i = Regular"
    and "fault (between fs) OpStat p = None" and "p = done_path s n \<or> p = error_path s n"
  shows "fst (try_claim_inner s n between fs) \<noteq> Inr (Some q)"
proof
  assume c: "fst (try_claim_inner s n between fs) = Inr (Some q)"
  define fs' where "fs' = snd (try_claim_inner s n between fs)"
  from c have eq: "try_claim_inner s n between fs = (Inr (Some q), fs')"
    by (simp add: fs'_def prod_eq_iff)
  then obtain j where j: "\<not> is_archived s n fs'"
    "fs' = put (cur_path_of s n) j
             (del (new_path s n) (stamp_mtime_now (new_path s n) (between fs)))"
    by (rule try_claim_inner_SomeD)
  from assms(4) have "p \<noteq> cur_path_of s n" "p \<noteq> new_path s n" by auto
  then have "get fs' p = Some i" "fault fs' OpStat p = None"
    using j(2) assms(1,3) by (simp_all add: get_stamp_other)
  with assms(2,4) have "is_archived s n fs'" by (intro is_archived_regular)
  with j(1) show False by contradiction
qed

section \<open>Archiving\<close>

text \<open>
  The marker at \<open>dest\<close> is never lost, whatever other tasks do at the await point, as long
  as they keep the marker and its preserved copy where they are and the restoring rename works.
\<close>

lemma archive_inner_keeps_marker:
  assumes "present fs dest"
    and "\<And>f. present f dest \<Longrightarrow> present (env f) dest"
    and "\<And>f. present f (bak_path dest (clock fs)) \<Longrightarrow> present (env f) (bak_path dest (clock fs))"
    and "\<And>f. fault (env f) = fault f"
    and "fault fs OpRename (bak_path dest (clock fs)) = None"
  shows "present (snd (archive_inner env cur dest fs)) dest"
proof -
  let ?bak = "bak_path dest (clock fs)"
  obtain r fs1 where r: "rename_no_clobber cur dest fs = (r, fs1)" by fastforce
  show ?thesis
  proof (cases r)
    case (Inr u)
    with r obtain i where "fs1 = put dest i (del cur fs)" by (auto elim: rename_no_clobber_ok)
    with r Inr show ?thesis by (simp add: archive_inner_def present_def)
  next
    case (Inl e)
    with r have fs1: "fs1 = fs" by (simp add: rename_no_clobber_err)
    have inst: "present (snd (sys_rename cur dest f)) dest" if "present f dest" for f
      using that by (auto simp: sys_rename_def present_def split: option.split)
    have inst': "present (snd (sys_rename cur dest f)) dest"
      if "fst (sys_rename cur dest f) = Inr ()" for f
      using that by (auto simp: sys_rename_def present_def split: option.splits)
    have restore: "present (snd (sys_rename ?bak dest f)) dest"
      if "present f ?bak" "fault f OpRename ?bak = None" for f
      using that by (auto simp: sys_rename_def present_def split: option.split)
    show ?thesis
    proof (cases "e = AlreadyExists")
      case False
      with r Inl fs1 assms(1) show ?thesis
        by (cases e) (simp_all add: archive_inner_def)
    next
      case True
      obtain b fs2 where p: "preserve_existing dest fs = (b, fs2)" by fastforce
      show ?thesis
      proof (cases b)
        case None
        then have "fs2 = fs" using p
          by (auto simp: preserve_existing_def Let_def split: if_splits sum.splits prod.splits
              elim!: rename_cases)
        then have "present (snd (sys_rename cur dest (env fs2))) dest"
          using assms(1,2) inst by simp
        with r Inl True fs1 p None show ?thesis
          by (auto simp: archive_inner_def split: prod.split sum.split)
      next
        case (Some bak)
        with p have b: "bak = ?bak" "sys_rename dest ?bak fs = (Inr (), fs2)"
          by (auto simp: preserve_existing_def Let_def split: if_splits sum.splits prod.splits)
        then have "present fs2 ?bak" "fault fs2 = fault fs"
          using sys_fields(2) [of dest ?bak fs]
          by (auto simp: sys_rename_def present_def split: option.splits if_splits)
        then have f: "present (env fs2) ?bak" "fault (env fs2) OpRename ?bak = None"
          using assms(3,4,5) by simp_all
        obtain q fs3 where q: "sys_rename cur dest (env fs2) = (q, fs3)" by fastforce
        have "q = Inr () \<and> present fs3 dest \<or> (\<exists>e. q = Inl e) \<and> fs3 = env fs2"
          using q inst' [of "env fs2"] by (auto elim!: rename_cases)
        with r Inl True fs1 p Some b(1) q restore [OF f] show ?thesis
          by (auto simp: archive_inner_def)
      qed
    qed
  qed
qed

text \<open>With nothing else running, an installed claim moves as it is and the old marker is kept.\<close>

lemma archive_installed:
  assumes "archive cur dest fs = (Inr True, fs')" and "cur \<noteq> dest"
    and "cur \<noteq> bak_path dest (clock fs)"
  obtains i where "get fs cur = Some i" "get fs' dest = Some i" "get fs' cur = None"
proof -
  obtain r fs1 where r: "rename_no_clobber cur dest fs = (r, fs1)" by fastforce
  show ?thesis
  proof (cases r)
    case (Inr u)
    with r obtain i where i: "get fs cur = Some i" "fs1 = put dest i (del cur fs)"
      by (auto elim: rename_no_clobber_ok)
    moreover have "fs' = fs1" using assms(1) r Inr by (simp add: archive_def archive_inner_def)
    ultimately show ?thesis using assms(2) that by simp
  next
    case (Inl e)
    with r have fs1: "fs1 = fs" by (simp add: rename_no_clobber_err)
    have e: "e = AlreadyExists"
      using assms(1) r Inl by (auto simp: archive_def archive_inner_def split: io_kind.splits)
    obtain b fs2 where p: "preserve_existing dest fs = (b, fs2)" by fastforce
    have ren: "sys_rename cur dest fs2 = (Inr (), fs')"
      using assms(1) r Inl e fs1 p
      by (auto simp: archive_def archive_inner_def split: option.splits prod.splits sum.splits)
    then obtain i where i: "get fs2 cur = Some i" "fs' = put dest i (del cur fs2)"
      using assms(2) by (auto elim!: rename_cases)
    have "fs2 = fs \<or> (\<exists>j. fs2 = put (bak_path dest (clock fs)) j (del dest fs))"
      using p by (auto simp: preserve_existing_def Let_def split: if_splits sum.splits prod.splits
          elim!: rename_cases)
    with i(1) assms(2,3) have "get fs cur = Some i" by (auto split: if_splits)
    with i assms(2) that show ?thesis by simp
  qed
qed

text \<open>A source that is gone leaves the whole file system as it was.\<close>

lemma archive_source_gone:
  assumes "get fs cur = None" and "fault fs OpRename cur = None" and "\<not> has_nul cur" "\<not> has_nul dest"
  shows "archive cur dest fs = (Inr False, fs)"
  using assms by (simp add: archive_def archive_inner_def rename_no_clobber_def sys_rename_excl_def)

text \<open>On a sound file system a claim is always archived.\<close>

lemma archive_works:
  assumes "get fs cur = Some i" and "\<And>p. fault fs OpRename p = None" and "\<not> has_nul cur" "\<not> has_nul dest"
    and "cur \<noteq> dest" and "cur \<noteq> bak_path dest (clock fs)"
  shows "\<exists>fs'. archive cur dest fs = (Inr True, fs') \<and> get fs' dest = Some i \<and> get fs' cur = None"
proof (cases "get fs dest")
  case None
  with assms show ?thesis
    by (simp add: archive_def archive_inner_def rename_no_clobber_works)
next
  case (Some j)
  then have ren: "rename_no_clobber cur dest fs = (Inl AlreadyExists, fs)"
    using assms by (simp add: rename_no_clobber_def sys_rename_excl_def)
  have "preserve_existing dest fs
      = (if try_exists_or_false dest fs
         then (Some (bak_path dest (clock fs)), put (bak_path dest (clock fs)) j (del dest fs))
         else (None, fs))"
    using Some assms(2) by (simp add: preserve_existing_def sys_rename_def Let_def)
  with ren assms show ?thesis
    by (simp add: archive_def archive_inner_def sys_rename_def)
qed

end
