(* ===== verification/Step_System.thy ===== *)
theory Step_System
  imports Main
begin

text \<open>
  State machines as the daemon's tasks form them: where a run starts, which steps it may take, and what
  holds of every state it gets to.  The contract of an invariant is the locale; the supervisor's
  semaphore, its claims and its timing are interpretations.
\<close>

definition gets_to :: "('s \<Rightarrow> bool) \<Rightarrow> ('s \<Rightarrow> 's \<Rightarrow> bool) \<Rightarrow> 's \<Rightarrow> bool" where
  "gets_to start step s \<longleftrightarrow> (\<exists>s0. start s0 \<and> step\<^sup>*\<^sup>* s0 s)"

lemma gets_to_start: "start s \<Longrightarrow> gets_to start step s"
  unfolding gets_to_def by blast

lemma gets_to_step: "gets_to start step s \<Longrightarrow> step s s' \<Longrightarrow> gets_to start step s'"
  unfolding gets_to_def by (meson rtranclp.rtrancl_into_rtrancl)

lemma gets_to_steps: "gets_to start step s \<Longrightarrow> step\<^sup>*\<^sup>* s s' \<Longrightarrow> gets_to start step s'"
  unfolding gets_to_def by (meson rtranclp_trans)

locale step_system =
  fixes start :: "'s \<Rightarrow> bool" and step :: "'s \<Rightarrow> 's \<Rightarrow> bool" and inv :: "'s \<Rightarrow> bool"
  assumes start_inv: "start s \<Longrightarrow> inv s"
    and step_inv: "inv s \<Longrightarrow> step s s' \<Longrightarrow> inv s'"
begin

lemma steps_inv: "step\<^sup>*\<^sup>* s s' \<Longrightarrow> inv s \<Longrightarrow> inv s'"
  by (induction rule: rtranclp_induct) (auto intro: step_inv)

lemma gets_to_inv: "gets_to start step s \<Longrightarrow> inv s"
  unfolding gets_to_def using start_inv steps_inv by blast

end

text \<open>
  A system whose steps, seen through \<open>abs\<close>, are steps of another one (or none at all) has its runs:
  what was shown of the other system holds of it.
\<close>

locale simulation =
  fixes start :: "'c \<Rightarrow> bool" and step :: "'c \<Rightarrow> 'c \<Rightarrow> bool" and inv :: "'c \<Rightarrow> bool"
    and abs :: "'c \<Rightarrow> 'a" and astart :: "'a \<Rightarrow> bool" and astep :: "'a \<Rightarrow> 'a \<Rightarrow> bool"
  assumes sim_start: "start c \<Longrightarrow> inv c \<and> astart (abs c)"
    and sim_step: "inv c \<Longrightarrow> gets_to astart astep (abs c) \<Longrightarrow> step c c' \<Longrightarrow> inv c' \<and> astep\<^sup>*\<^sup>* (abs c) (abs c')"
begin

lemma simulated: "gets_to start step c \<Longrightarrow> inv c \<and> gets_to astart astep (abs c)"
proof -
  assume "gets_to start step c"
  then obtain c0 where c0: "start c0" "step\<^sup>*\<^sup>* c0 c" by (auto simp: gets_to_def)
  from c0(2) show ?thesis
  proof (induction rule: rtranclp_induct)
    case base
    with sim_start [OF c0(1)] show ?case by (simp add: gets_to_start)
  next
    case (step c c')
    with sim_step show ?case by (blast intro: gets_to_steps)
  qed
qed

end

end
