(* ===== verification/Claim_Interface.thy ===== *)
theory Claim_Interface
  imports Step_System
begin

text \<open>
  The contract between a store of claims and those who claim from it, over any history of events.
  \<open>claims e s\<close> is the name event \<open>e\<close> claims successfully in state \<open>s\<close>.
\<close>

fun run_events :: "('e \<Rightarrow> 's \<Rightarrow> 's) \<Rightarrow> 'e list \<Rightarrow> 's \<Rightarrow> 's" where
  "run_events step [] s = s"
| "run_events step (e # es) s = run_events step es (step e s)"

fun event_log :: "('e \<Rightarrow> 's \<Rightarrow> 's) \<Rightarrow> ('e \<Rightarrow> 's \<Rightarrow> 'n option) \<Rightarrow> 'e list \<Rightarrow> 's \<Rightarrow> 'n list" where
  "event_log step obs [] s = []"
| "event_log step obs (e # es) s =
     (case obs e s of None \<Rightarrow> [] | Some n \<Rightarrow> [n]) @ event_log step obs es (step e s)"

text \<open>A store of claims, whatever it promises, is a step system whose steps are its events.\<close>

locale event_store =
  fixes inv :: "'s \<Rightarrow> bool"
    and step :: "'e \<Rightarrow> 's \<Rightarrow> 's"
    and claims :: "'e \<Rightarrow> 's \<Rightarrow> 'n option"
  assumes step_inv: "inv s \<Longrightarrow> inv (step e s)"

sublocale event_store \<subseteq> events: step_system inv "\<lambda>s s'. \<exists>e. s' = step e s" inv
  by unfold_locales (auto intro: step_inv)

context event_store
begin

lemma run_events_steps: "(\<lambda>s s'. \<exists>e. s' = step e s)\<^sup>*\<^sup>* s (run_events step es s)"
  by (induction es arbitrary: s) (auto intro: converse_rtranclp_into_rtranclp)

lemma run_events_inv: "inv s \<Longrightarrow> inv (run_events step es s)"
  using events.steps_inv [OF run_events_steps] .

end

text \<open>
  An exclusive store: a claim takes a name that is not live and makes it live; a live name stays
  live until it is released.
\<close>

locale exclusive_store = event_store inv step claims
  for inv :: "'s \<Rightarrow> bool" and step :: "'e \<Rightarrow> 's \<Rightarrow> 's" and claims :: "'e \<Rightarrow> 's \<Rightarrow> 'n option" +
  fixes releases :: "'e \<Rightarrow> 's \<Rightarrow> 'n option"
    and live :: "'s \<Rightarrow> 'n \<Rightarrow> bool"
  assumes claim_free: "inv s \<Longrightarrow> claims e s = Some n \<Longrightarrow> \<not> live s n"
    and claim_live: "inv s \<Longrightarrow> claims e s = Some n \<Longrightarrow> live (step e s) n"
    and live_until: "inv s \<Longrightarrow> live s n \<Longrightarrow> releases e s \<noteq> Some n \<Longrightarrow> live (step e s) n"
    and release_live: "inv s \<Longrightarrow> releases e s = Some n \<Longrightarrow> live s n"
begin

lemma claim_count_le:
  "inv s \<Longrightarrow>
   count_list (event_log step claims es s) n + (if live s n then 1 else 0)
     \<le> Suc (count_list (event_log step releases es s) n)"
proof (induction es arbitrary: s)
  case (Cons e es)
  have IH: "count_list (event_log step claims es (step e s)) n + (if live (step e s) n then 1 else 0)
      \<le> Suc (count_list (event_log step releases es (step e s)) n)"
    using Cons step_inv by blast
  show ?case
  proof (cases "claims e s = Some n")
    case True
    then have "\<not> live s n" "live (step e s) n" using Cons.prems claim_free claim_live by blast+
    with True IH show ?thesis by (cases "releases e s") auto
  next
    case False
    then have c: "count_list (event_log step claims (e # es) s) n
        = count_list (event_log step claims es (step e s)) n"
      by (cases "claims e s") auto
    show ?thesis
    proof (cases "releases e s = Some n")
      case True
      then show ?thesis using IH c by (auto split: if_splits)
    next
      case rel: False
      then have "live s n \<Longrightarrow> live (step e s) n" using Cons.prems live_until by blast
      then show ?thesis using IH c rel by (cases "releases e s") (auto split: if_splits)
    qed
  qed
qed simp

end

text \<open>
  A store that also remembers spent names: what was once live or archived is never claimed
  again.
\<close>

locale replay_store = event_store inv step claims
  for inv :: "'s \<Rightarrow> bool" and step :: "'e \<Rightarrow> 's \<Rightarrow> 's" and claims :: "'e \<Rightarrow> 's \<Rightarrow> 'n option" +
  fixes spent :: "'s \<Rightarrow> 'n \<Rightarrow> bool"
  assumes spent_step: "inv s \<Longrightarrow> spent s n \<Longrightarrow> spent (step e s) n"
    and claim_unspent: "inv s \<Longrightarrow> claims e s = Some n \<Longrightarrow> \<not> spent s n"
    and claim_spends: "inv s \<Longrightarrow> claims e s = Some n \<Longrightarrow> spent (step e s) n"
begin

lemma spent_never_claimed:
  "inv s \<Longrightarrow> spent s n \<Longrightarrow> n \<notin> set (event_log step claims es s)"
proof (induction es arbitrary: s)
  case (Cons e es)
  then have "n \<notin> set (event_log step claims es (step e s))"
    using step_inv spent_step by blast
  then show ?case using Cons.prems claim_unspent by (cases "claims e s") auto
qed simp

lemma claimed_at_most_once:
  "inv s \<Longrightarrow> count_list (event_log step claims es s) n \<le> 1"
proof (induction es arbitrary: s)
  case (Cons e es)
  show ?case
  proof (cases "claims e s = Some n")
    case True
    then have "n \<notin> set (event_log step claims es (step e s))"
      using Cons.prems step_inv claim_spends spent_never_claimed by blast
    then have "count_list (event_log step claims es (step e s)) n = 0"
      by (simp add: count_list_0_iff)
    with True show ?thesis by simp
  next
    case False
    moreover have "count_list (event_log step claims es (step e s)) n \<le> 1"
      using Cons step_inv by blast
    ultimately show ?thesis by (cases "claims e s") auto
  qed
qed simp

end

end
