(* ===== verification/Spool_History.thy ===== *)
theory Spool_History
  imports Spool_Claims Claim_Interface
begin

text \<open>
  Histories of the spool: deliveries by the spooler, the two halves of \<open>try_claim\<close> (so that
  every interleaving of claimers is a history), the reconciler's synthetic claims, finalisations
  and the passing of time.  The stores of \<open>Claim_Interface\<close> are interpreted here.
\<close>

section \<open>The two halves of a claim\<close>

definition claim_check :: "spool \<Rightarrow> string \<Rightarrow> fsys \<Rightarrow> fsys" where
  "claim_check s n fs = (if is_archived s n fs then snd (sys_unlink (new_path s n) fs) else fs)"

definition claim_take :: "spool \<Rightarrow> string \<Rightarrow> fsys \<Rightarrow> path option res \<times> fsys" where
  "claim_take s n fs =
     (let from = new_path s n; to = cur_path_of s n; fs1 = stamp_mtime_now from fs
      in case rename_no_clobber from to fs1 of
           (Inr _, fs2) \<Rightarrow>
             if is_archived s n fs2 then (Inr None, snd (sys_unlink to fs2)) else (Inr (Some to), fs2)
         | (Inl NotFound, fs2) \<Rightarrow> (Inr None, fs2)
         | (Inl AlreadyExists, fs2) \<Rightarrow> (Inr None, snd (sys_unlink from fs2))
         | (Inl e, fs2) \<Rightarrow> (Inl (Ctx (''claim '' @ n) (IoErr e)), fs2))"

text \<open>The source's claim is the check, then the other tasks, then the take.\<close>

lemma try_claim_inner_halves:
  "try_claim_inner s n between fs =
     (if is_archived s n fs then (Inr None, claim_check s n fs)
      else claim_take s n (between (claim_check s n fs)))"
  by (simp add: try_claim_inner_def claim_take_def claim_check_def Let_def)

section \<open>Sound file systems\<close>

text \<open>No call fails for a reason of its own, and every entry is a regular file.\<close>

definition regular_only :: "fsys \<Rightarrow> bool" where
  "regular_only fs \<longleftrightarrow> (\<forall>p i. get fs p = Some i \<longrightarrow> ikind i = Regular)"

definition no_faults :: "fsys \<Rightarrow> bool" where
  "no_faults fs \<longleftrightarrow> fault fs = (\<lambda>_ _. None)"

definition healthy :: "fsys \<Rightarrow> bool" where
  "healthy fs \<longleftrightarrow> no_faults fs \<and> regular_only fs"

named_theorems regular_intros \<open>operations keep every entry a regular file\<close>

lemma regular_only_put [regular_intros]:
  "regular_only fs \<Longrightarrow> ikind i = Regular \<Longrightarrow> regular_only (put p i fs)"
  by (simp add: regular_only_def)

lemma regular_only_del [regular_intros]: "regular_only fs \<Longrightarrow> regular_only (del p fs)"
  by (simp add: regular_only_def)

lemma regular_only_rename [regular_intros]:
  "regular_only fs \<Longrightarrow> regular_only (snd (sys_rename a b fs))"
  by (auto simp: sys_rename_def split: option.split intro!: regular_intros)
     (auto simp: regular_only_def)

lemma regular_only_rename_excl [regular_intros]:
  "regular_only fs \<Longrightarrow> regular_only (snd (rename_no_clobber a b fs))"
  by (auto simp: rename_no_clobber_def sys_rename_excl_def split: option.split intro!: regular_intros)
     (auto simp: regular_only_def)

lemma regular_only_unlink [regular_intros]:
  "regular_only fs \<Longrightarrow> regular_only (snd (sys_unlink p fs))"
  by (auto simp: sys_unlink_def split: option.split intro!: regular_intros)

lemma regular_only_create [regular_intros]:
  "regular_only fs \<Longrightarrow> regular_only (snd (sys_create_new p m fs))"
  by (auto simp: sys_create_new_def split: option.split intro!: regular_intros)

lemma regular_only_write_all [regular_intros]:
  "regular_only fs \<Longrightarrow> regular_only (snd (sys_write_all p b fs))"
  by (auto simp: sys_write_all_def split: option.split intro!: regular_intros)
     (auto simp: regular_only_def)

lemma regular_only_write_file [regular_intros]:
  "regular_only fs \<Longrightarrow> regular_only (snd (sys_write_file p b fs))"
  by (auto simp: sys_write_file_def split: option.split intro!: regular_intros)

lemma regular_only_stamp [regular_intros]:
  assumes "regular_only fs"
  shows "regular_only (stamp_mtime_now p fs)"
  unfolding regular_only_def
proof (intro allI impI)
  fix q j
  assume "get (stamp_mtime_now p fs) q = Some j"
  then obtain i where "get fs q = Some i" "ikind j = ikind i" by (rule get_stamp_SomeD)
  with assms show "ikind j = Regular" by (simp add: regular_only_def)
qed

lemma regular_only_preserve [regular_intros]:
  "regular_only fs \<Longrightarrow> regular_only (snd (preserve_existing d fs))"
  using regular_only_rename [of fs d "bak_path d (clock fs)"]
  by (auto simp: preserve_existing_def Let_def split: prod.split sum.split)

lemma regular_only_archive [regular_intros]:
  assumes "regular_only fs"
  shows "regular_only (snd (archive c d fs))"
proof -
  obtain r fs1 where r: "rename_no_clobber c d fs = (r, fs1)" by fastforce
  obtain b fs2 where b: "preserve_existing d fs1 = (b, fs2)" by fastforce
  obtain q fs3 where q: "sys_rename c d fs2 = (q, fs3)" by fastforce
  have 1: "regular_only fs1" using regular_only_rename_excl [OF assms, of c d] r by simp
  have 2: "regular_only fs2" using regular_only_preserve [OF 1, of d] b by simp
  have 3: "regular_only fs3" using regular_only_rename [OF 2, of c d] q by simp
  show ?thesis
    using 1 3 r b q regular_only_rename [OF 3]
    by (simp add: archive_def archive_inner_def split: sum.split io_kind.split option.split)
qed

section \<open>Archiving, seen from the table\<close>

lemma archive_frame:
  assumes "q \<noteq> c" and "q \<noteq> d" and "q \<noteq> bak_path d (clock fs)"
  shows "get (snd (archive c d fs)) q = get fs q"
proof -
  obtain r fs1 where r: "rename_no_clobber c d fs = (r, fs1)" by fastforce
  obtain b fs2 where b: "preserve_existing d fs1 = (b, fs2)" by fastforce
  obtain x fs3 where x: "sys_rename c d fs2 = (x, fs3)" by fastforce
  have "fs1 = snd (rename_no_clobber c d fs)" using r by simp
  then have 1: "get fs1 q = get fs q" "clock fs1 = clock fs"
    using get_rename_excl_other [OF assms(1,2), of fs] by (simp_all add: rename_no_clobber_def)
  have 2: "get fs2 q = get fs1 q \<and> (b = None \<or> b = Some (bak_path d (clock fs)))"
    using b 1(2) get_rename_other [of q d "bak_path d (clock fs1)" fs1] assms
    by (auto simp: preserve_existing_def Let_def split: if_splits prod.splits sum.splits)
  have 3: "get fs3 q = get fs2 q" using x get_rename_other [OF assms(1,2), of fs2] by simp
  show ?thesis
    using 1 2 3 r b x get_rename_other [of q "bak_path d (clock fs)" d fs3] assms
    by (auto simp: archive_def archive_inner_def split: sum.split io_kind.split option.split)
qed

lemma archive_fields [simp]:
  "fault (snd (archive c d fs)) = fault fs" "clock (snd (archive c d fs)) = clock fs"
proof -
  obtain r fs1 where r: "rename_no_clobber c d fs = (r, fs1)" by fastforce
  obtain b fs2 where b: "preserve_existing d fs1 = (b, fs2)" by fastforce
  obtain x fs3 where x: "sys_rename c d fs2 = (x, fs3)" by fastforce
  have fs: "fs1 = snd (rename_no_clobber c d fs)" "fs2 = snd (preserve_existing d fs1)"
    "fs3 = snd (sys_rename c d fs2)" using r b x by simp_all
  have f: "fault fs3 = fault fs" "clock fs3 = clock fs" "fault fs1 = fault fs" "clock fs1 = clock fs"
    unfolding fs by simp_all
  show "fault (snd (archive c d fs)) = fault fs" "clock (snd (archive c d fs)) = clock fs"
    using r b x f
    by (simp_all add: archive_def archive_inner_def split: sum.split io_kind.split option.split)
qed

text \<open>Without faults, archiving removes nothing but the claim it moves.\<close>

lemma archive_keeps_present:
  assumes "no_faults fs" and "present fs q" and "q \<noteq> c" and "c \<noteq> d" and "c \<noteq> bak_path d (clock fs)"
  shows "present (snd (archive c d fs)) q"
proof (cases "q = bak_path d (clock fs)")
  case False
  show ?thesis
  proof (cases "q = d")
    case True
    have "present (snd (archive_inner (\<lambda>f. f) c d fs)) d"
      using assms True by (intro archive_inner_keeps_marker) (simp_all add: no_faults_def)
    with True show ?thesis by (simp add: archive_def)
  next
    case neq: False
    from archive_frame [OF assms(3) neq False] assms(2) show ?thesis by (simp add: present_def)
  qed
next
  case True
  obtain r fs1 where r: "rename_no_clobber c d fs = (r, fs1)" by fastforce
  show ?thesis
  proof (cases r)
    case (Inr u)
    with r obtain i where "fs1 = put d i (del c fs)" by (auto elim: rename_no_clobber_ok)
    with r Inr assms show ?thesis by (simp add: archive_def archive_inner_def present_def)
  next
    case (Inl e)
    with r have fs1: "fs1 = fs" by (simp add: rename_no_clobber_err)
    show ?thesis
    proof (cases "e = AlreadyExists")
      case False
      with r Inl fs1 assms(2) show ?thesis
        by (cases e) (simp_all add: archive_def archive_inner_def)
    next
      case ex: True
      with r Inl have r': "rename_no_clobber c d fs = (Inl AlreadyExists, fs)" using fs1 by simp
      have nf: "fault fs OpRename c = None" using assms(1) by (simp add: no_faults_def)
      from rename_no_clobber_exists [OF r' nf] obtain i j where ij: "get fs c = Some i" "get fs d = Some j"
        by blast
      have "preserve_existing d fs
          = (if try_exists_or_false d fs
             then (Some (bak_path d (clock fs)), put (bak_path d (clock fs)) j (del d fs))
             else (None, fs))"
        using ij(2) assms(1) by (simp add: preserve_existing_def sys_rename_def no_faults_def Let_def)
      with r' ij assms True show ?thesis
        by (simp add: archive_def archive_inner_def sys_rename_def no_faults_def present_def)
    qed
  qed
qed

text \<open>A claim that archiving takes out of \<open>cur/\<close> is at its destination afterwards.\<close>

lemma archive_moves_or_keeps:
  assumes "no_faults fs" and "present fs c" and "c \<noteq> d" and "c \<noteq> bak_path d (clock fs)"
  shows "present (snd (archive c d fs)) c \<or> present (snd (archive c d fs)) d"
proof (cases "has_nul c \<or> has_nul d")
  case True
  then have "archive c d fs = (Inl (Ctx ''archive'' (IoErr (OtherIo 22))), fs)"
    by (auto simp: archive_def archive_inner_def rename_no_clobber_def)
  with assms(2) show ?thesis by simp
next
  case False
  from assms(2) obtain i where "get fs c = Some i" by (auto simp: present_def)
  with False assms archive_works [of fs c i d] show ?thesis
    by (auto simp: no_faults_def present_def)
qed

section \<open>Events\<close>

datatype spool_event =
  Deliver string bytes u32 u32
| Check string
| Take string
| FinDone string
| FinError string string
| SetClock systime

text \<open>
  The clock may jump anywhere: no property of the claims rests on it.  The step of
  \<open>Deliver\<close> is the spooler's rename into \<open>new/\<close>, over whatever is there.
\<close>

fun spool_step :: "spool \<Rightarrow> spool_event \<Rightarrow> fsys \<Rightarrow> fsys" where
  "spool_step s (Deliver n b m u) fs =
     put (new_path s n) \<lparr>ikind = Regular, idata = b, imtime = clock fs, imode = m, iuid = u\<rparr> fs"
| "spool_step s (Check n) fs = claim_check s n fs"
| "spool_step s (Take n) fs = snd (claim_take s n fs)"
| "spool_step s (FinDone n) fs = snd (finalize_done s (cur_path_of s n) fs)"
| "spool_step s (FinError n reason) fs = snd (finalize_error s (cur_path_of s n) reason fs)"
| "spool_step s (SetClock t) fs = fs\<lparr>clock := t\<rparr>"

fun spool_claims :: "spool \<Rightarrow> spool_event \<Rightarrow> fsys \<Rightarrow> string option" where
  "spool_claims s (Take n) fs =
     (case fst (claim_take s n fs) of Inr (Some _) \<Rightarrow> Some n | _ \<Rightarrow> None)"
| "spool_claims s _ fs = None"

fun spool_releases :: "spool \<Rightarrow> spool_event \<Rightarrow> fsys \<Rightarrow> string option" where
  "spool_releases s (FinDone n) fs = (if present fs (cur_path_of s n) then Some n else None)"
| "spool_releases s (FinError n _) fs = (if present fs (cur_path_of s n) then Some n else None)"
| "spool_releases s _ fs = None"

definition live_claim :: "spool \<Rightarrow> fsys \<Rightarrow> string \<Rightarrow> bool" where
  "live_claim s fs n \<longleftrightarrow> present fs (cur_path_of s n)"

section \<open>Soundness is kept\<close>

lemma regular_only_clock [regular_intros]:
  "regular_only fs \<Longrightarrow> regular_only (fs\<lparr>clock := t\<rparr>)"
  by (simp add: regular_only_def get_def)

lemma healthy_clock [simp]: "healthy (fs\<lparr>clock := t\<rparr>) = healthy fs"
  by (simp add: healthy_def no_faults_def regular_only_def get_def)

lemma get_clock [simp]: "get (fs\<lparr>clock := t\<rparr>) p = get fs p"
  by (simp add: get_def)

lemma no_faults_cong: "fault fs' = fault fs \<Longrightarrow> no_faults fs' = no_faults fs"
  by (simp add: no_faults_def)

lemma healthyI:
  "healthy fs \<Longrightarrow> regular_only fs' \<Longrightarrow> fault fs' = fault fs \<Longrightarrow> healthy fs'"
  by (simp add: healthy_def no_faults_def)

lemma claim_take_cases:
  obtains (took) i where "fst (claim_take s n fs) = Inr (Some (cur_path_of s n))"
      "get fs (cur_path_of s n) = None"
      "snd (claim_take s n fs)
         = put (cur_path_of s n) i (del (new_path s n) (stamp_mtime_now (new_path s n) fs))"
      "\<not> is_archived s n (snd (claim_take s n fs))"
  | (none) f where "\<And>p. fst (claim_take s n fs) \<noteq> Inr (Some p)"
      "snd (claim_take s n fs) = f \<or> snd (claim_take s n fs) = snd (sys_unlink (new_path s n) f)"
      "f = stamp_mtime_now (new_path s n) fs"
  | (revert) i f where "\<And>p. fst (claim_take s n fs) \<noteq> Inr (Some p)"
      "get fs (cur_path_of s n) = None"
      "f = put (cur_path_of s n) i (del (new_path s n) (stamp_mtime_now (new_path s n) fs))"
      "is_archived s n f" "snd (claim_take s n fs) = snd (sys_unlink (cur_path_of s n) f)"
proof -
  let ?f = "stamp_mtime_now (new_path s n) fs"
  obtain r fs2 where r: "rename_no_clobber (new_path s n) (cur_path_of s n) ?f = (r, fs2)"
    by fastforce
  show ?thesis
  proof (cases r)
    case (Inr u)
    with r obtain i where i: "get ?f (cur_path_of s n) = None"
      "fs2 = put (cur_path_of s n) i (del (new_path s n) ?f)"
      by (auto elim: rename_no_clobber_ok)
    show ?thesis
    proof (cases "is_archived s n fs2")
      case True
      show ?thesis
        by (rule revert [of fs2 i]) (use True i r Inr in \<open>simp_all add: claim_take_def Let_def\<close>)
    next
      case False
      show ?thesis
        by (rule took [of i]) (use False i r Inr in \<open>simp_all add: claim_take_def Let_def\<close>)
    qed
  next
    case (Inl e)
    with r have "fs2 = ?f" by (simp add: rename_no_clobber_err)
    with r Inl show ?thesis
      by (intro none [of ?f]) (cases e; simp add: claim_take_def Let_def)+
  qed
qed

lemma regular_only_claim_take [regular_intros]:
  assumes "regular_only fs"
  shows "regular_only (snd (claim_take s n fs))"
proof -
  obtain r fs2 where r: "rename_no_clobber (new_path s n) (cur_path_of s n)
      (stamp_mtime_now (new_path s n) fs) = (r, fs2)" by fastforce
  from regular_only_rename_excl [OF regular_only_stamp [OF assms, of "new_path s n"],
      of "new_path s n" "cur_path_of s n"] r
  have "regular_only fs2" by simp
  with r show ?thesis
    by (auto simp: claim_take_def Let_def split: sum.split io_kind.split intro!: regular_intros)
qed

lemma fault_claim_take [simp]: "fault (snd (claim_take s n fs)) = fault fs"
  by (rule claim_take_cases [of s n fs]) auto

lemma regular_only_finalize_done [regular_intros]:
  "regular_only fs \<Longrightarrow> regular_only (snd (finalize_done s c fs))"
  by (auto simp: finalize_done_def Let_def case_prod_beta split: option.split sum.split bool.split
      intro!: regular_intros)

lemma regular_only_finalize_error [regular_intros]:
  "regular_only fs \<Longrightarrow> regular_only (snd (finalize_error s c r fs))"
  by (auto simp: finalize_error_def Let_def case_prod_beta split: option.split sum.split bool.split
      intro!: regular_intros)

lemma fault_finalize [simp]:
  "fault (snd (finalize_done s c fs)) = fault fs"
  "fault (snd (finalize_error s c r fs)) = fault fs"
  by (simp_all add: finalize_done_def finalize_error_def Let_def case_prod_beta
      split: option.split sum.split bool.split)

lemma fault_claim_check [simp]: "fault (claim_check s n fs) = fault fs"
  by (simp add: claim_check_def)

lemma healthy_step: "healthy fs \<Longrightarrow> healthy (spool_step s e fs)"
  by (cases e; (rule healthyI, assumption)?)
     (auto simp: healthy_def claim_check_def intro!: regular_intros)

section \<open>What each step keeps\<close>

lemma present_write_file: "present fs q \<Longrightarrow> present (snd (sys_write_file p b fs)) q"
  using write_file_kind [of fs q _ p b] by (auto simp: present_def)

lemma present_unlink_other: "q \<noteq> p \<Longrightarrow> present (snd (sys_unlink p fs)) q = present fs q"
  by (simp add: present_def get_unlink_other)

lemma is_archived_healthy: "healthy fs \<Longrightarrow> is_archived s n fs \<longleftrightarrow> marked s n fs"
  using try_exists_regular [of fs] is_archived_marked [of s n fs]
  by (auto simp: marked_def present_def healthy_def no_faults_def regular_only_def is_archived_def)

lemma archive_keeps_other:
  assumes "no_faults fs" and "present fs q" and "q \<noteq> join c n" and "c \<noteq> d"
  shows "present (snd (archive (join c n) (join d m) fs)) q"
  using assms by (intro archive_keeps_present) simp_all

lemma finalize_keeps_other:
  assumes "healthy fs" and "present fs q" and "q \<noteq> cur_path_of s n"
  shows "present (snd (finalize_done s (cur_path_of s n) fs)) q"
    and "present (snd (finalize_error s (cur_path_of s n) r fs)) q"
proof -
  have nf: "no_faults fs" using assms(1) by (simp add: healthy_def)
  have 1: "present (snd (archive (cur_path_of s n) (done_path s n) fs)) q"
    by (rule archive_keeps_other [OF nf assms(2,3)]) simp
  show "present (snd (finalize_done s (cur_path_of s n) fs)) q"
    using 1 by (simp add: finalize_done_def Let_def case_prod_beta split: sum.split bool.split)
  let ?f = "snd (sys_write_file (join (error_dir s) (n @ ''.err'')) r fs)"
  have "no_faults ?f" "present ?f q"
    using nf present_write_file [OF assms(2)] by (simp_all add: no_faults_def)
  from archive_keeps_other [OF this assms(3), of "error_dir s" n]
  have 2: "present (snd (archive (cur_path_of s n) (error_path s n) ?f)) q" by simp
  show "present (snd (finalize_error s (cur_path_of s n) r fs)) q"
    using 2 by (simp add: finalize_error_def Let_def case_prod_beta split: sum.split bool.split)
qed

lemma finalize_keeps_spent:
  assumes "healthy fs" and "present fs (cur_path_of s n)"
  shows "spent s (snd (finalize_done s (cur_path_of s n) fs)) n"
    and "spent s (snd (finalize_error s (cur_path_of s n) r fs)) n"
proof -
  have nf: "no_faults fs" using assms(1) by (simp add: healthy_def)
  have 1: "spent s (snd (archive (cur_path_of s n) (done_path s n) fs)) n"
    using archive_moves_or_keeps [OF nf assms(2), of "done_path s n"] by (auto simp: spent_def marked_def)
  show "spent s (snd (finalize_done s (cur_path_of s n) fs)) n"
    using 1 by (simp add: finalize_done_def Let_def case_prod_beta spent_def marked_def
        split: sum.split bool.split)
  let ?f = "snd (sys_write_file (join (error_dir s) (n @ ''.err'')) r fs)"
  have "no_faults ?f" "present ?f (cur_path_of s n)"
    using nf present_write_file [OF assms(2)] by (simp_all add: no_faults_def)
  from archive_moves_or_keeps [OF this, of "error_path s n"]
  have 2: "spent s (snd (archive (cur_path_of s n) (error_path s n) ?f)) n"
    by (auto simp: spent_def marked_def)
  show "spent s (snd (finalize_error s (cur_path_of s n) r fs)) n"
    using 2 by (simp add: finalize_error_def Let_def case_prod_beta spent_def marked_def
        split: sum.split bool.split)
qed

lemma finalize_spent_step:
  assumes "healthy fs" and "spent s fs n"
  shows "spent s (snd (finalize_done s (cur_path_of s m) fs)) n"
    and "spent s (snd (finalize_error s (cur_path_of s m) r fs)) n"
proof -
  have "spent s (snd (finalize_done s (cur_path_of s m) fs)) n
      \<and> spent s (snd (finalize_error s (cur_path_of s m) r fs)) n"
  proof (cases "m = n \<and> present fs (cur_path_of s n)")
    case True
    with finalize_keeps_spent [OF assms(1)] show ?thesis by blast
  next
    case False
    with assms(2) obtain q where q: "present fs q" "q \<noteq> cur_path_of s m"
      "q \<in> {cur_path_of s n, done_path s n, error_path s n}"
      by (auto simp: spent_def marked_def)
    from finalize_keeps_other [OF assms(1) q(1,2)] q(3) show ?thesis
      by (auto simp: spent_def marked_def)
  qed
  then show "spent s (snd (finalize_done s (cur_path_of s m) fs)) n"
    "spent s (snd (finalize_error s (cur_path_of s m) r fs)) n" by simp_all
qed

lemma claim_take_keeps:
  assumes "present fs q" and "q \<noteq> new_path s m"
  shows "present (snd (claim_take s m fs)) q"
proof (rule claim_take_cases [of s m fs])
  fix i assume "snd (claim_take s m fs)
      = put (cur_path_of s m) i (del (new_path s m) (stamp_mtime_now (new_path s m) fs))"
  with assms show ?thesis by (simp add: present_def get_stamp_other)
next
  fix f assume "snd (claim_take s m fs) = f \<or> snd (claim_take s m fs) = snd (sys_unlink (new_path s m) f)"
    and "f = stamp_mtime_now (new_path s m) fs"
  with assms show ?thesis by (auto simp: present_unlink_other)
next
  fix i f assume "get fs (cur_path_of s m) = None"
    and f: "f = put (cur_path_of s m) i (del (new_path s m) (stamp_mtime_now (new_path s m) fs))"
    and e: "snd (claim_take s m fs) = snd (sys_unlink (cur_path_of s m) f)"
  then have "q \<noteq> cur_path_of s m" using assms(1) by (auto simp: present_def)
  with assms f have "present f q" by (simp add: present_def get_stamp_other)
  with \<open>q \<noteq> cur_path_of s m\<close> e show ?thesis by (simp add: present_unlink_other)
qed

lemma claim_check_keeps: "q \<noteq> new_path s m \<Longrightarrow> present (claim_check s m fs) q = present fs q"
  by (simp add: claim_check_def present_unlink_other)

lemma spent_spool_step:
  assumes "healthy fs" and "spent s fs n"
  shows "spent s (spool_step s e fs) n"
proof (cases e)
  case (Take m)
  from assms(2) obtain q where q: "present fs q"
    "q \<in> {cur_path_of s n, done_path s n, error_path s n}"
    by (auto simp: spent_def marked_def)
  then have "q \<noteq> new_path s m" by auto
  from claim_take_keeps [OF q(1) this] q(2) Take show ?thesis by (auto simp: spent_def marked_def)
next
  case (SetClock t)
  with assms(2) show ?thesis by (simp add: spent_def marked_def present_def)
next
  case (Deliver m b mo u)
  with assms(2) show ?thesis by (simp add: spent_def marked_def present_def)
next
  case (Check m)
  with assms(2) show ?thesis by (simp add: spent_def marked_def claim_check_keeps)
qed (use finalize_spent_step [OF assms] in simp_all)

lemma spool_claims_took:
  assumes "spool_claims s e fs = Some n"
  shows "e = Take n \<and> \<not> present fs (cur_path_of s n)
       \<and> (\<exists>i. snd (claim_take s n fs)
           = put (cur_path_of s n) i (del (new_path s n) (stamp_mtime_now (new_path s n) fs)))
       \<and> \<not> is_archived s n (snd (claim_take s n fs))"
proof -
  from assms have e: "e = Take n" "\<exists>p. fst (claim_take s n fs) = Inr (Some p)"
    by (cases e; auto split: sum.splits option.splits)+
  show ?thesis by (rule claim_take_cases [of s n fs]) (use e in \<open>auto simp: present_def\<close>)
qed

lemma spool_claim_unspent:
  assumes "healthy fs" and "spool_claims s e fs = Some n"
  shows "\<not> spent s fs n"
proof -
  from spool_claims_took [OF assms(2)] obtain i where
    c: "\<not> present fs (cur_path_of s n)" and eq: "snd (claim_take s n fs)
      = put (cur_path_of s n) i (del (new_path s n) (stamp_mtime_now (new_path s n) fs))"
    and na: "\<not> is_archived s n (snd (claim_take s n fs))" by blast
  have "healthy (snd (claim_take s n fs))" using healthy_step [OF assms(1), of s "Take n"] by simp
  with na have "\<not> marked s n (snd (claim_take s n fs))" by (simp add: is_archived_healthy)
  then have "\<not> marked s n fs" unfolding eq by (simp add: marked_def present_def get_stamp_other)
  with c show ?thesis by (simp add: spent_def)
qed

lemma spool_claim_live:
  "spool_claims s e fs = Some n \<Longrightarrow> live_claim s (spool_step s e fs) n"
  using spool_claims_took [of s e fs n] by (auto simp: live_claim_def present_def)

section \<open>Synthetic claims\<close>

lemma write_private_cases:
  obtains (failed) e where "write_private_file p b fs = (Inl e, fs)"
  | (partial) e where "\<not> present fs p" "fst (write_private_file p b fs) = Inl e"
      "snd (write_private_file p b fs) = snd (sys_create_new p 0x180 fs)"
  | (written) i where "\<not> present fs p" "write_private_file p b fs = (Inr (), put p i fs)"
      "ikind i = Regular" "idata i = b" "imode i = 0x180"
proof (cases "fault fs OpCreate p = None \<and> \<not> present fs p")
  case False
  then have "\<exists>e. write_private_file p b fs = (Inl e, fs)"
    by (cases "fault fs OpCreate p"; cases "get fs p")
       (simp_all add: write_private_file_def sys_create_new_def present_def)
  then show ?thesis using failed by blast
next
  case True
  then have c: "sys_create_new p 0x180 fs
      = (Inr (), put p \<lparr>ikind = Regular, idata = [], imtime = clock fs, imode = 0x180, iuid = euid fs\<rparr> fs)"
    by (simp add: sys_create_new_def present_def)
  show ?thesis
  proof (cases "fault fs OpWrite p")
    case None
    let ?i = "\<lparr>ikind = Regular, idata = b, imtime = clock fs, imode = 0x180, iuid = euid fs\<rparr>"
    have "write_private_file p b fs = (Inr (), put p ?i fs)"
      using c None by (simp add: write_private_file_def sys_write_all_def put_def get_def)
    then show ?thesis using True by (intro written [of ?i]) simp_all
  next
    case (Some e)
    show ?thesis using partial [of "IoErr e"] True c Some
      by (simp add: write_private_file_def sys_write_all_def)
  qed
qed

text \<open>The three ways the exclusive rename of the temporary claim ends.\<close>

definition synthetic_install :: "spool \<Rightarrow> string \<Rightarrow> path \<Rightarrow> fsys \<Rightarrow> path option res \<times> fsys" where
  "synthetic_install s name tmp fs =
     (let dst = cur_path_of s name
      in case rename_no_clobber tmp dst fs of
           (Inr _, fs2) \<Rightarrow> (Inr (Some dst), stamp_mtime_now dst fs2)
         | (Inl AlreadyExists, fs2) \<Rightarrow> (Inr None, snd (sys_unlink tmp fs2))
         | (Inl e, fs2) \<Rightarrow>
             (Inl (Ctx (''synthetic claim rename '' @ name) (IoErr e)), snd (sys_unlink tmp fs2)))"

lemma write_synthetic_claim_unfold:
  "write_synthetic_claim C pid s job fname secret fs =
     (let name = canonical_name (js_id job) in
      if try_exists_or_false (cur_path_of s name) fs then (Inr None, fs)
      else case synthetic_bytes C job fname secret of
             Inl e \<Rightarrow> (Inl e, fs)
           | Inr bytes \<Rightarrow>
               (let tmp = cur_path_of s (tmp_claim_name job pid (clock fs))
                in case write_private_file tmp bytes fs of
                     (Inl e, fs1) \<Rightarrow> (Inl (Ctx (''write synthetic claim '' @ name) e), fs1)
                   | (Inr _, fs1) \<Rightarrow> synthetic_install s name tmp fs1))"
  unfolding write_synthetic_claim_def synthetic_install_def Let_def by (rule refl)

lemma synthetic_install_cases:
  obtains (installed) i where "get fs tmp = Some i" "get fs (cur_path_of s name) = None"
      "synthetic_install s name tmp fs
         = (Inr (Some (cur_path_of s name)),
            stamp_mtime_now (cur_path_of s name) (put (cur_path_of s name) i (del tmp fs)))"
  | (aborted) "\<And>p. fst (synthetic_install s name tmp fs) \<noteq> Inr (Some p)"
      "snd (synthetic_install s name tmp fs) = snd (sys_unlink tmp fs)"
proof -
  obtain r fs2 where r: "rename_no_clobber tmp (cur_path_of s name) fs = (r, fs2)" by fastforce
  show ?thesis
  proof (cases r)
    case (Inr u)
    with r obtain i where "get fs tmp = Some i" "get fs (cur_path_of s name) = None"
      "fs2 = put (cur_path_of s name) i (del tmp fs)" by (auto elim: rename_no_clobber_ok)
    with r Inr show ?thesis by (intro installed) (simp_all add: synthetic_install_def Let_def)
  next
    case (Inl e)
    with r have "fs2 = fs" by (simp add: rename_no_clobber_err)
    with r Inl show ?thesis
      by (intro aborted) (cases e; simp add: synthetic_install_def Let_def)+
  qed
qed

lemma synthetic_install_fault [simp]: "fault (snd (synthetic_install s n t fs)) = fault fs"
  by (rule synthetic_install_cases [of fs t s n]) simp_all

lemma synthetic_install_regular [regular_intros]:
  assumes "regular_only fs"
  shows "regular_only (snd (synthetic_install s n t fs))"
proof (rule synthetic_install_cases [of fs t s n])
  fix i assume "get fs t = Some i" and eq: "synthetic_install s n t fs
    = (Inr (Some (cur_path_of s n)), stamp_mtime_now (cur_path_of s n) (put (cur_path_of s n) i (del t fs)))"
  then have "ikind i = Regular" using assms by (simp add: regular_only_def)
  with eq assms show ?thesis by (simp add: regular_intros)
qed (use assms in \<open>simp add: regular_intros\<close>)

lemma write_private_regular [regular_intros]:
  "regular_only fs \<Longrightarrow> regular_only (snd (write_private_file p b fs))"
  by (rule write_private_cases [of p b fs]) (simp_all add: regular_intros)

lemma write_private_fault [simp]: "fault (snd (write_private_file p b fs)) = fault fs"
  by (rule write_private_cases [of p b fs]) simp_all

lemma write_private_keeps: "present fs q \<Longrightarrow> present (snd (write_private_file p b fs)) q"
  by (rule write_private_cases [of p b fs])
     (auto simp: present_def sys_create_new_def split: option.splits)

lemma write_synthetic_healthy:
  assumes "healthy fs"
  shows "healthy (snd (write_synthetic_claim C pid s job fname secret fs))"
proof (rule healthyI [OF assms])
  have "regular_only fs" using assms by (simp add: healthy_def)
  then show "regular_only (snd (write_synthetic_claim C pid s job fname secret fs))"
    by (auto simp: write_synthetic_claim_unfold Let_def case_prod_beta split: sum.split
        intro!: regular_intros)
  show "fault (snd (write_synthetic_claim C pid s job fname secret fs)) = fault fs"
    by (simp add: write_synthetic_claim_unfold Let_def case_prod_beta split: sum.split)
qed

text \<open>Every entry stays: the only one it removes is the temporary file it made.\<close>

lemma write_synthetic_keeps:
  assumes "present fs q"
  shows "present (snd (write_synthetic_claim C pid s job fname secret fs)) q"
proof -
  let ?tmp = "cur_path_of s (tmp_claim_name job pid (clock fs))"
  have inst: "present (snd (synthetic_install s n ?tmp f)) q" if "q \<noteq> ?tmp" "present f q" for f n
    by (rule synthetic_install_cases [of f ?tmp s n])
       (use that in \<open>simp_all add: present_unlink_other present_def get_unlink_other\<close>)
  have ok: "present (snd (synthetic_install s n ?tmp (snd (write_private_file ?tmp b fs)))) q"
    if "fst (write_private_file ?tmp b fs) = Inr ()" for b n
  proof (rule inst)
    show "q \<noteq> ?tmp" using that assms by (cases rule: write_private_cases [of ?tmp b fs]) auto
  qed (rule write_private_keeps [OF assms])
  show ?thesis
    using assms by (auto simp: write_synthetic_claim_unfold Let_def case_prod_beta ok
        write_private_keeps split: sum.split)
qed

lemma write_synthetic_Some:
  assumes "write_synthetic_claim C pid s job fname secret fs = (Inr (Some p), fs')"
  shows "p = cur_path_of s (canonical_name (js_id job)) \<and> present fs' p
       \<and> \<not> try_exists_or_false p fs"
proof -
  from assms obtain b fs1 where b: "\<not> try_exists_or_false (cur_path_of s (canonical_name (js_id job))) fs"
    "synthetic_install s (canonical_name (js_id job))
       (cur_path_of s (tmp_claim_name job pid (clock fs))) fs1 = (Inr (Some p), fs')"
    by (auto simp: write_synthetic_claim_unfold Let_def case_prod_beta split: if_splits sum.splits)
  show ?thesis
    by (rule synthetic_install_cases [of fs1 "cur_path_of s (tmp_claim_name job pid (clock fs))"
          s "canonical_name (js_id job)"]) (use b in \<open>auto simp: present_def\<close>)
qed

section \<open>The stores\<close>

text \<open>Histories of claimers and finalisers alone: archived and live names are spent.\<close>

interpretation claims_once: replay_store healthy "spool_step s" "spool_claims s" "spent s" for s
proof (unfold_locales, goal_cases)
  case (4 fs e n)
  then show ?case using spool_claim_live [of s e fs n] by (simp add: live_claim_def spent_def)
qed (simp_all add: healthy_step spent_spool_step spool_claim_unspent)

text \<open>Histories that also hold the reconciler's synthetic claims: live names are exclusive.\<close>

datatype claim_event = Spooled spool_event | Synthesise u32 job_status string bytes

fun claim_step :: "crates \<Rightarrow> spool \<Rightarrow> claim_event \<Rightarrow> fsys \<Rightarrow> fsys" where
  "claim_step C s (Spooled e) fs = spool_step s e fs"
| "claim_step C s (Synthesise pid job fname secret) fs =
     snd (write_synthetic_claim C pid s job fname secret fs)"

fun claims_of :: "crates \<Rightarrow> spool \<Rightarrow> claim_event \<Rightarrow> fsys \<Rightarrow> string option" where
  "claims_of C s (Spooled e) fs = spool_claims s e fs"
| "claims_of C s (Synthesise pid job fname secret) fs =
     (case fst (write_synthetic_claim C pid s job fname secret fs) of
        Inr (Some _) \<Rightarrow> Some (canonical_name (js_id job))
      | _ \<Rightarrow> None)"

fun releases_of :: "spool \<Rightarrow> claim_event \<Rightarrow> fsys \<Rightarrow> string option" where
  "releases_of s (Spooled e) fs = spool_releases s e fs"
| "releases_of s (Synthesise _ _ _ _) fs = None"

lemma spool_step_live:
  assumes "healthy fs" and "live_claim s fs n" and "spool_releases s e fs \<noteq> Some n"
  shows "live_claim s (spool_step s e fs) n"
proof (cases e)
  case (Take m)
  then show ?thesis using assms(2) claim_take_keeps [of fs "cur_path_of s n" s m] by (simp add: live_claim_def)
next
  case (FinDone m)
  with assms finalize_keeps_other(1) [OF assms(1), of "cur_path_of s n" s m] show ?thesis
    by (cases "n = m") (simp_all add: live_claim_def split: if_splits)
next
  case (FinError m r)
  with assms finalize_keeps_other(2) [OF assms(1), of "cur_path_of s n" s m] show ?thesis
    by (cases "n = m") (simp_all add: live_claim_def split: if_splits)
next
  case (Check m)
  with assms(2) show ?thesis by (simp add: live_claim_def claim_check_keeps)
qed (use assms(2) in \<open>simp_all add: live_claim_def present_def\<close>)

lemma synthesise_claims:
  assumes "claims_of C s (Synthesise pid job fname secret) fs = Some n"
  shows "live_claim s (claim_step C s (Synthesise pid job fname secret) fs) n
       \<and> \<not> try_exists_or_false (cur_path_of s n) fs"
proof -
  obtain r f where w: "write_synthetic_claim C pid s job fname secret fs = (r, f)" by fastforce
  with assms obtain p where "r = Inr (Some p)" "n = canonical_name (js_id job)"
    by (auto split: sum.splits option.splits)
  with w write_synthetic_Some [of C pid s job fname secret fs p f] show ?thesis
    by (auto simp: live_claim_def)
qed

lemma try_exists_healthy: "healthy fs \<Longrightarrow> try_exists_or_false p fs = present fs p"
  using try_exists_regular [of fs p] try_exists_missing [of fs p]
  by (auto simp: healthy_def no_faults_def regular_only_def present_def)

interpretation claims_excl: exclusive_store healthy "claim_step C s" "claims_of C s" "releases_of s" "live_claim s"
  for C s
proof (unfold_locales, goal_cases)
  case (1 fs e)
  then show ?case by (cases e) (simp_all add: healthy_step write_synthetic_healthy)
next
  case (2 fs e n)
  then show ?case
    using spool_claim_unspent [of fs s _ n] synthesise_claims [of C s _ _ _ _ fs n]
    by (cases e) (auto simp: live_claim_def spent_def try_exists_healthy)
next
  case (3 fs e n)
  then show ?case using synthesise_claims [of C s _ _ _ _ fs n] by (cases e) (auto simp: spool_claim_live)
next
  case (4 fs n e)
  then show ?case
    using write_synthetic_keeps [of fs "cur_path_of s n" C _ s] spool_step_live [of fs s n] by (cases e) (simp_all add: live_claim_def)
next
  case (5 fs e n)
  then show ?case
    by (cases e; simp) (rename_tac se, case_tac se; simp add: live_claim_def split: if_splits)
qed

end
