(* ===== verification/Spool_Properties.thy ===== *)
theory Spool_Properties
  imports Spool_History
begin

text \<open>
  The properties of the spool that the rest of the program rests on, each with a concrete run.
\<close>

section \<open>Concrete file systems\<close>

definition calm_fs :: "(path \<times> inode) list \<Rightarrow> systime \<Rightarrow> fsys" where
  "calm_fs ns t = \<lparr>nodes = ns, clock = t, euid = 501, fault = (\<lambda>_ _. None), cut = (\<lambda>_. 0)\<rparr>"

definition plain_file :: "bytes \<Rightarrow> systime \<Rightarrow> inode" where
  "plain_file b t = \<lparr>ikind = Regular, idata = b, imtime = t, imode = 0x180, iuid = 501\<rparr>"

definition demo_spool :: spool where
  "demo_spool = \<lparr>root = [''spool'']\<rparr>"

definition one_delivery :: fsys where
  "one_delivery = calm_fs [(new_path demo_spool ''7.job'', plain_file ''x'' 5)] 90"

definition claimed_once :: fsys where
  "claimed_once = calm_fs [(cur_path_of demo_spool ''7.job'', plain_file ''x'' 90)] 90"

definition archived_once :: fsys where
  "archived_once = calm_fs [(done_path demo_spool ''7.job'', plain_file ''x'' 90),
     (cur_path_of demo_spool ''7.job'', plain_file ''y'' 95)] 2000000"

text \<open>Crates that suffice for runs: a digest that pads, no encoding, two JSON texts.\<close>

definition toy_digest :: "bytes \<Rightarrow> bytes \<Rightarrow> bytes" where
  "toy_digest key m = take 32 (key @ m @ replicate 32 (CHR ''0''))"

definition toy_json_vec :: "json \<Rightarrow> string + bytes" where
  "toy_json_vec j =
     (case j of JObj ((k, _) # _) \<Rightarrow> Inr (if k = ''schema'' then ''E'' else ''B'') | _ \<Rightarrow> Inl ''value'')"

definition toy_info :: workflow_job_info where
  "toy_info = \<lparr>job_id = 7, job_run_id = 3, job_run_attempt = 1, job_head_branch = None,
     job_head_sha = None, job_name = ''build'', job_labels = [''lima-nix'']\<rparr>"

definition toy_event :: workflow_job where
  "toy_event = \<lparr>ev_action = ''queued'', ev_job = toy_info,
     ev_repository = \<lparr>repository_id = 11, full_name = ''o/r''\<rparr>\<rparr>"

definition toy_envelope :: envelope where
  "toy_envelope = \<lparr>env_schema = 2, env_event = ''workflow_job'', env_delivery = ''reconciler:7'',
     env_repo_id = 11, env_repo = ''o/r'', env_action = ''queued'', env_workflow_job_id = 7,
     env_received_at_ms = 0, env_signature = ''sha256='' @ toy_digest ''key'' ''B''\<rparr>"

definition toy_crates :: crates where
  "toy_crates = \<lparr>hmac_sha256 = toy_digest, hex_encode = (\<lambda>b. b), hex_decode = Some,
     json_vec = toy_json_vec,
     json_envelope = (\<lambda>b. if b = ''E'' then Inr toy_envelope else Inl ''envelope''),
     json_event = (\<lambda>b. if b = ''B'' then Inr toy_event else Inl ''event''),
     json_value = (\<lambda>_. Inr JNull),
     json_runner = (\<lambda>_. Inl ''runner''), json_runners = (\<lambda>_. Inr []),
     json_jit_config = (\<lambda>_. Inl ''jit''), json_job_status = (\<lambda>_. Inl ''job''),
     json_runs = (\<lambda>_. Inr []), json_run_jobs = (\<lambda>_. Inr []),
     json_repo_info = (\<lambda>_. Inr ''main''), json_branch_info = (\<lambda>_. Inr ''sha''),
     json_installation = (\<lambda>_. Inr 5), json_token = Inr,
     rsa_key_from_pem = Inr, jwt_rs256 = (\<lambda>_ _ _ _. Inr ''jwt'')\<rparr>"

definition toy_job :: job_status where
  "toy_job = \<lparr>js_id = 7, js_status = ''queued'', js_run_id = 3, js_run_attempt = 1,
     js_name = ''build'', js_labels = [''lima-nix''], js_repo_id = 11\<rparr>"

lemmas demo_defs = calm_fs_def plain_file_def demo_spool_def one_delivery_def claimed_once_def
  archived_once_def get_def put_def del_def join_def new_dir_def cur_dir_def done_dir_def error_dir_def

lemma healthy_calm [simp]:
  "healthy (calm_fs ns t) = (\<forall>p i. map_of ns p = Some i \<longrightarrow> ikind i = Regular)"
  by (simp add: healthy_def no_faults_def regular_only_def calm_fs_def get_def)

lemma one_delivery_claim:
  "fst (try_claim_inner demo_spool ''7.job'' (\<lambda>f. f) one_delivery)
     = Inr (Some (cur_path_of demo_spool ''7.job''))"
  by code_simp

lemma healthy_demo: "healthy one_delivery" "healthy claimed_once" "healthy archived_once"
  by (simp_all add: one_delivery_def claimed_once_def archived_once_def plain_file_def)

section \<open>Claiming\<close>

text \<open>A successful claim took exactly the delivered file: whatever other tasks do between the
  two archive checks, the entry was in \<open>new/\<close> with nothing at its name in \<open>cur/\<close>, it
  is gone from \<open>new/\<close> and stands in \<open>cur/\<close> with the same bytes, no marker in
  \<open>done/\<close> or \<open>error/\<close> was visible before or after, and a regular file is
  stamped with the time of the claim.\<close>

theorem claim_takes_delivery:
  assumes "try_claim_inner s n between fs = (Inr (Some p), fs')"
    and "\<And>op. fault (between fs) op (new_path s n) = None"
  shows "p = cur_path_of s n \<and> \<not> is_archived s n fs \<and> \<not> is_archived s n fs'
       \<and> get (between fs) p = None \<and> get fs' (new_path s n) = None
       \<and> (\<exists>i j. get (between fs) (new_path s n) = Some i \<and> get fs' p = Some j
              \<and> idata j = idata i \<and> ikind j = ikind i
              \<and> (ikind i = Regular \<longrightarrow> imtime j = clock (between fs)))"
proof -
  from assms(1) have na: "\<not> is_archived s n fs" by (auto simp: try_claim_inner_def Let_def)
  from try_claim_inner_took [OF assms(1)] obtain i j where
    ij: "get (between fs) (new_path s n) = Some i" "get fs' p = Some j"
      "idata j = idata i" "ikind j = ikind i"
    and rest: "p = cur_path_of s n" "\<not> is_archived s n fs'" "get (between fs) p = None"
      "get fs' (new_path s n) = None" by blast
  have "ikind i = Regular \<longrightarrow> imtime j = clock (between fs)"
    using try_claim_inner_fresh [OF assms(1) ij(1) _ assms(2)] ij(2) by auto
  with na ij rest show ?thesis by blast
qed

theorem claim_takes_delivery_witness:
  "get (snd (try_claim_inner demo_spool ''7.job'' (\<lambda>f. f) one_delivery))
       (new_path demo_spool ''7.job'') = None"
  using claim_takes_delivery [of demo_spool "''7.job''" "\<lambda>f. f" one_delivery
      "cur_path_of demo_spool ''7.job''", OF prod_eqI]
  by (simp add: one_delivery_claim) (simp add: one_delivery_def calm_fs_def)





section \<open>Archiving\<close>

text \<open>C26: Archiving never loses the marker that suppresses replays: if \<open>dest\<close> existed, it
  exists afterwards on every path, error paths included, whatever other tasks do while the
  installation awaits, as long as they leave the marker and its preserved copy alone and the
  restoring rename can work.\<close>

theorem archive_marker_survives:
  assumes "present fs dest"
    and "\<And>f. present f dest \<Longrightarrow> present (env f) dest"
    and "\<And>f. present f (bak_path dest (clock fs)) \<Longrightarrow> present (env f) (bak_path dest (clock fs))"
    and "\<And>f. fault (env f) = fault f"
    and "fault fs OpRename (bak_path dest (clock fs)) = None"
  shows "present (snd (archive_inner env cur dest fs)) dest"
  using assms by (rule archive_inner_keeps_marker)

theorem archive_marker_survives_witness:
  "present (snd (archive_inner (\<lambda>f. snd (sys_unlink (cur_path_of demo_spool ''7.job'') f))
     (cur_path_of demo_spool ''7.job'') (done_path demo_spool ''7.job'') archived_once))
     (done_path demo_spool ''7.job'')"
proof (rule archive_marker_survives)
  show "present archived_once (done_path demo_spool ''7.job'')" by code_simp
qed (simp_all add: present_unlink_other archived_once_def calm_fs_def)

lemma stamp_healthy:
  "healthy fs \<Longrightarrow> get fs p = Some i \<Longrightarrow> get (stamp_mtime_now p fs) p = Some (i\<lparr>imtime := clock fs\<rparr>)"
  by (rule stamp_regular) (auto simp: healthy_def no_faults_def regular_only_def)

lemma archive_healthy:
  assumes "healthy fs" and "get fs c = Some i" and "\<not> has_nul c" "\<not> has_nul d"
    and "c \<noteq> d" and "c \<noteq> bak_path d (clock fs)"
  obtains fs' where "archive c d fs = (Inr True, fs')" "get fs' d = Some i" "get fs' c = None"
    "healthy fs'" "clock fs' = clock fs"
proof -
  from assms archive_works [of fs c i d] obtain fs' where
    a: "archive c d fs = (Inr True, fs')" "get fs' d = Some i" "get fs' c = None"
    by (auto simp: healthy_def no_faults_def)
  have eq: "fs' = snd (archive c d fs)" using a(1) by simp
  have "clock fs' = clock fs" "fault fs' = fault fs" "regular_only fs'"
    unfolding eq using assms(1) by (simp_all add: regular_only_archive healthy_def)
  with a show ?thesis by (intro that healthyI [OF assms(1)])
qed

lemma write_file_healthy:
  assumes "healthy fs"
  obtains fs0 where "snd (sys_write_file p b fs) = fs0" "healthy fs0" "clock fs0 = clock fs"
    "map_option idata (get fs0 p) = Some b" "\<And>q. q \<noteq> p \<Longrightarrow> get fs0 q = get fs q"
proof -
  have "link_target 40 fs p = Some p" and "\<And>i. get fs p = Some i \<Longrightarrow> ikind i = Regular"
    using assms by (auto simp: healthy_def regular_only_def eval_nat_numeral split: option.split fkind.split)
  then have g: "map_option idata (get (snd (sys_write_file p b fs)) p) = Some b"
    "\<And>q. q \<noteq> p \<Longrightarrow> get (snd (sys_write_file p b fs)) q = get fs q"
    using assms by (auto simp: sys_write_file_def healthy_def no_faults_def split: option.split)
  have "healthy (snd (sys_write_file p b fs))"
    using assms regular_only_write_file [of fs p b] by (intro healthyI [OF assms]) (simp_all add: healthy_def)
  with g that show ?thesis by simp
qed

lemma finalize_moves_state:
  assumes "healthy fs" and "get fs (cur_path_of s n) = Some i"
    and "\<not> has_nul (cur_path_of s n)" and "\<not> has_nul (root s)"
  shows "fst (finalize_done s (cur_path_of s n) fs) = Inr ()
       \<and> get (snd (finalize_done s (cur_path_of s n) fs)) (cur_path_of s n) = None
       \<and> get (snd (finalize_done s (cur_path_of s n) fs)) (done_path s n) = Some (i\<lparr>imtime := clock fs\<rparr>)
       \<and> fst (finalize_error s (cur_path_of s n) r fs) = Inr ()
       \<and> get (snd (finalize_error s (cur_path_of s n) r fs)) (cur_path_of s n) = None
       \<and> get (snd (finalize_error s (cur_path_of s n) r fs)) (error_path s n) = Some (i\<lparr>imtime := clock fs\<rparr>)"
proof -
  have nul: "\<not> has_nul (done_path s n)" "\<not> has_nul (error_path s n)"
    using assms(3,4) by (auto simp: has_nul_def join_def done_dir_def error_dir_def cur_dir_def)
  obtain f1 where 1: "archive (cur_path_of s n) (done_path s n) fs = (Inr True, f1)"
    "get f1 (done_path s n) = Some i" "get f1 (cur_path_of s n) = None" "healthy f1" "clock f1 = clock fs"
    by (rule archive_healthy [OF assms(1-3) nul(1)]) simp_all
  obtain f0 where 0: "snd (sys_write_file (join (error_dir s) (n @ ''.err'')) r fs) = f0" "healthy f0"
    "clock f0 = clock fs" "get f0 (cur_path_of s n) = get fs (cur_path_of s n)"
    by (rule write_file_healthy [OF assms(1), of "join (error_dir s) (n @ ''.err'')" r]) simp
  obtain f2 where 2: "archive (cur_path_of s n) (error_path s n) f0 = (Inr True, f2)"
    "get f2 (error_path s n) = Some i" "get f2 (cur_path_of s n) = None" "healthy f2" "clock f2 = clock f0"
    by (rule archive_healthy [OF 0(2) _ assms(3) nul(2), of i]) (simp_all add: 0(4) assms(2))
  show ?thesis
    using 1 2 0 stamp_healthy [OF 1(4,2)] stamp_healthy [OF 2(4,2)]
    by (simp add: finalize_done_def finalize_error_def Let_def get_stamp_other)
qed

text \<open>On a sound file system a live claim is finalised: the call succeeds, the claim leaves
  \<open>cur/\<close>, its bytes are the new marker in \<open>done/\<close> (or \<open>error/\<close>) stamped
  with the current time, and, for \<open>error/\<close>, the sidecar holds the reason.\<close>

theorem finalize_moves_claim:
  assumes "healthy fs" and "get fs (cur_path_of s n) = Some i"
    and "\<not> has_nul (cur_path_of s n)" and "\<not> has_nul (root s)"
  shows "fst (finalize_done s (cur_path_of s n) fs) = Inr ()
       \<and> get (snd (finalize_done s (cur_path_of s n) fs)) (cur_path_of s n) = None
       \<and> get (snd (finalize_done s (cur_path_of s n) fs)) (done_path s n) = Some (i\<lparr>imtime := clock fs\<rparr>)
       \<and> fst (finalize_error s (cur_path_of s n) r fs) = Inr ()
       \<and> get (snd (finalize_error s (cur_path_of s n) r fs)) (cur_path_of s n) = None
       \<and> get (snd (finalize_error s (cur_path_of s n) r fs)) (error_path s n) = Some (i\<lparr>imtime := clock fs\<rparr>)"
  using assms by (rule finalize_moves_state)

theorem finalize_moves_claim_witness:
  "fst (finalize_done demo_spool (cur_path_of demo_spool ''7.job'') claimed_once) = Inr ()"
proof -
  have "get claimed_once (cur_path_of demo_spool ''7.job'') = Some (plain_file ''x'' 90)"
    "\<not> has_nul (cur_path_of demo_spool ''7.job'')" "\<not> has_nul (root demo_spool)"
    by code_simp+
  from finalize_moves_claim [OF healthy_demo(2) this] show ?thesis by blast
qed

section \<open>Synthetic claims\<close>

text \<open>Documented behaviour of \<open>serde_json\<close> at one value: compact JSON text has no newline
  and decodes into the structure it was built from.\<close>

definition envelope_of_job :: "job_status \<Rightarrow> string \<Rightarrow> string \<Rightarrow> envelope" where
  "envelope_of_job job fname sig =
     \<lparr>env_schema = 2, env_event = ''workflow_job'', env_delivery = ''reconciler:'' @ dec_u64 (js_id job),
      env_repo_id = js_repo_id job, env_repo = fname, env_action = ''queued'',
      env_workflow_job_id = js_id job, env_received_at_ms = 0, env_signature = sig\<rparr>"

definition event_of_job :: "job_status \<Rightarrow> string \<Rightarrow> workflow_job" where
  "event_of_job job fname =
     \<lparr>ev_action = ''queued'',
      ev_job = \<lparr>job_id = js_id job, job_run_id = js_run_id job, job_run_attempt = js_run_attempt job,
                job_head_branch = None, job_head_sha = None, job_name = js_name job,
                job_labels = js_labels job\<rparr>,
      ev_repository = \<lparr>repository_id = js_repo_id job, full_name = fname\<rparr>\<rparr>"

definition serde_round_trip :: "crates \<Rightarrow> job_status \<Rightarrow> string \<Rightarrow> bytes \<Rightarrow> bytes \<Rightarrow> bytes \<Rightarrow> bool" where
  "serde_round_trip C job fname secret line body \<longleftrightarrow>
     json_vec C (synthetic_body job fname) = Inr body
     \<and> json_event C body = Inr (event_of_job job fname)
     \<and> json_vec C (synthetic_envelope job fname (sign_body C secret body)) = Inr line
     \<and> CHR 0x0A \<notin> set line
     \<and> json_envelope C line = Inr (envelope_of_job job fname (sign_body C secret body))"

lemma synthetic_claim_file:
  assumes "write_synthetic_claim C pid s job fname secret fs = (Inr (Some p), fs')"
    and "serde_round_trip C job fname secret line body"
  shows "p = cur_path_of s (canonical_name (js_id job))
       \<and> (\<exists>i. get fs' p = Some i \<and> ikind i = Regular \<and> idata i = line @ CHR 0x0A # body \<and> imode i = 0x180)"
proof -
  have b: "synthetic_bytes C job fname secret = Inr (line @ CHR 0x0A # body)"
    using assms(2) by (simp add: synthetic_bytes_def serde_round_trip_def)
  let ?n = "canonical_name (js_id job)" and ?tmp = "cur_path_of s (tmp_claim_name job pid (clock fs))"
  obtain r f1 where w: "write_private_file ?tmp (line @ CHR 0x0A # body) fs = (r, f1)" by fastforce
  from assms(1) b w have r: "r = Inr ()" and ins: "synthetic_install s ?n ?tmp f1 = (Inr (Some p), fs')"
    by (auto simp: write_synthetic_claim_unfold Let_def split: if_splits sum.splits)
  from w r obtain i where i: "get f1 ?tmp = Some i" "ikind i = Regular"
    "idata i = line @ CHR 0x0A # body" "imode i = 0x180"
    by (cases rule: write_private_cases [of ?tmp "line @ CHR 0x0A # body" fs]) auto
  show ?thesis
  proof (rule synthetic_install_cases [of f1 ?tmp s ?n])
    fix j assume j: "get f1 ?tmp = Some j" and eq: "synthetic_install s ?n ?tmp f1 =
      (Inr (Some (cur_path_of s ?n)), stamp_mtime_now (cur_path_of s ?n) (put (cur_path_of s ?n) j (del ?tmp f1)))"
    with ins have "p = cur_path_of s ?n"
      "fs' = stamp_mtime_now (cur_path_of s ?n) (put (cur_path_of s ?n) i (del ?tmp f1))" using i by auto
    with i get_stamp_same [of "cur_path_of s ?n" "put (cur_path_of s ?n) i (del ?tmp f1)"]
    show ?thesis by auto
  next
    assume "\<And>q. fst (synthetic_install s ?n ?tmp f1) \<noteq> Inr (Some q)"
    from this [of p] ins show ?thesis by simp
  qed
qed

lemma synthetic_claim_reads_back:
  assumes "write_synthetic_claim C pid s job fname secret fs = (Inr (Some p), fs')"
    and "serde_round_trip C job fname secret line body" and "no_faults fs'"
    and "length line \<le> MAX_ENVELOPE_BYTES" and "length line + length body < MAX_FILE_BYTES"
  shows "read_spool_file C p fs'
       = Inr (envelope_of_job job fname (sign_body C secret body), body)"
proof -
  from synthetic_claim_file [OF assms(1,2)] obtain i where
    "get fs' p = Some i" "ikind i = Regular" "idata i = line @ CHR 0x0A # body" by blast
  then show ?thesis
    using assms by (intro read_spool_file_written) (auto simp: serde_round_trip_def no_faults_def)
qed

end
