(* ===== verification/Config_Types.thy ===== *)
theory Config_Types
  imports Prelude
begin

text \<open>
  The configuration record (\<open>config.rs\<close>, \<open>struct Config\<close>) as clap hands it over.
\<close>

record config =
  spool_dir :: path
  state_dir :: path
  app_id :: u64
  app_private_key_file :: path
  webhook_secret :: "string option"
  webhook_secret_file :: "path option"
  allowed_repos :: "string list"
  org :: string
  runner_label :: string
  runner_labels :: "string list"
  max_concurrency :: nat
  lima_template :: path
  limactl_path :: path
  gc_interval_secs :: u64
  job_max_runtime_secs :: u64
  dispatch_deadline_secs :: u64
  dispatch_poll_secs :: u64
  archive_retention_secs :: u64
  serial_log_retention_secs :: u64
  api_timeout_secs :: u64
  api_url :: string
  insecure_allow_http_api :: bool
  control_addr :: "string option"
  reconcile_enabled :: bool
  reconcile_interval_secs :: u64
  job_completion_check :: bool
  cache_warm_enabled :: bool
  nix_bin :: "path option"
  warm_cache_base :: "path option"
  mac_cache_dir :: "path option"
  warm_tools_dir :: "path option"
  warm_cache_key_name :: string
  warm_max_concurrency :: nat
  warm_coalesce_ttl_secs :: u64
  warm_timeout_secs :: u64
  warm_substituters :: string
  warm_trusted_public_keys :: string

definition default_runner_labels :: "string list" where
  "default_runner_labels = [''self-hosted'', ''lima-nix'']"

definition allowed_repos_set :: "config \<Rightarrow> string set" where
  "allowed_repos_set c = set (allowed_repos c)"

definition runner_labels_set :: "config \<Rightarrow> string set" where
  "runner_labels_set c = set (runner_labels c)"

end
