(* ===== verification/Vm_Name.thy ===== *)
theory Vm_Name
  imports Github_Types
begin

text \<open>
  The names that tie a job to its VM and runner (\<open>runner.rs: vm_name\<close>) and the shape test the
  reapers trust (\<open>gc.rs: is_managed_vm_name\<close>), with the contract the reapers rely on as the
  locale \<open>naming\<close>.
\<close>

definition VM_NAME_PREFIX :: string where
  "VM_NAME_PREFIX = ''gha-''"

definition vm_name :: "u64 \<Rightarrow> string" where
  "vm_name i = ''gha-'' @ hex_u64 i"

definition vm_name_for_event :: "workflow_job \<Rightarrow> string" where
  "vm_name_for_event event = vm_name (job_id (ev_job event))"

definition is_managed_vm_name :: "string \<Rightarrow> bool" where
  "is_managed_vm_name name =
     (case strip_prefix name VM_NAME_PREFIX of
        None \<Rightarrow> False
      | Some suffix \<Rightarrow> length suffix = 16 \<and> list_all is_hex_lower suffix)"

section \<open>The naming contract\<close>

text \<open>
  A naming maps ids to names injectively and recognises exactly its own names.  What a set of
  claimed ids protects is then the set of its names, and nothing else.
\<close>

locale naming =
  fixes name_of :: "'i \<Rightarrow> 'n" and recognised :: "'n \<Rightarrow> bool"
  assumes name_inj: "name_of i = name_of j \<Longrightarrow> i = j"
    and recognised_name: "recognised (name_of i)"
    and recognised_only: "recognised n \<Longrightarrow> \<exists>i. n = name_of i"
begin

lemma recognised_iff: "recognised n \<longleftrightarrow> n \<in> range name_of"
  using recognised_name recognised_only by blast

lemma protects_exactly: "name_of i \<in> name_of ` A \<longleftrightarrow> i \<in> A"
  using name_inj by blast

lemma unprotected_iff:
  "recognised n \<and> n \<notin> name_of ` A \<longleftrightarrow> (\<exists>i. i \<notin> A \<and> n = name_of i)"
  using recognised_only recognised_name name_inj by (metis image_iff)

end

lemma vm_name_inj [simp]: "vm_name i = vm_name j \<longleftrightarrow> i = j"
  by (simp add: vm_name_def)

lemma is_managed_vm_name [simp]: "is_managed_vm_name (vm_name i)"
proof -
  have "strip_prefix (vm_name i) VM_NAME_PREFIX = Some (hex_u64 i)"
    by (simp add: vm_name_def VM_NAME_PREFIX_def strip_prefix_Some_iff)
  then show ?thesis by (simp add: is_managed_vm_name_def hex_u64_lower)
qed

lemma is_managed_vm_nameD:
  assumes "is_managed_vm_name n"
  shows "\<exists>i. n = vm_name i"
proof -
  from assms obtain suffix where s: "n = VM_NAME_PREFIX @ suffix" "length suffix = 16"
    "list_all is_hex_lower suffix"
    by (auto simp: is_managed_vm_name_def strip_prefix_Some_iff split: option.splits)
  from hex_u64_surj [OF s(2,3)] s(1) show ?thesis
    by (intro exI [of _ "of_nat (unhex suffix)"]) (simp add: vm_name_def VM_NAME_PREFIX_def)
qed

interpretation vm_names: naming vm_name is_managed_vm_name
  by unfold_locales (auto dest: is_managed_vm_nameD)

end
