(* ===== verification/Supervisor_Policy.thy ===== *)
theory Supervisor_Policy
  imports Spool_Properties Config_Types Vm_Name
begin

text \<open>
  What the supervisor decides about one spool entry (\<open>supervisor.rs\<close>: \<open>prepare\<close>,
  \<open>classify_validated_entry\<close>, \<open>validate_envelope\<close>, \<open>classify_job_labels\<close>,
  \<open>completion_action\<close>).  A reason text is kept as the arguments of its \<open>format!\<close>.
\<close>

section \<open>Verdicts\<close>

datatype reason =
  NonCanonicalName string u64 string
| ReadParse err
| BadSchema u32
| HmacMismatch
| FilenameIdMismatch u64 u64
| RepoNotAllowed string
| OtherEvent string
| BodyDecode string
| RepoIdMismatch u64 u64
| RepoMismatch string string
| JobIdMismatch u64 u64
| ActionMismatch string string
| OtherAction string
| GateLabelMissing "string list" string
| LabelNotAdvertised string

datatype label_verdict = Accept | RejectLabels reason

datatype entry_verdict = EntryRun workflow_job | EntryDrop reason | EntryReject reason

datatype prepared =
  Run path string workflow_job
| Drop path reason
| Reject path reason
| Skip

datatype completion_action = Done | Steal

section \<open>The checks\<close>

definition classify_job_labels :: "string list \<Rightarrow> string \<Rightarrow> string set \<Rightarrow> label_verdict" where
  "classify_job_labels labels gate advertised =
     (if \<not> list_ex (\<lambda>l. eq_ignore_ascii_case l gate) labels
      then RejectLabels (GateLabelMissing labels gate)
      else (case List.find (\<lambda>l. \<not> (\<exists>a \<in> advertised. eq_ignore_ascii_case a l)) labels of
              Some unknown \<Rightarrow> RejectLabels (LabelNotAdvertised unknown)
            | None \<Rightarrow> Accept))"

definition validate_envelope ::
    "crates \<Rightarrow> envelope \<Rightarrow> bytes \<Rightarrow> bytes \<Rightarrow> string set \<Rightarrow> u64 \<Rightarrow> reason option" where
  "validate_envelope C env body secret allowed filename_job_id =
     (if \<not> (1 \<le> env_schema env \<and> env_schema env \<le> 2) then Some (BadSchema (env_schema env))
      else if \<not> verify_signature C (env_signature env) body secret then Some HmacMismatch
      else if env_workflow_job_id env \<noteq> filename_job_id
        then Some (FilenameIdMismatch filename_job_id (env_workflow_job_id env))
      else if env_repo env \<notin> allowed then Some (RepoNotAllowed (env_repo env))
      else None)"

definition classify_validated_entry ::
    "crates \<Rightarrow> u64 \<Rightarrow> envelope \<Rightarrow> bytes \<Rightarrow> bytes \<Rightarrow> string set \<Rightarrow> string \<Rightarrow> string set \<Rightarrow> entry_verdict"
where
  "classify_validated_entry C filename_job_id env body secret allowed gate advertised =
     (case validate_envelope C env body secret allowed filename_job_id of
        Some reason \<Rightarrow> EntryReject reason
      | None \<Rightarrow>
        if env_event env \<noteq> ''workflow_job'' then EntryDrop (OtherEvent (env_event env))
        else
     (case json_event C body of
        Inl e \<Rightarrow> EntryReject (BodyDecode e)
      | Inr event \<Rightarrow>
        if repository_id (ev_repository event) \<noteq> env_repo_id env
          then EntryReject (RepoIdMismatch (env_repo_id env) (repository_id (ev_repository event)))
        else if full_name (ev_repository event) \<noteq> env_repo env
          then EntryReject (RepoMismatch (env_repo env) (full_name (ev_repository event)))
        else if job_id (ev_job event) \<noteq> env_workflow_job_id env
          then EntryReject (JobIdMismatch (env_workflow_job_id env) (job_id (ev_job event)))
        else if ev_action event \<noteq> env_action env
          then EntryReject (ActionMismatch (env_action env) (ev_action event))
        else if ev_action event \<noteq> ''queued'' then EntryDrop (OtherAction (ev_action event))
        else
     (case classify_job_labels (job_labels (ev_job event)) gate advertised of
        Accept \<Rightarrow> EntryRun event
      | RejectLabels reason \<Rightarrow> EntryDrop reason)))"

text \<open>\<open>prepare\<close> with whatever other tasks do around its claim left out: the entry is
  exclusively ours once it is in \<open>cur/\<close> (\<open>claims_excl\<close>).\<close>

definition prepare ::
    "crates \<Rightarrow> spool \<Rightarrow> string \<Rightarrow> config \<Rightarrow> bytes \<Rightarrow> string set \<Rightarrow> string set \<Rightarrow> fsys \<Rightarrow> prepared \<times> fsys"
where
  "prepare C s name cfg secret allowed advertised fs =
     (case parse_spool_filename name of
        None \<Rightarrow> (Skip, fs)
      | Some filename_job_id \<Rightarrow>
     (case try_claim s name fs of
        (Inr None, fs1) \<Rightarrow> (Skip, fs1)
      | (Inl e, fs1) \<Rightarrow> (Skip, fs1)
      | (Inr (Some cur_path), fs1) \<Rightarrow>
        let canonical = canonical_name filename_job_id in
        if name \<noteq> canonical
          then (Reject cur_path (NonCanonicalName (sanitize_for_log name) filename_job_id canonical), fs1)
        else
     (case read_spool_file C cur_path fs1 of
        Inl e \<Rightarrow> (Reject cur_path (ReadParse e), fs1)
      | Inr (env, body) \<Rightarrow>
          ((case classify_validated_entry C filename_job_id env body secret allowed
                   (runner_label cfg) advertised of
              EntryRun event \<Rightarrow> Run cur_path (env_delivery env) event
            | EntryDrop reason \<Rightarrow> Drop cur_path reason
            | EntryReject reason \<Rightarrow> Reject cur_path reason), fs1))))"

definition completion_action :: "string option \<Rightarrow> completion_action" where
  "completion_action status = (if status = Some ''queued'' then Steal else Done)"

section \<open>What they decide\<close>

lemma classify_job_labels_Accept:
  "classify_job_labels labels gate advertised = Accept \<longleftrightarrow>
   (\<exists>l \<in> set labels. eq_ignore_ascii_case l gate) \<and>
   (\<forall>l \<in> set labels. \<exists>a \<in> advertised. eq_ignore_ascii_case a l)"
  by (auto simp: classify_job_labels_def list_ex_iff find_None_iff find_Some_iff split: option.split)

definition authentic :: "crates \<Rightarrow> u64 \<Rightarrow> envelope \<Rightarrow> bytes \<Rightarrow> bytes \<Rightarrow> string set \<Rightarrow> bool" where
  "authentic C i env body secret allowed \<longleftrightarrow>
     env_schema env \<in> {1, 2} \<and> verify_signature C (env_signature env) body secret
     \<and> env_workflow_job_id env = i \<and> env_repo env \<in> allowed"

definition body_matches :: "envelope \<Rightarrow> workflow_job \<Rightarrow> bool" where
  "body_matches env event \<longleftrightarrow>
     repository_id (ev_repository event) = env_repo_id env
     \<and> full_name (ev_repository event) = env_repo env
     \<and> job_id (ev_job event) = env_workflow_job_id env \<and> ev_action event = env_action env"

lemma schema_range: "(1 \<le> (w :: u32) \<and> w \<le> 2) \<longleftrightarrow> w \<in> {1, 2}"
proof
  assume a: "1 \<le> w \<and> w \<le> 2"
  then have "unat w = 1 \<or> unat w = 2" by (auto simp: word_le_nat_alt)
  then show "w \<in> {1, 2}" by (auto simp: word_unat_eq_iff)
qed auto

lemma validate_envelope_None:
  "validate_envelope C env body secret allowed i = None \<longleftrightarrow> authentic C i env body secret allowed"
  unfolding authentic_def schema_range [symmetric] by (auto simp: validate_envelope_def)

lemma classify_Run_iff:
  "classify_validated_entry C i env body secret allowed gate adv = EntryRun event \<longleftrightarrow>
   authentic C i env body secret allowed \<and> env_event env = ''workflow_job''
   \<and> json_event C body = Inr event \<and> body_matches env event \<and> ev_action event = ''queued''
   \<and> classify_job_labels (job_labels (ev_job event)) gate adv = Accept"
  by (auto simp: classify_validated_entry_def validate_envelope_None [symmetric] body_matches_def
      split: option.split sum.split label_verdict.split)

definition labels_acceptable :: "string \<Rightarrow> string set \<Rightarrow> string list \<Rightarrow> bool" where
  "labels_acceptable gate advertised labels \<longleftrightarrow>
     (\<exists>l \<in> set labels. eq_ignore_ascii_case l gate)
     \<and> (\<forall>l \<in> set labels. \<exists>a \<in> advertised. eq_ignore_ascii_case a l)"

lemma label_verdict_cases:
  "classify_job_labels labels gate adv = Accept \<longleftrightarrow> labels_acceptable gate adv labels"
  "(\<exists>r. classify_job_labels labels gate adv = RejectLabels r) \<longleftrightarrow> \<not> labels_acceptable gate adv labels"
proof -
  show a: "classify_job_labels labels gate adv = Accept \<longleftrightarrow> labels_acceptable gate adv labels"
    by (simp add: labels_acceptable_def classify_job_labels_Accept)
  show "(\<exists>r. classify_job_labels labels gate adv = RejectLabels r) \<longleftrightarrow> \<not> labels_acceptable gate adv labels"
    unfolding a [symmetric] by (cases "classify_job_labels labels gate adv") simp_all
qed

text \<open>The body decodes into an event that agrees with the envelope.\<close>

definition faithful_body :: "crates \<Rightarrow> envelope \<Rightarrow> bytes \<Rightarrow> workflow_job \<Rightarrow> bool" where
  "faithful_body C env body ev \<longleftrightarrow> json_event C body = Inr ev \<and> body_matches env ev"

lemma classify_Drop_iff:
  "(\<exists>r. classify_validated_entry C i env body secret allowed gate adv = EntryDrop r) \<longleftrightarrow>
   authentic C i env body secret allowed \<and>
   (env_event env \<noteq> ''workflow_job'' \<or>
    (\<exists>ev. faithful_body C env body ev \<and>
          \<not> (ev_action ev = ''queued'' \<and> labels_acceptable gate adv (job_labels (ev_job ev)))))"
  using label_verdict_cases [of _ gate adv]
  unfolding validate_envelope_None [symmetric]
  by (cases "json_event C body"; cases "validate_envelope C env body secret allowed i")
     (auto simp: classify_validated_entry_def body_matches_def faithful_body_def split: label_verdict.splits)

lemma classify_Reject_iff:
  "(\<exists>r. classify_validated_entry C i env body secret allowed gate adv = EntryReject r) \<longleftrightarrow>
   \<not> authentic C i env body secret allowed \<or>
   (env_event env = ''workflow_job'' \<and> \<not> (\<exists>ev. faithful_body C env body ev))"
  unfolding validate_envelope_None [symmetric]
  by (cases "json_event C body"; cases "validate_envelope C env body secret allowed i")
     (auto simp: classify_validated_entry_def body_matches_def faithful_body_def split: label_verdict.splits)

section \<open>Properties\<close>

text \<open>C3: An entry is run exactly under the conditions of the README, each of them checked:
  schema 1 or 2, a valid signature over the body, the file name's id, an allowed repository, the
  event and action, the faithful copy of every signed field, and the label policy.  It is dropped
  to \<open>done/\<close> exactly when it is authentic but not for us, and rejected to
  \<open>error/\<close> in every other case.\<close>

theorem entry_verdict_spec:
  "(classify_validated_entry C i env body secret allowed gate adv = EntryRun event \<longleftrightarrow>
      authentic C i env body secret allowed \<and> env_event env = ''workflow_job''
      \<and> faithful_body C env body event \<and> ev_action event = ''queued''
      \<and> labels_acceptable gate adv (job_labels (ev_job event)))
   \<and> ((\<exists>r. classify_validated_entry C i env body secret allowed gate adv = EntryDrop r) \<longleftrightarrow>
      authentic C i env body secret allowed \<and>
      (env_event env \<noteq> ''workflow_job'' \<or>
       (\<exists>ev. faithful_body C env body ev \<and>
             \<not> (ev_action ev = ''queued'' \<and> labels_acceptable gate adv (job_labels (ev_job ev))))))
   \<and> ((\<exists>r. classify_validated_entry C i env body secret allowed gate adv = EntryReject r) \<longleftrightarrow>
      \<not> authentic C i env body secret allowed \<or>
      (env_event env = ''workflow_job'' \<and> \<not> (\<exists>ev. faithful_body C env body ev)))"
  using classify_Drop_iff [of C i env body secret allowed gate adv]
    classify_Reject_iff [of C i env body secret allowed gate adv]
    classify_Run_iff [of C i env body secret allowed gate adv event]
  by (simp add: label_verdict_cases faithful_body_def conj_assoc)

theorem entry_verdict_spec_witness:
  "authentic toy_crates 7 toy_envelope ''B'' ''key'' {''o/r''}
   \<and> faithful_body toy_crates toy_envelope ''B'' toy_event
   \<and> labels_acceptable ''lima-nix'' {''lima-nix''} (job_labels (ev_job toy_event))
   \<and> \<not> authentic toy_crates 8 toy_envelope ''B'' ''key'' {''o/r''}"
proof -
  have run: "classify_validated_entry toy_crates 7 toy_envelope ''B'' ''key'' {''o/r''} ''lima-nix''
      {''lima-nix''} = EntryRun toy_event" by code_simp
  have rej: "\<exists>r. classify_validated_entry toy_crates 8 toy_envelope ''B'' ''key'' {''o/r''} ''lima-nix''
      {''lima-nix''} = EntryReject r"
    by (rule exI [of _ "FilenameIdMismatch 8 7"]) code_simp
  have "\<exists>ev. faithful_body toy_crates toy_envelope ''B'' ev"
    using entry_verdict_spec run by blast
  then show ?thesis using entry_verdict_spec run rej by blast
qed

lemma labels_acceptable_lower:
  "labels_acceptable gate adv labels \<longleftrightarrow>
   to_ascii_lowercase gate \<in> to_ascii_lowercase ` set labels
   \<and> to_ascii_lowercase ` set labels \<subseteq> to_ascii_lowercase ` adv"
proof -
  have "(\<exists>l \<in> set labels. to_ascii_lowercase l = to_ascii_lowercase gate)
      \<longleftrightarrow> to_ascii_lowercase gate \<in> to_ascii_lowercase ` set labels"
    by (metis (no_types, opaque_lifting) image_iff)
  moreover have "(\<forall>l \<in> set labels. \<exists>a \<in> adv. to_ascii_lowercase a = to_ascii_lowercase l)
      \<longleftrightarrow> to_ascii_lowercase ` set labels \<subseteq> to_ascii_lowercase ` adv"
    by (simp add: image_subset_iff image_iff eq_commute)
  ultimately show ?thesis by (simp add: labels_acceptable_def eq_ignore_ascii_case_def)
qed

text \<open>The label policy does not depend on ASCII case: relabelling the job, the gate and the
  advertised set in other case gives the same decision.\<close>

theorem labels_case_insensitive:
  assumes "to_ascii_lowercase gate = to_ascii_lowercase gate'"
    and "to_ascii_lowercase ` set labels = to_ascii_lowercase ` set labels'"
    and "to_ascii_lowercase ` adv = to_ascii_lowercase ` adv'"
  shows "classify_job_labels labels gate adv = Accept \<longleftrightarrow> classify_job_labels labels' gate' adv' = Accept"
  using assms by (simp add: label_verdict_cases labels_acceptable_lower)

theorem labels_case_insensitive_witness:
  "classify_job_labels [''Self-Hosted'', ''LIMA-nix''] ''lima-nix'' {''self-hosted'', ''lima-nix''} = Accept
   \<longleftrightarrow> classify_job_labels [''self-hosted'', ''lima-nix''] ''lima-nix'' {''self-hosted'', ''lima-nix''} = Accept"
  by (rule labels_case_insensitive) code_simp+

text \<open>A file whose name holds no id stays where it is.\<close>

lemma unparsable_name_stays:
  "parse_spool_filename name = None \<Longrightarrow> prepare C s name cfg secret allowed adv fs = (Skip, fs)"
  by (simp add: prepare_def)

lemma prepare_RunD:
  assumes "prepare C s name cfg secret allowed adv fs = (Run cur_path delivery event, fs')"
  obtains i env body where "name = canonical_name i" "try_claim s name fs = (Inr (Some cur_path), fs')"
    "read_spool_file C cur_path fs' = Inr (env, body)" "delivery = env_delivery env"
    "classify_validated_entry C i env body secret allowed (runner_label cfg) adv = EntryRun event"
proof -
  from assms obtain i where i: "parse_spool_filename name = Some i"
    by (auto simp: prepare_def split: option.splits)
  obtain c f1 where c: "try_claim s name fs = (c, f1)" by fastforce
  from assms i c obtain p where p: "c = Inr (Some p)"
    by (auto simp: prepare_def split: sum.splits option.splits)
  with assms i c have n: "name = canonical_name i"
    by (auto simp: prepare_def Let_def split: if_splits)
  from assms i c p n obtain env body where "read_spool_file C p f1 = Inr (env, body)"
    by (cases "read_spool_file C p f1") (auto simp: prepare_def Let_def)
  with assms i c p n that show ?thesis
    by (auto simp: prepare_def Let_def split: entry_verdict.splits)
qed

text \<open>C4: What \<open>prepare\<close> hands to a VM came from exactly one file: the delivered entry is
  now the claim under its canonical name, its bytes are one envelope line and a body whose HMAC
  verifies, and the job's VM name is the one of the file name's id.\<close>

theorem prepared_run_is_the_delivery:
  assumes "prepare C s name cfg secret allowed adv fs = (Run cur_path delivery event, fs')"
  shows "\<exists>i f line body. name = canonical_name i \<and> cur_path = cur_path_of s name
       \<and> get fs (new_path s name) = Some f \<and> ikind f = Regular
       \<and> idata f = line @ CHR 0x0A # body \<and> length (idata f) \<le> MAX_FILE_BYTES
       \<and> length line \<le> MAX_ENVELOPE_BYTES
       \<and> (\<exists>env. json_envelope C line = Inr env \<and> authentic C i env body secret allowed
               \<and> faithful_body C env body event)
       \<and> vm_name_for_event event = vm_name i
       \<and> present fs' cur_path \<and> \<not> present fs' (new_path s name)"
proof -
  from assms obtain i env body where p: "name = canonical_name i"
    "try_claim s name fs = (Inr (Some cur_path), fs')"
    "read_spool_file C cur_path fs' = Inr (env, body)"
    "classify_validated_entry C i env body secret allowed (runner_label cfg) adv = EntryRun event"
    by (rule prepare_RunD)
  from try_claim_inner_took [OF p(2) [unfolded try_claim_def]] obtain f j where
    t: "cur_path = cur_path_of s name" "get fs' (new_path s name) = None"
      "get fs (new_path s name) = Some f" "get fs' cur_path = Some j" "idata j = idata f" "ikind j = ikind f"
    by auto
  from read_spool_file_InrD [OF p(3)] t(4) obtain line where
    l: "ikind j = Regular" "idata j = line @ CHR 0x0A # body" "length line \<le> MAX_ENVELOPE_BYTES"
      "length (idata j) \<le> MAX_FILE_BYTES" "json_envelope C line = Inr env" by auto
  from p(4) have "authentic C i env body secret allowed \<and> faithful_body C env body event
      \<and> vm_name_for_event event = vm_name i"
    by (auto simp: classify_Run_iff faithful_body_def authentic_def body_matches_def vm_name_for_event_def)
  with p(1) t l show ?thesis
    by (intro exI [of _ i] exI [of _ f] exI [of _ line] exI [of _ body] conjI)
       (simp_all add: present_def)
qed

definition toy_config :: config where
  "toy_config = \<lparr>spool_dir = [''spool''], state_dir = [''/'', ''state''], app_id = 1,
     app_private_key_file = [''/'', ''app.pem''], webhook_secret = Some ''key'', webhook_secret_file = None,
     allowed_repos = [''o/r''], org = ''o'', runner_label = ''lima-nix'',
     runner_labels = default_runner_labels, max_concurrency = 4,
     lima_template = [''/'', ''state'', ''lima-template.yaml''], limactl_path = [''/'', ''limactl''],
     gc_interval_secs = 300, job_max_runtime_secs = 21600, dispatch_deadline_secs = 300,
     dispatch_poll_secs = 20, archive_retention_secs = 172800, serial_log_retention_secs = 1209600,
     api_timeout_secs = 60, api_url = ''https://api.github.com'', insecure_allow_http_api = False,
     control_addr = None, reconcile_enabled = True, reconcile_interval_secs = 60,
     job_completion_check = True, cache_warm_enabled = False, nix_bin = None,
     warm_cache_base = None, mac_cache_dir = None, warm_tools_dir = None,
     warm_cache_key_name = ''gha-mac-cache-1'', warm_max_concurrency = 1,
     warm_coalesce_ttl_secs = 600, warm_timeout_secs = 1800,
     warm_substituters = [], warm_trusted_public_keys = []\<rparr>"

definition toy_delivery :: fsys where
  "toy_delivery = calm_fs [(new_path demo_spool ''7.job'', plain_file ([CHR ''E'', CHR 0x0A, CHR ''B'']) 5)] 90"

lemma toy_delivery_runs:
  "\<exists>fs'. prepare toy_crates demo_spool ''7.job'' toy_config ''key'' {''o/r''} {''self-hosted'', ''lima-nix''} toy_delivery
     = (Run (cur_path_of demo_spool ''7.job'') (env_delivery toy_envelope) toy_event, fs')"
proof -
  let ?new = "new_path demo_spool ''7.job''" and ?cur = "cur_path_of demo_spool ''7.job''"
  obtain fs' where c: "try_claim demo_spool ''7.job'' toy_delivery = (Inr (Some ?cur), fs')"
  proof
    have "fst (try_claim demo_spool ''7.job'' toy_delivery) = Inr (Some ?cur)" by code_simp
    then show "try_claim demo_spool ''7.job'' toy_delivery
        = (Inr (Some ?cur), snd (try_claim demo_spool ''7.job'' toy_delivery))"
      by (simp add: prod_eq_iff)
  qed
  have g: "get toy_delivery ?new = Some (plain_file ([CHR ''E'', CHR 0x0A, CHR ''B'']) 5)"
    by (simp add: toy_delivery_def calm_fs_def get_def)
  have f: "fault toy_delivery = (\<lambda>_ _. None)" by (simp add: toy_delivery_def calm_fs_def)
  from try_claim_inner_fresh [OF c [unfolded try_claim_def] g] f
  have cur: "get fs' ?cur = Some (plain_file ([CHR ''E'', CHR 0x0A, CHR ''B'']) 90)"
    by (simp add: plain_file_def toy_delivery_def calm_fs_def)
  have "fs' = snd (try_claim demo_spool ''7.job'' toy_delivery)" using c by simp
  then have f': "fault fs' = (\<lambda>_ _. None)"
    using fault_claim_take [of demo_spool "''7.job''" toy_delivery] f
    by (simp add: try_claim_def try_claim_inner_halves)
  have r: "read_spool_file toy_crates ?cur fs' = Inr (toy_envelope, ''B'')"
    by (rule read_spool_file_written [OF cur, where line = "''E''"])
       (simp_all add: f' plain_file_def toy_crates_def MAX_ENVELOPE_BYTES_def MAX_FILE_BYTES_def)
  have v: "classify_validated_entry toy_crates 7 toy_envelope ''B'' ''key'' {''o/r''} ''lima-nix''
      {''self-hosted'', ''lima-nix''} = EntryRun toy_event"
    by code_simp
  have n: "canonical_name 7 = ''7.job''" by code_simp
  have n': "parse_spool_filename ''7.job'' = Some 7" unfolding n [symmetric] by (rule parse_canonical_name)
  have "prepare toy_crates demo_spool ''7.job'' toy_config ''key'' {''o/r''} {''self-hosted'', ''lima-nix''}
      toy_delivery = (Run ?cur (env_delivery toy_envelope) toy_event, fs')"
    using n n' v by (simp add: prepare_def c r toy_config_def)
  then show ?thesis by blast
qed

theorem prepared_run_is_the_delivery_witness:
  "\<not> present (snd (prepare toy_crates demo_spool ''7.job'' toy_config ''key'' {''o/r''}
       {''self-hosted'', ''lima-nix''} toy_delivery)) (new_path demo_spool ''7.job'')"
  using toy_delivery_runs prepared_run_is_the_delivery by fastforce


definition empty_fs :: fsys where
  "empty_fs = calm_fs [] 90"


end
