(* ===== verification/Gc_Image.thy ===== *)
theory Gc_Image
  imports Rust_Text
begin

text \<open>
  Which guest image a Lima YAML names (\<open>gc.rs\<close>: \<open>parse_image_identity\<close> and its
  helpers) and when a booted image is stale.
\<close>

record image_identity =
  location :: string
  digest :: "string option"

section \<open>Scalars\<close>

text \<open>
  The loop of \<open>strip_inline_comment\<close>: \<open>pre\<close> is the part before the cursor,
  \<open>quote\<close> the open quote.
\<close>

definition is_quote :: "char \<Rightarrow> bool" where
  "is_quote c \<longleftrightarrow> c = CHR 0x22 \<or> c = CHR 0x27"

definition comment_may_start :: "string \<Rightarrow> bool" where
  "comment_may_start pre \<longleftrightarrow>
     pre = [] \<or> last pre = CHR '' '' \<or> last pre = CHR 0x09 \<or> is_quote (last pre)"

fun strip_comment_from :: "string \<Rightarrow> char option \<Rightarrow> string \<Rightarrow> string" where
  "strip_comment_from pre q [] = pre"
| "strip_comment_from pre (Some q) (b # bs) =
     strip_comment_from (pre @ [b]) (if b = q then None else Some q) bs"
| "strip_comment_from pre None (b # bs) =
     (if is_quote b then strip_comment_from (pre @ [b]) (Some b) bs
      else if b = CHR ''#'' \<and> comment_may_start pre then trim_end pre
      else strip_comment_from (pre @ [b]) None bs)"

definition strip_inline_comment :: "string \<Rightarrow> string" where
  "strip_inline_comment v = strip_comment_from [] None v"

definition strip_quotes :: "string \<Rightarrow> string \<Rightarrow> string option" where
  "strip_quotes q v = (case strip_prefix v q of None \<Rightarrow> None | Some w \<Rightarrow> strip_suffix w q)"

definition normalize_yaml_value :: "string \<Rightarrow> string option" where
  "normalize_yaml_value value =
     (let v = trim (strip_inline_comment value);
          v = trim (case strip_quotes [CHR 0x22] v of
                      Some w \<Rightarrow> w
                    | None \<Rightarrow> (case strip_quotes [CHR 0x27] v of Some w \<Rightarrow> w | None \<Rightarrow> v))
      in if v = [] then None
         else (let after_scheme = last (split_str ''://'' [] v)
               in if after_scheme = [] then None else Some after_scheme))"

section \<open>Lines\<close>

definition is_top_level_key_line :: "string \<Rightarrow> bool" where
  "is_top_level_key_line line =
     (case line of
        [] \<Rightarrow> False
      | b # _ \<Rightarrow> \<not> (b = CHR '' '' \<or> b = CHR 0x09 \<or> b = CHR ''-'' \<or> b = CHR ''#''))"

definition is_top_level_key :: "string \<Rightarrow> string \<Rightarrow> bool" where
  "is_top_level_key line key =
     (if \<not> is_top_level_key_line line then False
      else (case strip_prefix line key of None \<Rightarrow> False | Some rest \<Rightarrow> starts_with rest '':''))"

text \<open>The three phases, each a loop over the remaining lines.\<close>

fun skip_to_images :: "string list \<Rightarrow> string list option" where
  "skip_to_images [] = None"
| "skip_to_images (l # ls) = (if is_top_level_key l ''images'' then Some ls else skip_to_images ls)"

definition strip_dash :: "string \<Rightarrow> string" where
  "strip_dash t = (case strip_prefix t ''- '' of Some rest \<Rightarrow> trim_start rest | None \<Rightarrow> t)"

fun find_location :: "string list \<Rightarrow> (string \<times> string list) option" where
  "find_location [] = None"
| "find_location (l # ls) =
     (if is_top_level_key_line l then None
      else (case strip_prefix (strip_dash (trim l)) ''location:'' of
              None \<Rightarrow> find_location ls
            | Some value \<Rightarrow>
                (case normalize_yaml_value value of
                   Some norm \<Rightarrow> Some (norm, ls)
                 | None \<Rightarrow> find_location ls)))"

fun find_digest :: "string list \<Rightarrow> string option" where
  "find_digest [] = None"
| "find_digest (l # ls) =
     (if is_top_level_key_line l then None
      else (let t = trim l in
            if starts_with t ''- '' \<or> starts_with t ''location:'' then None
            else (case strip_prefix t ''digest:'' of
                    Some value \<Rightarrow> normalize_yaml_value value
                  | None \<Rightarrow> find_digest ls)))"

definition parse_image_identity :: "string \<Rightarrow> image_identity option" where
  "parse_image_identity yaml =
     (case skip_to_images (str_lines yaml) of
        None \<Rightarrow> None
      | Some block \<Rightarrow>
          (case find_location block of
             None \<Rightarrow> None
           | Some (loc, rest) \<Rightarrow> Some \<lparr>location = loc, digest = find_digest rest\<rparr>))"

definition is_stale_image :: "image_identity \<Rightarrow> image_identity \<Rightarrow> bool" where
  "is_stale_image vm_image current_image =
     (if location vm_image \<noteq> location current_image then True
      else (case (digest vm_image, digest current_image) of
              (Some a, Some b) \<Rightarrow> a \<noteq> b
            | _ \<Rightarrow> False))"

section \<open>Facts\<close>

lemma skip_to_images_prefix:
  "list_all (\<lambda>l. \<not> is_top_level_key l ''images'') pre \<Longrightarrow>
   skip_to_images (pre @ ls) = skip_to_images ls"
  by (induction pre) auto

lemma strip_comment_from_plain:
  "list_all (\<lambda>c. \<not> is_quote c \<and> c \<noteq> CHR ''#'') v \<Longrightarrow>
   strip_comment_from pre None (v @ w) = strip_comment_from (pre @ v) None w"
  by (induction v arbitrary: pre) auto

lemma strip_comment_from_quoted:
  "q \<notin> set v \<Longrightarrow> strip_comment_from pre (Some q) (v @ q # w) = strip_comment_from (pre @ v @ [q]) None w"
  by (induction v arbitrary: pre) auto

lemma is_stale_image_irrefl [simp]: "\<not> is_stale_image i i"
  by (simp add: is_stale_image_def split: option.split)

section \<open>Decoration does not matter\<close>

text \<open>An ASCII scalar without white space, quotes or comment marks.\<close>

definition plain_char :: "char \<Rightarrow> bool" where
  "plain_char c \<longleftrightarrow> 32 < byte c \<and> byte c < 127 \<and> \<not> is_quote c \<and> c \<noteq> CHR ''#''"

definition plain_scalar :: "string \<Rightarrow> bool" where
  "plain_scalar v \<longleftrightarrow> v \<noteq> [] \<and> list_all plain_char v"

definition comment_tail :: "string \<Rightarrow> bool" where
  "comment_tail c \<longleftrightarrow> c = [] \<or> starts_with c '' #''"

definition quoting :: "string \<Rightarrow> bool" where
  "quoting q \<longleftrightarrow> q \<in> {[], [CHR 0x22], [CHR 0x27]}"

lemma ascii_not_whitespace: "32 < byte c \<Longrightarrow> byte c < 128 \<Longrightarrow> \<not> is_whitespace [c]"
  by (simp add: is_whitespace_def)

lemma dropWhile_not: "v \<noteq> [] \<Longrightarrow> \<not> P (hd v) \<Longrightarrow> dropWhile P v = v"
  by (cases v) simp_all

lemma trim_solid:
  assumes "list_all (\<lambda>c. 32 < byte c \<and> byte c < 128) v"
  shows "trim v = v" "trim (CHR '' '' # v) = v" "trim_end v = v" "trim_end (CHR '' '' # v) = (if v = [] then [] else CHR '' '' # v)"
    "trim_end (CHR '' '' # v @ '' '') = (if v = [] then [] else CHR '' '' # v)"
proof -
  have a: "is_ascii_string v" "is_ascii_string (CHR '' '' # v)" "is_ascii_string (CHR '' '' # v @ '' '')"
    using assms by (auto simp: is_ascii_string_def list_all_iff)
  have sp: "is_whitespace '' ''" by (simp add: is_whitespace_def)
  have "dropWhile is_whitespace (map (\<lambda>c. [c]) v) = map (\<lambda>c. [c]) v"
    using assms by (cases v) (simp_all add: ascii_not_whitespace)
  moreover have "dropWhile is_whitespace (rev (map (\<lambda>c. [c]) v)) = rev (map (\<lambda>c. [c]) v)"
    using assms by (cases v rule: rev_cases) (simp_all add: ascii_not_whitespace)
  ultimately have f: "dropWhile is_whitespace (map (\<lambda>c. [c]) v) = map (\<lambda>c. [c]) v"
    "dropWhile is_whitespace (rev (map (\<lambda>c. [c]) v)) = rev (map (\<lambda>c. [c]) v)" by blast+
  have c: "concat (map (\<lambda>c. [c]) v) = v" by (induction v) simp_all
  show "trim v = v" "trim (CHR '' '' # v) = v" "trim_end v = v"
    using a sp f c
    by (simp_all add: trim_def trim_end_def utf8_chars_ascii del: utf8_chars.simps)
  have g: "v \<noteq> [] \<Longrightarrow> dropWhile is_whitespace (rev (map (\<lambda>c. [c]) v) @ xs) = rev (map (\<lambda>c. [c]) v) @ xs" for xs
    using assms by (cases v rule: rev_cases) (simp_all add: ascii_not_whitespace)
  show "trim_end (CHR '' '' # v) = (if v = [] then [] else CHR '' '' # v)"
    "trim_end (CHR '' '' # v @ '' '') = (if v = [] then [] else CHR '' '' # v)"
    using a sp c g [of "['' '']"]
    by (auto simp: trim_end_def utf8_chars_ascii simp del: utf8_chars.simps)
qed

lemma plain_solid: "list_all plain_char v \<Longrightarrow> list_all (\<lambda>c. 32 < byte c \<and> byte c < 128) v"
  by (erule list.pred_mono_strong) (simp add: plain_char_def)

lemma quoted_solid:
  assumes "list_all plain_char v" and "quoting q"
  shows "list_all (\<lambda>c. 32 < byte c \<and> byte c < 128) (q @ v @ q)"
  using plain_solid [OF assms(1)] assms(2) by (auto simp: quoting_def simp del: list_all_iff)

lemma starts_with_spaceD: "starts_with c '' #'' \<Longrightarrow> \<exists>t. c = CHR '' '' # CHR ''#'' # t"
  by (auto simp: starts_with_iff)

text \<open>The comment is cut off whatever the quoting.\<close>

lemma strip_comment_decorated:
  assumes "plain_scalar v" and "quoting q" and "comment_tail c"
  shows "trim (strip_inline_comment (CHR '' '' # q @ v @ q @ c)) = q @ v @ q"
proof -
  have v: "list_all (\<lambda>c. \<not> is_quote c \<and> c \<noteq> CHR ''#'') v"
    using assms(1) by (auto simp: plain_scalar_def list_all_iff plain_char_def)
  have sp: "\<not> is_quote (CHR '' '')" by (simp add: is_quote_def)
  have body: "strip_inline_comment (CHR '' '' # q @ v @ q @ c)
      = strip_comment_from (CHR '' '' # q @ v @ q) None c"
  proof (cases "q = []")
    case True
    with strip_comment_from_plain [OF v, of "'' ''" c] sp show ?thesis
      by (simp add: strip_inline_comment_def)
  next
    case False
    with assms(2) obtain k where k: "q = [k]" "is_quote k" by (auto simp: quoting_def is_quote_def)
    with v have "k \<notin> set v" by (auto simp: list_all_iff)
    with strip_comment_from_quoted [of k v "'' '' @ [k]" c] k sp show ?thesis
      by (simp add: strip_inline_comment_def)
  qed
  have solid: "list_all (\<lambda>c. 32 < byte c \<and> byte c < 128) (q @ v @ q)"
    using quoted_solid [OF _ assms(2), of v] assms(1) by (simp add: plain_scalar_def)
  have ne: "q @ v @ q \<noteq> []" using assms(1) by (simp add: plain_scalar_def)
  show ?thesis
  proof (cases "c = []")
    case True
    with body trim_solid(2) [OF solid] show ?thesis by simp
  next
    case False
    with assms(3) obtain t where c: "c = CHR '' '' # CHR ''#'' # t"
      by (auto simp: comment_tail_def dest: starts_with_spaceD)
    have "strip_comment_from (CHR '' '' # q @ v @ q) None c = trim_end (CHR '' '' # (q @ v @ q) @ '' '')"
      using sp by (simp add: c comment_may_start_def is_quote_def)
    also have "\<dots> = CHR '' '' # q @ v @ q" using trim_solid(5) [OF solid] ne by auto
    finally show ?thesis using body trim_solid(2) [OF solid] by simp
  qed
qed

lemma normalize_decorated:
  assumes "plain_scalar v" and "quoting q" and "comment_tail c"
  shows "normalize_yaml_value (CHR '' '' # q @ v @ q @ c)
       = (let s = last (split_str ''://'' [] v) in if s = [] then None else Some s)"
proof -
  have v: "list_all plain_char v" "v \<noteq> []" using assms(1) by (simp_all add: plain_scalar_def)
  have un: "(case strip_quotes [CHR 0x22] (q @ v @ q) of Some w \<Rightarrow> w
      | None \<Rightarrow> (case strip_quotes [CHR 0x27] (q @ v @ q) of Some w \<Rightarrow> w | None \<Rightarrow> q @ v @ q)) = v"
  proof (cases "q = []")
    case True
    from v obtain a w where vw: "v = a # w" "plain_char a" by (cases v) auto
    then have "a \<noteq> CHR 0x22" "a \<noteq> CHR 0x27" by (auto simp: plain_char_def is_quote_def)
    with vw True show ?thesis by (simp add: strip_quotes_def strip_prefix_def starts_with_def)
  next
    case False
    with assms(2) have q: "q = [CHR 0x22] \<or> q = [CHR 0x27]" by (simp add: quoting_def)
    have "strip_quotes q (q @ v @ q) = Some v" by (simp add: strip_quotes_def)
    moreover have "strip_quotes [CHR 0x22] ([CHR 0x27] @ w) = None" for w
      by (simp add: strip_quotes_def strip_prefix_def starts_with_def)
    ultimately show ?thesis using q by auto
  qed
  have "trim v = v" using plain_solid [OF v(1)] by (rule trim_solid)
  with v(2) un strip_comment_decorated [OF assms] show ?thesis
    by (simp add: normalize_yaml_value_def Let_def)
qed

definition location_line :: "string \<Rightarrow> string option" where
  "location_line l =
     (if is_top_level_key_line l then None else strip_prefix (strip_dash (trim l)) ''location:'')"

lemma find_location_skip:
  "list_all (\<lambda>l. \<not> is_top_level_key_line l \<and> location_line l = None) mid \<Longrightarrow>
   find_location (mid @ ls) = find_location ls"
  by (induction mid) (auto simp: location_line_def)

text \<open>The identity of an instance's image is read from the first \<open>location:\<close> of the
  top-level \<open>images:\<close> block and from nowhere else, and neither quotes nor an inline comment
  nor what precedes the block changes it: a template and its realised copy that differ only so are
  never seen as stale.\<close>

theorem image_identity_ignores_decoration:
  assumes "str_lines yaml = pre @ (''images:'' @ x) # mid @ line # rest"
    and "list_all (\<lambda>l. \<not> is_top_level_key l ''images'') pre"
    and "list_all (\<lambda>l. \<not> is_top_level_key_line l \<and> location_line l = None) mid"
    and "location_line line = Some (CHR '' '' # q @ v @ q @ c)"
    and "plain_scalar v" and "quoting q" and "comment_tail c"
    and "last (split_str ''://'' [] v) \<noteq> []"
  shows "parse_image_identity yaml
       = Some \<lparr>location = last (split_str ''://'' [] v), digest = find_digest rest\<rparr>"
proof -
  have "is_top_level_key (''images:'' @ x) ''images''"
    by (simp add: is_top_level_key_def is_top_level_key_line_def strip_prefix_def starts_with_def)
  with skip_to_images_prefix [OF assms(2)] assms(1)
  have 1: "skip_to_images (str_lines yaml) = Some (mid @ line # rest)" by simp
  have "find_location (line # rest) = Some (last (split_str ''://'' [] v), rest)"
    using assms(4) normalize_decorated [OF assms(5-7)] assms(8)
    by (auto simp: location_line_def Let_def split: if_splits)
  with 1 find_location_skip [OF assms(3)] show ?thesis by (simp add: parse_image_identity_def)
qed

theorem image_identity_ignores_decoration_witness:
  "parse_image_identity (''mounts:'' @ [CHR 0x0A] @ ''- location: other'' @ [CHR 0x0A] @ ''images:''
       @ [CHR 0x0A] @ ''- location: '' @ [CHR 0x22] @ ''file:///a.raw'' @ [CHR 0x22] @ '' # pinned'')
   = Some \<lparr>location = ''/a.raw'', digest = None\<rparr>"
proof -
  let ?y = "''mounts:'' @ [CHR 0x0A] @ ''- location: other'' @ [CHR 0x0A] @ ''images:''
       @ [CHR 0x0A] @ ''- location: '' @ [CHR 0x22] @ ''file:///a.raw'' @ [CHR 0x22] @ '' # pinned''"
  let ?l = "''- location: '' @ [CHR 0x22] @ ''file:///a.raw'' @ [CHR 0x22] @ '' # pinned''"
  have 1: "str_lines ?y = [''mounts:'', ''- location: other''] @ (''images:'' @ []) # [] @ ?l # []" by code_simp
  have 2: "list_all (\<lambda>l. \<not> is_top_level_key l ''images'') [''mounts:'', ''- location: other'']" by code_simp
  have 3: "list_all (\<lambda>l. \<not> is_top_level_key_line l \<and> location_line l = None) []" by simp
  have 4: "location_line ?l
      = Some (CHR '' '' # [CHR 0x22] @ ''file:///a.raw'' @ [CHR 0x22] @ '' # pinned'')" by code_simp
  have 5: "plain_scalar ''file:///a.raw''" "quoting [CHR 0x22]" "comment_tail '' # pinned''" by code_simp+
  have 6: "last (split_str ''://'' [] ''file:///a.raw'') = ''/a.raw''" by code_simp
  then have 7: "last (split_str ''://'' [] ''file:///a.raw'') \<noteq> []" by simp
  from image_identity_ignores_decoration [OF 1 2 3 4 5 7] show ?thesis unfolding 6 by simp
qed

end
