(* ===== verification/Gc_Plan.thy ===== *)
theory Gc_Plan
  imports Supervisor_Policy Gc_Image
begin

text \<open>
  The decisions of the garbage collector (\<open>gc.rs\<close>): the live set read from \<open>cur/\<close>,
  and the pure plans for VMs, startup claims and runners.  A \<open>HashMap\<close> is the association
  list of its entries in iteration order.
\<close>

section \<open>The live set\<close>

definition claim_entry :: "path \<Rightarrow> fsys \<Rightarrow> string \<Rightarrow> u64 option" where
  "claim_entry cur fs name =
     (if \<not> valid_utf8 name then None
      else (case parse_spool_filename name of
              None \<Rightarrow> None
            | Some i \<Rightarrow>
                (case fault fs OpEntryType (join cur name) of
                   Some _ \<Rightarrow> Some i
                 | None \<Rightarrow>
                     if map_option ikind (get fs (join cur name)) \<noteq> Some Regular then None else Some i)))"

definition add_claim :: "path \<Rightarrow> fsys \<Rightarrow> string \<Rightarrow> (string \<times> path) list \<Rightarrow> (string \<times> path) list" where
  "add_claim cur fs name out =
     (case claim_entry cur fs name of
        None \<Rightarrow> out
      | Some i \<Rightarrow> AList.update (vm_name i) (join cur name) out)"

definition live_vm_map_from_cur :: "path \<Rightarrow> fsys \<Rightarrow> (string \<times> path) list res" where
  "live_vm_map_from_cur cur fs =
     (case sys_read_dir cur fs of
        Inl e \<Rightarrow> Inl (IoErr e)
      | Inr (names, Some e) \<Rightarrow> Inl (IoErr e)
      | Inr (names, None) \<Rightarrow> Inr (fold (add_claim cur fs) names []))"

definition live_vm_names_from_cur :: "path \<Rightarrow> fsys \<Rightarrow> string set res" where
  "live_vm_names_from_cur cur fs =
     (case live_vm_map_from_cur cur fs of
        Inl e \<Rightarrow> Inl e
      | Inr m \<Rightarrow> Inr (set (map fst m)))"

text \<open>The ids claimed in \<open>cur/\<close>, and when it can be listed to the end.\<close>

definition claimed_ids :: "path \<Rightarrow> fsys \<Rightarrow> u64 set" where
  "claimed_ids cur fs = {i. \<exists>n. get fs (join cur n) \<noteq> None \<and> claim_entry cur fs n = Some i}"

definition readable_dir :: "path \<Rightarrow> fsys \<Rightarrow> bool" where
  "readable_dir d fs \<longleftrightarrow> fault fs OpReadDir d = None \<and> fault fs OpNextEntry d = None"

lemma fold_add_claim_dom:
  "fst ` set (fold (add_claim cur fs) names m)
     = vm_name ` {i. \<exists>n \<in> set names. claim_entry cur fs n = Some i} \<union> fst ` set m"
proof (induction names arbitrary: m)
  case (Cons n ns)
  have "fst ` set (add_claim cur fs n m)
      = vm_name ` {i. claim_entry cur fs n = Some i} \<union> fst ` set m"
    by (auto simp: add_claim_def dom_update split: option.split)
  with Cons show ?case by auto
qed simp

lemma fold_add_claim_path:
  "map_of (fold (add_claim cur fs) names m) (vm_name i) = Some p \<Longrightarrow>
   map_of m (vm_name i) = Some p \<or> (\<exists>n \<in> set names. claim_entry cur fs n = Some i \<and> p = join cur n)"
proof (induction names arbitrary: m)
  case (Cons n ns)
  from Cons.IH [of "add_claim cur fs n m"] Cons.prems show ?case
    by (auto simp: add_claim_def split: option.splits if_splits)
qed simp

lemma live_map_cases:
  shows "live_vm_map_from_cur cur fs = Inr m \<Longrightarrow>
           readable_dir cur fs \<and> fst ` set m = vm_name ` claimed_ids cur fs"
    and "live_vm_map_from_cur cur fs = Inl e \<Longrightarrow> \<not> readable_dir cur fs"
proof -
  assume "live_vm_map_from_cur cur fs = Inr m"
  then have r: "readable_dir cur fs" "m = fold (add_claim cur fs) (children cur fs) []"
    by (auto simp: live_vm_map_from_cur_def sys_read_dir_def readable_dir_def split: option.splits)
  then show "readable_dir cur fs \<and> fst ` set m = vm_name ` claimed_ids cur fs"
    by (simp add: fold_add_claim_dom set_children claimed_ids_def)
qed (auto simp: live_vm_map_from_cur_def sys_read_dir_def readable_dir_def split: option.splits)

lemma live_map_readable:
  "readable_dir cur fs \<Longrightarrow> \<exists>m. live_vm_map_from_cur cur fs = Inr m"
  by (simp add: live_vm_map_from_cur_def sys_read_dir_def readable_dir_def)

lemma live_map_path:
  assumes "live_vm_map_from_cur cur fs = Inr m" and "map_of m (vm_name i) = Some p"
  shows "\<exists>n. p = join cur n \<and> get fs p \<noteq> None \<and> claim_entry cur fs n = Some i"
proof -
  have m: "m = fold (add_claim cur fs) (children cur fs) []"
    using assms(1) by (auto simp: live_vm_map_from_cur_def sys_read_dir_def split: option.splits)
  from fold_add_claim_path [OF assms(2) [unfolded m]] show ?thesis by (auto simp: set_children)
qed

section \<open>Virtual machines\<close>

record managed_vm =
  vm_id :: string
  vm_image :: "image_identity option"

datatype vm_reap = Orphan string | StaleImage string path string

fun plan_vm_reaps ::
    "managed_vm list \<Rightarrow> (string \<times> path) list option \<Rightarrow> image_identity option \<Rightarrow> vm_reap list" where
  "plan_vm_reaps managed None current = []"
| "plan_vm_reaps [] (Some live) current = []"
| "plan_vm_reaps (vm # vms) (Some live) current =
     (case map_of live (vm_id vm) of
        None \<Rightarrow> [Orphan (vm_id vm)]
      | Some cur_path \<Rightarrow>
          (case (current, vm_image vm) of
             (Some cur, Some img) \<Rightarrow>
               if is_stale_image img cur then [StaleImage (vm_id vm) cur_path (location img)] else []
           | _ \<Rightarrow> []))
     @ plan_vm_reaps vms (Some live) current"

text \<open>The plan is one decision per VM.\<close>

definition vm_decision ::
    "(string \<times> path) list \<Rightarrow> image_identity option \<Rightarrow> managed_vm \<Rightarrow> vm_reap list" where
  "vm_decision live current vm = plan_vm_reaps [vm] (Some live) current"

lemma plan_vm_reaps_decisions:
  "x \<in> set (plan_vm_reaps managed (Some m) current) \<longleftrightarrow>
   (\<exists>vm \<in> set managed. x \<in> set (vm_decision m current vm))"
  by (induction managed) (auto simp: vm_decision_def)

lemma vm_decision_Orphan:
  "Orphan n \<in> set (vm_decision m current vm) \<longleftrightarrow> vm_id vm = n \<and> n \<notin> fst ` set m"
proof (cases "map_of m (vm_id vm)")
  case None
  moreover from None have "vm_id vm \<notin> fst ` set m" by (simp add: map_of_eq_None_iff)
  ultimately show ?thesis by (auto simp: vm_decision_def)
next
  case (Some p)
  then have "vm_id vm \<in> fst ` set m" by (metis map_of_eq_None_iff option.distinct(1))
  with Some show ?thesis by (auto simp: vm_decision_def split: option.split)
qed

lemma vm_decision_Stale:
  "StaleImage n p loc \<in> set (vm_decision m current vm) \<longleftrightarrow>
   vm_id vm = n \<and> map_of m n = Some p \<and>
   (\<exists>cur img. current = Some cur \<and> vm_image vm = Some img \<and> is_stale_image img cur \<and> loc = location img)"
  by (cases "map_of m (vm_id vm)"; cases current; cases "vm_image vm") (auto simp: vm_decision_def)

lemma plan_vm_reaps_Orphan:
  "Orphan n \<in> set (plan_vm_reaps managed live current) \<longleftrightarrow>
   (\<exists>m vm. live = Some m \<and> vm \<in> set managed \<and> vm_id vm = n \<and> n \<notin> fst ` set m)"
  by (cases live) (auto simp: plan_vm_reaps_decisions vm_decision_Orphan)

lemma plan_vm_reaps_Stale:
  "StaleImage n p loc \<in> set (plan_vm_reaps managed live current) \<longleftrightarrow>
   (\<exists>m vm cur img. live = Some m \<and> vm \<in> set managed \<and> vm_id vm = n \<and> map_of m n = Some p
      \<and> current = Some cur \<and> vm_image vm = Some img \<and> is_stale_image img cur \<and> loc = location img)"
  by (cases live) (auto simp: plan_vm_reaps_decisions vm_decision_Stale)

section \<open>Claims left by a dead predecessor\<close>

datatype startup_finalize_reason = ReapedVm | NoVm

definition message :: "startup_finalize_reason \<Rightarrow> string" where
  "message r =
     (case r of
        ReapedVm \<Rightarrow> ''startup: reaped orphan VM (fresh consumer cannot re-adopt)''
      | NoVm \<Rightarrow> ''startup: claim had no live VM (crashed between claim and VM creation); reconciler will re-mint'')"

fun plan_startup_claim_finalizes ::
    "(string \<times> path) list \<Rightarrow> string set \<Rightarrow> string set \<Rightarrow> (path \<times> startup_finalize_reason) list" where
  "plan_startup_claim_finalizes [] listed failed = []"
| "plan_startup_claim_finalizes ((vm, cur_path) # claims) listed failed =
     (if vm \<in> failed then plan_startup_claim_finalizes claims listed failed
      else (cur_path, if vm \<in> listed then ReapedVm else NoVm)
             # plan_startup_claim_finalizes claims listed failed)"

lemma plan_startup_map:
  "plan_startup_claim_finalizes claims listed failed =
     map (\<lambda>(vm, p). (p, if vm \<in> listed then ReapedVm else NoVm)) (filter (\<lambda>(vm, _). vm \<notin> failed) claims)"
  by (induction claims) auto

section \<open>Runners\<close>

definition plan_runner_reaps :: "runner list \<Rightarrow> string set option \<Rightarrow> runner list" where
  "plan_runner_reaps runners live =
     (case live of
        None \<Rightarrow> []
      | Some names \<Rightarrow>
          filter (\<lambda>r. is_managed_vm_name (runner_name r) \<and> runner_name r \<notin> names
                     \<and> (runner_state r = ''offline'' \<or> \<not> runner_busy r)) runners)"

text \<open>\<open>between\<close> is what other tasks do after the list response and before \<open>cur/\<close> is read.\<close>

definition plan_runner_reaps_from_cur_inner ::
    "path \<Rightarrow> runner list \<Rightarrow> string set \<Rightarrow> (fsys \<Rightarrow> fsys) \<Rightarrow> fsys \<Rightarrow> runner list" where
  "plan_runner_reaps_from_cur_inner cur runners reaped_stale between fs =
     (let live = (case live_vm_names_from_cur cur (between fs) of
                    Inr names \<Rightarrow> Some (names - reaped_stale)
                  | Inl e \<Rightarrow> None)
      in plan_runner_reaps runners live)"

definition plan_runner_reaps_from_cur ::
    "path \<Rightarrow> runner list \<Rightarrow> string set \<Rightarrow> fsys \<Rightarrow> runner list" where
  "plan_runner_reaps_from_cur cur runners reaped_stale fs =
     plan_runner_reaps_from_cur_inner cur runners reaped_stale (\<lambda>fs. fs) fs"

definition runner_can_serve :: "runner \<Rightarrow> bool" where
  "runner_can_serve r \<longleftrightarrow> runner_state r = ''online'' \<and> \<not> runner_busy r"

definition should_mint :: "string \<Rightarrow> string set \<Rightarrow> string set \<Rightarrow> bool" where
  "should_mint vm live idle \<longleftrightarrow> vm \<notin> live \<and> vm \<notin> idle"

definition build_event :: "string \<Rightarrow> job_status \<Rightarrow> workflow_job" where
  "build_event fname job =
     \<lparr>ev_action = ''queued'',
      ev_job = \<lparr>job_id = js_id job, job_run_id = js_run_id job, job_run_attempt = js_run_attempt job,
                job_head_branch = None, job_head_sha = None, job_name = js_name job,
                job_labels = js_labels job\<rparr>,
      ev_repository = \<lparr>repository_id = js_repo_id job, full_name = fname\<rparr>\<rparr>"

section \<open>Properties\<close>


definition toy_vm :: "u64 \<Rightarrow> managed_vm" where
  "toy_vm i = \<lparr>vm_id = vm_name i, vm_image = None\<rparr>"


text \<open>C14: A runner is reaped exactly when it has a managed name, is not executing a job, and no
  claim backs it at the moment \<open>cur/\<close> is read, which is after the runner list was obtained:
  whatever other tasks claimed in between keeps its runner, unless its VM was destroyed in this
  sweep, and an unreadable \<open>cur/\<close> reaps nothing.\<close>

theorem runner_reaps_race_free:
  "r \<in> set (plan_runner_reaps_from_cur_inner cur runners reaped between fs) \<longleftrightarrow>
   r \<in> set runners \<and> readable_dir cur (between fs)
   \<and> (\<exists>i. runner_name r = vm_name i
        \<and> (i \<notin> claimed_ids cur (between fs) \<or> vm_name i \<in> reaped))
   \<and> (runner_state r = ''offline'' \<or> \<not> runner_busy r)"
proof (cases "live_vm_map_from_cur cur (between fs)")
  case (Inl e)
  with live_map_cases(2) [OF Inl] show ?thesis
    by (simp add: plan_runner_reaps_from_cur_inner_def live_vm_names_from_cur_def plan_runner_reaps_def)
next
  case (Inr m)
  from live_map_cases(1) [OF Inr] have l: "readable_dir cur (between fs)"
    "live_vm_names_from_cur cur (between fs) = Inr (vm_name ` claimed_ids cur (between fs))"
    using Inr by (simp_all add: live_vm_names_from_cur_def)
  have "is_managed_vm_name n \<and> n \<notin> vm_name ` claimed_ids cur (between fs) - reaped \<longleftrightarrow>
      (\<exists>i. n = vm_name i \<and> (i \<notin> claimed_ids cur (between fs) \<or> vm_name i \<in> reaped))" for n
    using vm_names.unprotected_iff [of n "claimed_ids cur (between fs)"] vm_names.recognised_iff [of n]
    by auto
  with l show ?thesis
    by (auto simp: plan_runner_reaps_from_cur_inner_def plan_runner_reaps_def)
qed

definition toy_runner :: runner where
  "toy_runner = \<lparr>runner_id = 4, runner_name = vm_name 9, runner_state = ''offline'', runner_busy = False\<rparr>"

theorem runner_reaps_race_free_witness:
  "toy_runner \<in> set (plan_runner_reaps_from_cur_inner (cur_dir demo_spool) [toy_runner] {} (\<lambda>f. f) empty_fs)
   \<and> toy_runner \<notin> set (plan_runner_reaps_from_cur_inner (cur_dir demo_spool) [toy_runner] {}
       (\<lambda>f. put (join (cur_dir demo_spool) (canonical_name 9)) (plain_file [] 1) f) empty_fs)"
proof -
  let ?f = "put (join (cur_dir demo_spool) (canonical_name 9)) (plain_file [] 1) empty_fs"
  have e: "claimed_ids (cur_dir demo_spool) empty_fs = {}" "readable_dir (cur_dir demo_spool) empty_fs"
    by (simp_all add: claimed_ids_def empty_fs_def calm_fs_def get_def readable_dir_def)
  have "valid_utf8 (canonical_name 9)" by code_simp
  then have "claim_entry (cur_dir demo_spool) ?f (canonical_name 9) = Some 9"
    by (simp add: claim_entry_def empty_fs_def calm_fs_def plain_file_def)
  then have "9 \<in> claimed_ids (cur_dir demo_spool) ?f"
    unfolding claimed_ids_def by (intro CollectI exI [of _ "canonical_name 9"]) simp
  with e show ?thesis unfolding runner_reaps_race_free by (simp add: toy_runner_def)
qed

text \<open>At startup every claim of the dead predecessor is finalised, with the reason that tells
  whether its VM existed, except those whose VM could not be deleted.\<close>

theorem startup_finalizes_all_but_failed:
  "(p, r) \<in> set (plan_startup_claim_finalizes claims listed failed) \<longleftrightarrow>
   (\<exists>vm. (vm, p) \<in> set claims \<and> vm \<notin> failed \<and> r = (if vm \<in> listed then ReapedVm else NoVm))"
  by (force simp: plan_startup_map)

end
