(* ===== verification/World.thy ===== *)
theory World
  imports Spool Config_Types
begin

text \<open>
  The world the asynchronous parts run in: the disk (with the clock), what the GitHub client caches,
  and the rest of the machine as a type of its own.  \<open>limactl\<close> and the HTTP client are not part
  of the repository: they are services, arguments of every definition that uses them.  A service acts
  on the whole world, so whatever other tasks do while the program awaits an answer is in it;
  \<open>sleep\<close> is a pause of so many nanoseconds and \<open>preempt\<close> what other threads do where the
  code reckons with them.  For a command that runs while the program watches it,
  \<open>shell_or_tick argv deadline period\<close> waits for its end or for the next tick of an interval,
  whichever is first, \<open>shell_now\<close> tells whether it has ended, \<open>shell_wait\<close> waits for its end
  only; \<open>uptime\<close> is the monotonic clock in nanoseconds.  \<open>paused\<close> is the pause flag, \<open>permits\<close> the free permits of the
  concurrency semaphore, \<open>spawned\<close> the jobs handed to worker tasks.
\<close>

section \<open>Services\<close>

record http_request =
  rq_method :: string
  rq_url :: string
  rq_headers :: "(string \<times> string) list"
  rq_bearer :: string
  rq_body :: "json option"

record http_response =
  rs_status :: nat
  rs_body :: "string + bytes"

text \<open>
  How a child process ends: not spawned, not waited for, still running at the deadline (it is killed
  then), or with an exit code, stdout and stderr.
\<close>

datatype cmd_result =
  SpawnFailed string
| WaitFailed string
| TimedOut
| Exited int bytes bytes

record cached_token =
  token_text :: string
  valid_until :: systime

record cached_branch =
  branch_name :: string
  branch_valid_until :: systime

record 'e world =
  disk :: fsys
  cached_installation :: "u64 option"
  cached_token_slot :: "cached_token option"
  cached_branches :: "(string \<times> cached_branch) list"
  paused :: bool
  permits :: nat
  spawned :: "(workflow_job \<times> path) list"
  machine :: 'e

record 'e services =
  the_crates :: crates
  http_send :: "http_request \<Rightarrow> 'e world \<Rightarrow> (string + http_response) \<times> 'e world"
  limactl :: "string list \<Rightarrow> nat \<Rightarrow> 'e world \<Rightarrow> cmd_result \<times> 'e world"
  sleep :: "nat \<Rightarrow> 'e world \<Rightarrow> 'e world"
  preempt :: "'e world \<Rightarrow> 'e world"
  shell_or_tick :: "string list \<Rightarrow> nat \<Rightarrow> nat \<Rightarrow> 'e world \<Rightarrow> cmd_result option \<times> 'e world"
  shell_now :: "string list \<Rightarrow> 'e world \<Rightarrow> cmd_result option"
  shell_wait :: "string list \<Rightarrow> nat \<Rightarrow> 'e world \<Rightarrow> cmd_result \<times> 'e world"
  uptime :: "'e world \<Rightarrow> nat"

definition now :: "'e world \<Rightarrow> systime" where
  "now w = clock (disk w)"

definition on_disk :: "(fsys \<Rightarrow> 'a \<times> fsys) \<Rightarrow> 'e world \<Rightarrow> 'a \<times> 'e world" where
  "on_disk f w = (case f (disk w) of (r, d) \<Rightarrow> (r, w\<lparr>disk := d\<rparr>))"

lemma on_disk_simps [simp]:
  "fst (on_disk f w) = fst (f (disk w))"
  "disk (snd (on_disk f w)) = snd (f (disk w))"
  "cached_token_slot (snd (on_disk f w)) = cached_token_slot w"
  "paused (snd (on_disk f w)) = paused w" "permits (snd (on_disk f w)) = permits w"
  "spawned (snd (on_disk f w)) = spawned w"
  "machine (snd (on_disk f w)) = machine w"
  by (simp_all add: on_disk_def case_prod_beta)

section \<open>The \<open>?\<close> operator\<close>

definition bind_res ::
    "('w \<Rightarrow> 'a res \<times> 'w) \<Rightarrow> ('a \<Rightarrow> 'w \<Rightarrow> 'b res \<times> 'w) \<Rightarrow> 'w \<Rightarrow> 'b res \<times> 'w" where
  "bind_res m f w = (case m w of (Inl e, w') \<Rightarrow> (Inl e, w') | (Inr x, w') \<Rightarrow> f x w')"

lemma bind_res_Inr:
  "bind_res m f w = (Inr y, w') \<longleftrightarrow> (\<exists>x w1. m w = (Inr x, w1) \<and> f x w1 = (Inr y, w'))"
  by (auto simp: bind_res_def split: prod.split sum.split)

section \<open>Reading a whole file\<close>

text \<open>\<open>fs::read_to_string\<close>: through links, and an error unless the bytes are UTF-8.\<close>

definition read_to_string :: "path \<Rightarrow> fsys \<Rightarrow> io_kind + string" where
  "read_to_string p fs =
     (case fault fs OpOpen p of
        Some e \<Rightarrow> Inl e
      | None \<Rightarrow>
          (case follow 40 fs p of
             Inl e \<Rightarrow> Inl e
           | Inr i \<Rightarrow>
               if ikind i = Directory then Inl (OtherIo 21)
               else (case fault fs OpRead p of
                       Some e \<Rightarrow> Inl e
                     | None \<Rightarrow> if valid_utf8 (idata i) then Inr (idata i) else Inl (OtherIo 84))))"

section \<open>Paths as text\<close>

definition path_text :: "path \<Rightarrow> string" where
  "path_text p =
     (case p of
        [] \<Rightarrow> []
      | r # cs \<Rightarrow>
          if r = ''/'' then ''/'' @ concat (map (\<lambda>(i, c). if i = 0 then c else ''/'' @ c) (enumerate 0 cs))
          else r @ concat (map (\<lambda>c. ''/'' @ c) cs))"

definition path_of_text :: "string \<Rightarrow> path" where
  "path_of_text s =
     (let cs = filter (\<lambda>c. c \<noteq> []) (split_char (CHR ''/'') s)
      in if starts_with s ''/'' then ''/'' # filter (\<lambda>c. c \<noteq> ''.'') cs
         else (case cs of [] \<Rightarrow> [] | c # cs' \<Rightarrow> c # filter (\<lambda>c. c \<noteq> ''.'') cs'))"

definition is_absolute :: "path \<Rightarrow> bool" where
  "is_absolute p \<longleftrightarrow> p \<noteq> [] \<and> hd p = ''/''"

section \<open>A world for concrete runs\<close>

text \<open>Crates that decode little, no network, a \<open>limactl\<close> that does nothing.\<close>

definition toy_services :: "string list services" where
  "toy_services = \<lparr>the_crates = \<lparr>hmac_sha256 = (\<lambda>_ _. []), hex_encode = id, hex_decode = Some,
       json_vec = (\<lambda>_. Inr []), json_envelope = (\<lambda>_. Inl []), json_event = (\<lambda>_. Inl []),
       json_value = (\<lambda>b. Inr (JObj [(''name'', JStr b)])),
       json_runner = (\<lambda>_. Inl []), json_runners = (\<lambda>_. Inr []), json_jit_config = (\<lambda>_. Inl []),
       json_job_status = (\<lambda>_. Inl []), json_runs = (\<lambda>_. Inr []), json_run_jobs = (\<lambda>_. Inr []),
       json_repo_info = (\<lambda>_. Inr []), json_branch_info = (\<lambda>_. Inr []),
       json_installation = (\<lambda>_. Inr 5), json_token = Inr, rsa_key_from_pem = Inr,
       jwt_rs256 = (\<lambda>_ _ _ _. Inr ''jwt'')\<rparr>,
     http_send = (\<lambda>_ w. (Inl ''offline'', w)), limactl = (\<lambda>_ _ w. (Exited 0 [] [], w)), sleep = (\<lambda>_ w. w), preempt = (\<lambda>w. w),
     shell_or_tick = (\<lambda>_ _ _ w. (Some (Exited 0 [] []), w)), shell_now = (\<lambda>_ _. None),
     shell_wait = (\<lambda>_ _ w. (Exited 0 [] [], w)), uptime = (\<lambda>_. 0)\<rparr>"

definition toy_world :: "string list \<Rightarrow> string list world" where
  "toy_world vms = \<lparr>disk = \<lparr>nodes = [], clock = 0, euid = 0, fault = (\<lambda>_ _. None), cut = (\<lambda>_. 0)\<rparr>,
     cached_installation = None, cached_token_slot = None, cached_branches = [], paused = False, permits = 4, spawned = [], machine = vms\<rparr>"

end
