(* ===== verification/Lima.thy ===== *)
theory Lima
  imports World
begin

text \<open>
  The wrapper around \<open>limactl\<close> (\<open>lima/mod.rs\<close>).  Every call is a call of the service with
  the argument vector after the binary and the deadline in seconds.
\<close>

section \<open>Deadlines\<close>

definition START_TIMEOUT :: nat where "START_TIMEOUT = 300"
definition STOP_TIMEOUT :: nat where "STOP_TIMEOUT = 60"
definition DELETE_TIMEOUT :: nat where "DELETE_TIMEOUT = 60"
definition COPY_TIMEOUT :: nat where "COPY_TIMEOUT = 60"
definition LIST_TIMEOUT :: nat where "LIST_TIMEOUT = 30"

definition VM_PER_JOB_COMMAND_BUDGET :: nat where
  "VM_PER_JOB_COMMAND_BUDGET =
     START_TIMEOUT + COPY_TIMEOUT + STOP_TIMEOUT + DELETE_TIMEOUT + 2 * LIST_TIMEOUT"

section \<open>Commands\<close>

definition run_with_timeout ::
    "'e services \<Rightarrow> string list \<Rightarrow> nat \<Rightarrow> string \<Rightarrow> 'e world \<Rightarrow> int res \<times> 'e world" where
  "run_with_timeout S argv deadline what w =
     (case limactl S argv deadline w of
        (SpawnFailed e, w1) \<Rightarrow> (Inl (Ctx (''spawn '' @ what) (Msg e)), w1)
      | (Exited status _ _, w1) \<Rightarrow> (Inr status, w1)
      | (WaitFailed e, w1) \<Rightarrow> (Inl (Ctx (''wait '' @ what) (Msg e)), w1)
      | (TimedOut, w1) \<Rightarrow> (Inl (Msg (what @ '' timed out'')), w1))"

definition lima_start :: "'e services \<Rightarrow> string \<Rightarrow> path \<Rightarrow> 'e world \<Rightarrow> unit res \<times> 'e world" where
  "lima_start S name template w =
     (case run_with_timeout S [''start'', ''--tty=false'', ''--name'', name, path_text template]
             START_TIMEOUT ''limactl start'' w of
        (Inl e, w1) \<Rightarrow> (Inl e, w1)
      | (Inr status, w1) \<Rightarrow>
          (if status \<noteq> 0 then Inl (Msg (''limactl start '' @ name @ '' exited'')) else Inr (), w1))"

definition copy_into ::
    "'e services \<Rightarrow> string \<Rightarrow> path \<Rightarrow> string \<Rightarrow> 'e world \<Rightarrow> unit res \<times> 'e world" where
  "copy_into S name host_path vm_path w =
     (let dest = name @ '':'' @ vm_path in
      case run_with_timeout S [''copy'', path_text host_path, dest] COPY_TIMEOUT ''limactl copy'' w of
        (Inl e, w1) \<Rightarrow> (Inl e, w1)
      | (Inr status, w1) \<Rightarrow>
          (if status \<noteq> 0 then Inl (Msg (''limactl copy -> '' @ dest @ '' exited'')) else Inr (), w1))"

definition lima_shell ::
    "'e services \<Rightarrow> string \<Rightarrow> string list \<Rightarrow> nat \<Rightarrow> 'e world \<Rightarrow> int res \<times> 'e world" where
  "lima_shell S name cmd deadline w =
     run_with_timeout S ([''shell'', name, ''--''] @ cmd) deadline ''limactl shell'' w"

definition lima_stop :: "'e services \<Rightarrow> string \<Rightarrow> 'e world \<Rightarrow> unit res \<times> 'e world" where
  "lima_stop S name w =
     (case run_with_timeout S [''stop'', ''--force'', name] STOP_TIMEOUT ''limactl stop'' w of
        (Inl e, w1) \<Rightarrow> (Inl e, w1)
      | (Inr _, w1) \<Rightarrow> (Inr (), w1))"

section \<open>Listing\<close>

record lima_instance =
  li_name :: string
  li_dir :: "path option"
  li_status :: "string option"

text \<open>\<open>serde_json::Value::get\<close> and \<open>as_str\<close>.\<close>

definition json_get :: "json \<Rightarrow> string \<Rightarrow> json option" where
  "json_get v k = (case v of JObj kvs \<Rightarrow> map_of kvs k | _ \<Rightarrow> None)"

definition json_str :: "json option \<Rightarrow> string option" where
  "json_str v = (case v of Some (JStr s) \<Rightarrow> Some s | _ \<Rightarrow> None)"

definition parse_list_line :: "crates \<Rightarrow> bytes \<Rightarrow> lima_instance list" where
  "parse_list_line C line =
     (if line = [] then []
      else (case json_value C line of
              Inl _ \<Rightarrow> []
            | Inr v \<Rightarrow>
                (case json_str (json_get v ''name'') of
                   None \<Rightarrow> []
                 | Some name \<Rightarrow>
                     [\<lparr>li_name = name,
                       li_dir = map_option path_of_text (json_str (json_get v ''dir'')),
                       li_status = json_str (json_get v ''status'')\<rparr>])))"

definition parse_list_json :: "crates \<Rightarrow> bytes \<Rightarrow> lima_instance list" where
  "parse_list_json C stdout = concat (map (parse_list_line C) (split_char (CHR 0x0A) stdout))"

definition list_instances_detailed ::
    "'e services \<Rightarrow> 'e world \<Rightarrow> lima_instance list res \<times> 'e world" where
  "list_instances_detailed S w =
     (case limactl S [''list'', ''--json''] LIST_TIMEOUT w of
        (SpawnFailed e, w1) \<Rightarrow> (Inl (Ctx ''spawn limactl list'' (Msg e)), w1)
      | (TimedOut, w1) \<Rightarrow> (Inl (Msg ''limactl list timed out''), w1)
      | (WaitFailed e, w1) \<Rightarrow> (Inl (Ctx ''wait limactl list'' (Msg e)), w1)
      | (Exited status out stderr, w1) \<Rightarrow>
          (if status \<noteq> 0
           then Inl (Msg (''limactl list exited: '' @ trim (from_utf8_lossy stderr)))
           else Inr (parse_list_json (the_crates S) out), w1))"

definition list_instances ::
    "'e services \<Rightarrow> 'e world \<Rightarrow> (string \<times> path option) list res \<times> 'e world" where
  "list_instances S w =
     (case list_instances_detailed S w of
        (Inl e, w1) \<Rightarrow> (Inl e, w1)
      | (Inr is, w1) \<Rightarrow> (Inr (map (\<lambda>i. (li_name i, li_dir i)) is), w1))"

definition instance_exists :: "'e services \<Rightarrow> string \<Rightarrow> 'e world \<Rightarrow> bool res \<times> 'e world" where
  "instance_exists S name w =
     (case list_instances S w of
        (Inl e, w1) \<Rightarrow> (Inl (Ctx (''re-list to confirm delete of '' @ name) e), w1)
      | (Inr is, w1) \<Rightarrow> (Inr (list_ex (\<lambda>(n, _). n = name) is), w1))"

section \<open>The reap gate\<close>

definition lima_delete :: "'e services \<Rightarrow> string \<Rightarrow> 'e world \<Rightarrow> unit res \<times> 'e world" where
  "lima_delete S name w =
     (case run_with_timeout S [''delete'', ''--force'', name] DELETE_TIMEOUT ''limactl delete'' w of
        (Inr status, w1) \<Rightarrow>
          if status = 0 then (Inr (), w1)
          else (case instance_exists S name w1 of
                  (Inl e, w2) \<Rightarrow> (Inl e, w2)
                | (Inr still, w2) \<Rightarrow>
                    (if still then Inl (Msg (''limactl delete '' @ name @ '' exited and it still exists''))
                     else Inr (), w2))
      | (Inl e, w1) \<Rightarrow>
          (case instance_exists S name w1 of
             (Inl e', w2) \<Rightarrow> (Inl e', w2)
           | (Inr still, w2) \<Rightarrow>
               (if still then Inl (Ctx (''limactl delete '' @ name @ '' failed and it still exists'') e)
                else Inr (), w2)))"

section \<open>The serial console\<close>

definition read_file_tail :: "path \<Rightarrow> nat \<Rightarrow> fsys \<Rightarrow> string option res" where
  "read_file_tail p max_bytes fs =
     (case sys_open_nofollow p fs of
        Inl NotFound \<Rightarrow> Inr None
      | Inl e \<Rightarrow> Inl (Ctx ''open'' (IoErr e))
      | Inr f \<Rightarrow>
          (case sys_fstat p f fs of
             Inl e \<Rightarrow> Inl (Ctx ''fstat'' (IoErr e))
           | Inr md \<Rightarrow>
               if ikind md \<noteq> Regular then Inr None
               else (let len = length (idata md) in
                     case sys_read p f fs of
                       Inl e \<Rightarrow> Inl (Ctx ''read'' (IoErr e))
                     | Inr content \<Rightarrow>
                         (let rest = (if len > max_bytes then drop (len - max_bytes) content else content)
                          in Inr (Some (from_utf8_lossy (take max_bytes rest)))))))"

fun first_tail :: "path \<Rightarrow> nat \<Rightarrow> string list \<Rightarrow> fsys \<Rightarrow> string option" where
  "first_tail dir max_bytes [] fs = None"
| "first_tail dir max_bytes (fname # fnames) fs =
     (case read_file_tail (join dir fname) max_bytes fs of
        Inr (Some tail) \<Rightarrow> Some tail
      | Inr None \<Rightarrow> first_tail dir max_bytes fnames fs
      | Inl _ \<Rightarrow> first_tail dir max_bytes fnames fs)"

definition serial_log_tail ::
    "'e services \<Rightarrow> string \<Rightarrow> nat \<Rightarrow> 'e world \<Rightarrow> string option res \<times> 'e world" where
  "serial_log_tail S name max_bytes w =
     (case list_instances S w of
        (Inl e, w1) \<Rightarrow> (Inl (Ctx ''list instances to locate serial console'' e), w1)
      | (Inr is, w1) \<Rightarrow>
          (case List.find (\<lambda>(n, _). n = name) is of
             Some (_, Some dir) \<Rightarrow>
               (Inr (first_tail dir max_bytes [''serialv.log'', ''serial.log''] (disk w1)), w1)
           | _ \<Rightarrow> (Inr None, w1)))"

section \<open>Facts\<close>

lemma list_instances_Inr:
  assumes "list_instances S w = (Inr xs, w1)"
  shows "\<exists>out err. limactl S [''list'', ''--json''] LIST_TIMEOUT w = (Exited 0 out err, w1)
       \<and> map fst xs = map li_name (parse_list_json (the_crates S) out)"
  using assms
  by (auto simp: list_instances_def list_instances_detailed_def comp_def
      split: prod.splits sum.splits cmd_result.splits if_splits)

lemma instance_exists_Inr:
  assumes "instance_exists S name w = (Inr still, w1)"
  shows "\<exists>out err. limactl S [''list'', ''--json''] LIST_TIMEOUT w = (Exited 0 out err, w1)
       \<and> (still \<longleftrightarrow> name \<in> li_name ` set (parse_list_json (the_crates S) out))"
proof -
  from assms obtain xs where xs: "list_instances S w = (Inr xs, w1)"
    "still \<longleftrightarrow> list_ex (\<lambda>(n, _). n = name) xs"
    by (auto simp: instance_exists_def split: prod.splits sum.splits)
  have e: "list_ex (\<lambda>(n, _). n = name) xs \<longleftrightarrow> name \<in> set (map fst xs)"
    by (force simp: list_ex_iff)
  from list_instances_Inr [OF xs(1)] obtain out err where
    l: "limactl S [''list'', ''--json''] LIST_TIMEOUT w = (Exited 0 out err, w1)"
    "map fst xs = map li_name (parse_list_json (the_crates S) out)" by blast
  show ?thesis
    by (rule exI [of _ out], rule exI [of _ err]) (use l(1) xs(2) e in \<open>simp add: l(2) del: map_map\<close>)
qed

text \<open>
  What \<open>limactl\<close> documents: a clean exit of \<open>delete --force\<close> means the instance is gone, and
  a clean exit of \<open>list --json\<close> prints one line per present instance.  \<open>has_vm\<close> tells whether
  the machine has the instance.
\<close>

definition delete_truthful ::
    "'e services \<Rightarrow> (string \<Rightarrow> 'e world \<Rightarrow> bool) \<Rightarrow> string \<Rightarrow> 'e world \<Rightarrow> bool" where
  "delete_truthful S has_vm name w \<longleftrightarrow>
     (case limactl S [''delete'', ''--force'', name] DELETE_TIMEOUT w of
        (Exited c _ _, w1) \<Rightarrow> c = 0 \<longrightarrow> \<not> has_vm name w1
      | _ \<Rightarrow> True)"

definition list_truthful ::
    "'e services \<Rightarrow> (string \<Rightarrow> 'e world \<Rightarrow> bool) \<Rightarrow> string \<Rightarrow> 'e world \<Rightarrow> bool" where
  "list_truthful S has_vm name w \<longleftrightarrow>
     (case limactl S [''list'', ''--json''] LIST_TIMEOUT w of
        (Exited c out _, w1) \<Rightarrow>
          c = 0 \<longrightarrow> (name \<in> li_name ` set (parse_list_json (the_crates S) out) \<longleftrightarrow> has_vm name w1)
      | _ \<Rightarrow> True)"

lemma instance_exists_truthful:
  assumes "instance_exists S name w = (Inr still, w1)" and "list_truthful S has_vm name w"
  shows "still \<longleftrightarrow> has_vm name w1"
  using instance_exists_Inr [OF assms(1)] assms(2) by (auto simp: list_truthful_def)

text \<open>The two ways a delete ends: a clean exit, or the answer of the presence check.\<close>

lemma lima_delete_cases:
  obtains (clean) out err w1 where "limactl S [''delete'', ''--force'', name] DELETE_TIMEOUT w = (Exited 0 out err, w1)"
      "lima_delete S name w = (Inr (), w1)"
  | (checked) still w1 w2 e where "snd (limactl S [''delete'', ''--force'', name] DELETE_TIMEOUT w) = w1"
      "instance_exists S name w1 = (Inr still, w2)"
      "lima_delete S name w = (if still then Inl e else Inr (), w2)"
  | (unknown) e w1 w2 where "snd (limactl S [''delete'', ''--force'', name] DELETE_TIMEOUT w) = w1"
      "instance_exists S name w1 = (Inl e, w2)" "lima_delete S name w = (Inl e, w2)"
proof -
  obtain r w1 where r: "limactl S [''delete'', ''--force'', name] DELETE_TIMEOUT w = (r, w1)" by fastforce
  obtain x w2 where x: "instance_exists S name w1 = (x, w2)" by fastforce
  show ?thesis
  proof (cases "\<exists>out err. r = Exited 0 out err")
    case True
    with r show ?thesis by (auto intro: clean simp: lima_delete_def run_with_timeout_def)
  next
    case False
    show ?thesis
    proof (cases x)
      case (Inl e)
      with r x False show ?thesis
        by (intro unknown [of w1 e w2]) (cases r; simp add: lima_delete_def run_with_timeout_def)+
    next
      case (Inr still)
      with r x False have "\<exists>e. lima_delete S name w = (if still then Inl e else Inr (), w2)"
        by (cases r; cases still) (auto simp: lima_delete_def run_with_timeout_def)
      with r x Inr show ?thesis by (auto intro: checked)
    qed
  qed
qed

lemma lima_delete_gone:
  assumes "delete_truthful S has_vm name w"
    and "list_truthful S has_vm name (snd (limactl S [''delete'', ''--force'', name] DELETE_TIMEOUT w))"
    and "fst (lima_delete S name w) = Inr ()"
  shows "\<not> has_vm name (snd (lima_delete S name w))"
proof (cases rule: lima_delete_cases [of S name w])
  case (clean out err w1)
  with assms(1) show ?thesis by (simp add: delete_truthful_def)
next
  case (checked still w1 w2 e')
  with instance_exists_truthful [OF checked(2)] assms(2,3) show ?thesis by auto
next
  case (unknown e' w1 w2)
  with assms(3) show ?thesis by simp
qed

section \<open>Properties\<close>

text \<open>C28: \<open>delete\<close> is a trustworthy gate for archiving a claim: if \<open>limactl\<close> tells the
  truth, success means the VM is gone, and an error means it is still there or its presence could
  not be determined; a timeout or a failing exit of the delete itself is resolved by looking.\<close>

theorem delete_gate:
  assumes "delete_truthful S has_vm name w"
    and "list_truthful S has_vm name (snd (limactl S [''delete'', ''--force'', name] DELETE_TIMEOUT w))"
  shows "(fst (lima_delete S name w) = Inr () \<longrightarrow> \<not> has_vm name (snd (lima_delete S name w)))
       \<and> (fst (lima_delete S name w) = Inl e \<longrightarrow>
            has_vm name (snd (lima_delete S name w))
            \<or> (\<exists>e'. fst (instance_exists S name (snd (limactl S [''delete'', ''--force'', name] DELETE_TIMEOUT w))) = Inl e'))"
proof (cases rule: lima_delete_cases [of S name w])
  case (clean out err w1)
  with assms(1) show ?thesis by (simp add: delete_truthful_def)
next
  case (checked still w1 w2 e')
  with instance_exists_truthful [OF checked(2)] assms(2) show ?thesis by auto
next
  case (unknown e' w1 w2)
  then show ?thesis by simp
qed

text \<open>A machine with one instance, whose delete times out once but works.\<close>

definition toy_limactl :: "string list \<Rightarrow> nat \<Rightarrow> string list world \<Rightarrow> cmd_result \<times> string list world" where
  "toy_limactl argv deadline w =
     (if take 1 argv = [''delete''] then (TimedOut, w\<lparr>machine := removeAll (last argv) (machine w)\<rparr>)
      else if take 1 argv = [''list''] then (Exited 0 (concat (map (\<lambda>n. n @ [CHR 0x0A]) (machine w))) [], w)
      else (Exited 0 [] [], w))"

definition lima_services :: "string list services" where
  "lima_services = toy_services\<lparr>limactl := toy_limactl\<rparr>"

theorem delete_gate_witness:
  "fst (lima_delete lima_services ''gha-1'' (toy_world [''gha-1'', ''gha-2''])) = Inr ()
   \<and> ''gha-1'' \<notin> set (machine (snd (lima_delete lima_services ''gha-1'' (toy_world [''gha-1'', ''gha-2'']))))"
proof -
  let ?has = "\<lambda>n (w :: string list world). n \<in> set (machine w)"
  let ?w = "toy_world [''gha-1'', ''gha-2'']"
  have ok: "fst (lima_delete lima_services ''gha-1'' ?w) = Inr ()" by code_simp
  have "delete_truthful lima_services ?has ''gha-1'' ?w" by code_simp
  moreover have "list_truthful lima_services ?has ''gha-1''
      (snd (limactl lima_services [''delete'', ''--force'', ''gha-1''] DELETE_TIMEOUT ?w))" by code_simp
  ultimately show ?thesis using delete_gate [of lima_services ?has "''gha-1''" ?w] ok by simp
qed

end
