(* ===== verification/Gc_Prune.thy ===== *)
theory Gc_Prune
  imports Gc_Plan World Lima
begin

text \<open>
  The age-driven part of the sweep (\<open>gc.rs\<close>): when a claim is stale, moving stale claims to
  \<open>error/\<close>, and pruning archives, serial logs and JIT blobs.  The test seams of the source, what
  another task does between the first stat and the recheck, are function arguments.
\<close>

section \<open>The bound\<close>

definition GH_ROUNDTRIPS_PER_CALL :: u64 where "GH_ROUNDTRIPS_PER_CALL = 6"

definition cur_claim_max_age_secs :: "config \<Rightarrow> u64" where
  "cur_claim_max_age_secs c =
     (let gh_calls = (if job_completion_check c then 3 else 2);
          api_budget = sat_mul (sat_mul (api_timeout_secs c) GH_ROUNDTRIPS_PER_CALL) gh_calls
      in sat_add (sat_add (job_max_runtime_secs c) api_budget) (of_nat VM_PER_JOB_COMMAND_BUDGET))"

section \<open>Stale claims\<close>

definition expiry_reason :: "nat \<Rightarrow> u64 \<Rightarrow> string" where
  "expiry_reason age max_age =
     ''expired by gc: age '' @ dec age @ ''s > '' @ dec_u64 max_age @ ''s'' @ [CHR 0x0A]"

definition expire_one :: "spool \<Rightarrow> u64 \<Rightarrow> systime \<Rightarrow> string \<Rightarrow> fsys \<Rightarrow> fsys" where
  "expire_one s max_age t name fs =
     (case sys_lstat (join (cur_dir s) name) fs of
        Inl _ \<Rightarrow> fs
      | Inr md \<Rightarrow>
          (let age = age_in_secs t (imtime md) in
           if age > unat max_age
           then snd (finalize_error s (join (cur_dir s) name) (expiry_reason age max_age) fs)
           else fs))"

definition expire_stale_cur :: "spool \<Rightarrow> u64 \<Rightarrow> fsys \<Rightarrow> unit res \<times> fsys" where
  "expire_stale_cur s max_age fs =
     (case sys_read_dir (cur_dir s) fs of
        Inl e \<Rightarrow> (Inl (IoErr e), fs)
      | Inr (names, tail) \<Rightarrow>
          (case tail of None \<Rightarrow> Inr () | Some e \<Rightarrow> Inl (IoErr e),
           fold (expire_one s max_age (clock fs)) names fs))"

section \<open>Archives\<close>

text \<open>One entry of the scan: \<open>hook\<close> is the seam, spent once.\<close>

definition expired_file :: "systime \<Rightarrow> u64 \<Rightarrow> path \<Rightarrow> fsys \<Rightarrow> bool" where
  "expired_file t retention p fs \<longleftrightarrow>
     (case sys_lstat p fs of
        Inl _ \<Rightarrow> False
      | Inr md \<Rightarrow> ikind md = Regular \<and> \<not> age_in_secs t (imtime md) \<le> unat retention)"

fun prune_entries ::
    "path \<Rightarrow> systime \<Rightarrow> u64 \<Rightarrow> (fsys \<Rightarrow> fsys) option \<Rightarrow> string list \<Rightarrow> fsys \<Rightarrow> fsys" where
  "prune_entries dir t retention hook [] fs = fs"
| "prune_entries dir t retention hook (name # names) fs =
     (let p = join dir name in
      if \<not> expired_file t retention p fs then prune_entries dir t retention hook names fs
      else
        (let fs1 = (case hook of Some f \<Rightarrow> f fs | None \<Rightarrow> fs) in
         if \<not> expired_file t retention p fs1 then prune_entries dir t retention None names fs1
         else prune_entries dir t retention None names (snd (sys_unlink p fs1))))"

definition prune_archive_dir_inner :: "path \<Rightarrow> u64 \<Rightarrow> (fsys \<Rightarrow> fsys) option \<Rightarrow> fsys \<Rightarrow> fsys" where
  "prune_archive_dir_inner dir retention hook fs =
     (case sys_read_dir dir fs of
        Inl _ \<Rightarrow> fs
      | Inr (names, _) \<Rightarrow> prune_entries dir (clock fs) retention hook names fs)"

definition prune_archive_dir :: "path \<Rightarrow> u64 \<Rightarrow> fsys \<Rightarrow> fsys" where
  "prune_archive_dir dir retention fs = prune_archive_dir_inner dir retention None fs"

definition prune_old_archives :: "path \<Rightarrow> path \<Rightarrow> u64 \<Rightarrow> fsys \<Rightarrow> fsys" where
  "prune_old_archives done_d error_d retention fs =
     (if retention = 0 then fs
      else prune_archive_dir error_d retention (prune_archive_dir done_d retention fs))"

section \<open>Serial logs and JIT blobs\<close>

fun prune_serial_entries :: "path \<Rightarrow> systime \<Rightarrow> u64 \<Rightarrow> string list \<Rightarrow> fsys \<Rightarrow> fsys" where
  "prune_serial_entries dir t retention [] fs = fs"
| "prune_serial_entries dir t retention (name # names) fs =
     (if \<not> ends_with (from_utf8_lossy name) ''.serial.log'' then prune_serial_entries dir t retention names fs
      else if \<not> expired_file t retention (join dir name) fs then prune_serial_entries dir t retention names fs
      else prune_serial_entries dir t retention names (snd (sys_unlink (join dir name) fs)))"

definition prune_serial_logs :: "path \<Rightarrow> u64 \<Rightarrow> fsys \<Rightarrow> fsys" where
  "prune_serial_logs dir retention fs =
     (if retention = 0 then fs
      else (case sys_read_dir dir fs of
              Inl _ \<Rightarrow> fs
            | Inr (names, _) \<Rightarrow> prune_serial_entries dir (clock fs) retention names fs))"

definition jit_blob_expired :: "inode \<Rightarrow> u64 \<Rightarrow> fsys \<Rightarrow> bool" where
  "jit_blob_expired md max_age fs \<longleftrightarrow> age_in_secs (clock fs) (imtime md) > unat max_age"

definition stale_blob :: "u64 \<Rightarrow> path \<Rightarrow> fsys \<Rightarrow> bool" where
  "stale_blob max_age p fs \<longleftrightarrow>
     (case sys_lstat p fs of
        Inl _ \<Rightarrow> False
      | Inr md \<Rightarrow> ikind md = Regular \<and> jit_blob_expired md max_age fs)"

fun prune_blob_entries ::
    "path \<Rightarrow> u64 \<Rightarrow> (fsys \<Rightarrow> fsys) option \<Rightarrow> string list \<Rightarrow> fsys \<Rightarrow> fsys" where
  "prune_blob_entries dir max_age hook [] fs = fs"
| "prune_blob_entries dir max_age hook (name # names) fs =
     (let p = join dir name in
      if \<not> ends_with (from_utf8_lossy name) ''.jit'' then prune_blob_entries dir max_age hook names fs
      else if \<not> stale_blob max_age p fs then prune_blob_entries dir max_age hook names fs
      else
        (let fs1 = (case hook of Some f \<Rightarrow> f fs | None \<Rightarrow> fs) in
         if \<not> stale_blob max_age p fs1 then prune_blob_entries dir max_age None names fs1
         else prune_blob_entries dir max_age None names (snd (sys_unlink p fs1))))"

definition prune_stale_jit_blobs_inner :: "path \<Rightarrow> u64 \<Rightarrow> (fsys \<Rightarrow> fsys) option \<Rightarrow> fsys \<Rightarrow> fsys" where
  "prune_stale_jit_blobs_inner dir max_age hook fs =
     (case sys_read_dir dir fs of
        Inl _ \<Rightarrow> fs
      | Inr (names, _) \<Rightarrow> prune_blob_entries dir max_age hook names fs)"

definition prune_stale_jit_blobs :: "path \<Rightarrow> u64 \<Rightarrow> fsys \<Rightarrow> fsys" where
  "prune_stale_jit_blobs dir max_age fs = prune_stale_jit_blobs_inner dir max_age None fs"

section \<open>Facts\<close>

lemma unat_max_age:
  "unat (cur_claim_max_age_secs c)
     = min (unat (job_max_runtime_secs c)
            + unat (api_timeout_secs c) * 6 * (if job_completion_check c then 3 else 2) + 540)
           (2 ^ 64 - 1)"
proof -
  have b: "unat (of_nat VM_PER_JOB_COMMAND_BUDGET :: u64) = 540"
    by (simp add: VM_PER_JOB_COMMAND_BUDGET_def START_TIMEOUT_def COPY_TIMEOUT_def STOP_TIMEOUT_def
        DELETE_TIMEOUT_def LIST_TIMEOUT_def)
  have "unat (6 :: u64) = 6" "unat (3 :: u64) = 3" "unat (2 :: u64) = 2" by simp_all
  with b show ?thesis
    by (simp add: cur_claim_max_age_secs_def Let_def unat_sat_add unat_sat_mul GH_ROUNDTRIPS_PER_CALL_def
        min_def)
qed

lemma expired_file_cong:
  "get fs' p = get fs p \<Longrightarrow> fault fs' = fault fs \<Longrightarrow> expired_file t r p fs' = expired_file t r p fs"
proof -
  assume a: "get fs' p = get fs p" "fault fs' = fault fs"
  then have "sys_lstat p fs' = sys_lstat p fs" by (simp add: sys_lstat_def split: option.split)
  then show ?thesis by (simp add: expired_file_def)
qed

lemma expired_fileD:
  "expired_file t r p fs \<Longrightarrow>
   \<exists>i. get fs p = Some i \<and> ikind i = Regular \<and> unat r < age_in_secs t (imtime i)"
  by (auto simp: expired_file_def sys_lstat_def not_le split: option.splits)

text \<open>A file within the retention is never removed.\<close>

lemma prune_entries_keeps:
  "get fs p = Some i \<Longrightarrow> age_in_secs t (imtime i) \<le> unat r \<Longrightarrow>
   get (prune_entries dir t r None names fs) p = Some i"
proof (induction names arbitrary: fs)
  case (Cons n ns)
  have "get (snd (sys_unlink (join dir n) fs)) p = Some i" if "expired_file t r (join dir n) fs"
  proof -
    from expired_fileD [OF that] Cons.prems have "p \<noteq> join dir n" by auto
    with Cons.prems(1) show ?thesis by (simp add: get_unlink_other)
  qed
  with Cons show ?case by (simp add: Let_def)
qed simp

lemma prune_entries_hook:
  assumes "\<And>f. get (h f) p = Some i" and "age_in_secs t (imtime i) \<le> unat r"
  shows "prune_entries dir t r (Some h) names fs = fs
       \<or> get (prune_entries dir t r (Some h) names fs) p = Some i"
proof (induction names)
  case (Cons n ns)
  have k: "get (prune_entries dir t r None ns f) p = Some i" if "get f p = Some i" for f
    using that assms(2) by (rule prune_entries_keeps)
  have u: "get (snd (sys_unlink (join dir n) (h fs))) p = Some i"
    if "expired_file t r (join dir n) (h fs)"
  proof -
    from expired_fileD [OF that] assms have "p \<noteq> join dir n" by force
    with assms(1) show ?thesis by (simp add: get_unlink_other)
  qed
  show ?case using Cons k u assms(1) by (simp add: Let_def)
qed simp

lemma finalize_error_cur_other:
  assumes "healthy fs" and "n \<noteq> m"
  shows "get (snd (finalize_error s (cur_path_of s m) r fs)) (cur_path_of s n) = get fs (cur_path_of s n)"
proof -
  obtain f0 where f: "snd (sys_write_file (join (error_dir s) (m @ ''.err'')) r fs) = f0"
    "get f0 (cur_path_of s n) = get fs (cur_path_of s n)" "clock f0 = clock fs"
    by (rule write_file_healthy [OF assms(1), of "join (error_dir s) (m @ ''.err'')" r]) simp
  have "get (snd (archive (cur_path_of s m) (error_path s m) f0)) (cur_path_of s n) = get f0 (cur_path_of s n)"
    using assms(2) by (intro archive_frame) simp_all
  with f show ?thesis
    by (simp add: finalize_error_def Let_def case_prod_beta get_stamp_other split: sum.split bool.split)
qed

lemma finalize_error_clock [simp]: "clock (snd (finalize_error s c r fs)) = clock fs"
  by (simp add: finalize_error_def Let_def case_prod_beta split: option.split sum.split bool.split)

lemma finalize_error_healthy: "healthy fs \<Longrightarrow> healthy (snd (finalize_error s (cur_path_of s m) r fs))"
  using healthy_step [of fs s "FinError m r"] by simp

text \<open>The state of one claim during the scan.\<close>

definition claim_scan :: "spool \<Rightarrow> string \<Rightarrow> inode \<Rightarrow> u64 \<Rightarrow> systime \<Rightarrow> bool \<Rightarrow> fsys \<Rightarrow> bool" where
  "claim_scan s n i max_age t seen f \<longleftrightarrow>
     healthy f \<and> clock f = t \<and>
     (if age_in_secs t (imtime i) \<le> unat max_age then get f (cur_path_of s n) = Some i
      else if seen then get f (cur_path_of s n) = None \<and> present f (error_path s n)
      else get f (cur_path_of s n) = Some i)"

lemma claim_scan_other:
  assumes "claim_scan s n i max_age t seen f" and "m \<noteq> n"
  shows "claim_scan s n i max_age t seen (expire_one s max_age t m f)"
proof -
  from assms(1) have h: "healthy f" by (simp add: claim_scan_def)
  have "claim_scan s n i max_age t seen (snd (finalize_error s (cur_path_of s m) r f))" for r
    using assms finalize_error_cur_other [OF h, of n m s r] finalize_keeps_other(2) [OF h, of "error_path s n" s m r]
      finalize_error_healthy [OF h, of s m r]
    by (auto simp: claim_scan_def)
  with assms(1) show ?thesis by (simp add: expire_one_def Let_def split: sum.split)
qed

lemma claim_scan_self:
  assumes "claim_scan s n i max_age t seen f" and "\<not> has_nul (cur_path_of s n)" and "\<not> has_nul (root s)"
  shows "claim_scan s n i max_age t True (expire_one s max_age t n f)"
proof -
  from assms(1) have h: "healthy f" "clock f = t" by (simp_all add: claim_scan_def)
  have ls: "sys_lstat (cur_path_of s n) f = (case get f (cur_path_of s n) of None \<Rightarrow> Inl NotFound | Some i \<Rightarrow> Inr i)"
    using h(1) by (simp add: sys_lstat_def healthy_def no_faults_def)
  show ?thesis
  proof (cases "age_in_secs t (imtime i) \<le> unat max_age \<or> seen")
    case True
    with assms(1) ls show ?thesis by (auto simp: claim_scan_def expire_one_def Let_def)
  next
    case False
    with assms(1) have g: "get f (cur_path_of s n) = Some i" by (simp add: claim_scan_def)
    let ?r = "expiry_reason (age_in_secs t (imtime i)) max_age"
    from finalize_moves_state [OF h(1) g assms(2,3), of ?r] finalize_error_healthy [OF h(1), of s n ?r]
    show ?thesis using False g ls h(2) by (simp add: claim_scan_def expire_one_def Let_def present_def)
  qed
qed

lemma claim_scan_fold:
  assumes "claim_scan s n i max_age t seen f" and "\<not> has_nul (cur_path_of s n)" and "\<not> has_nul (root s)"
  shows "claim_scan s n i max_age t (seen \<or> n \<in> set names) (fold (expire_one s max_age t) names f)"
  using assms(1)
proof (induction names arbitrary: f seen)
  case (Cons m names)
  show ?case
  proof (cases "m = n")
    case True
    with claim_scan_self [OF Cons.prems assms(2,3)] Cons.IH [of True] show ?thesis by simp
  next
    case False
    with claim_scan_other [OF Cons.prems] Cons.IH [of seen] show ?thesis by auto
  qed
qed simp

text \<open>The bound in unbounded arithmetic.\<close>

definition claim_age_bound :: "config \<Rightarrow> nat" where
  "claim_age_bound c =
     min (unat (job_max_runtime_secs c)
          + unat (api_timeout_secs c) * 6 * (if job_completion_check c then 3 else 2) + 540) (2 ^ 64 - 1)"

lemma prune_entries_exact:
  assumes "no_faults fs"
  shows "get (prune_entries dir t r None names fs) q
       = (if (\<exists>n \<in> set names. q = join dir n) \<and> expired_file t r q fs then None else get fs q)"
  using assms
proof (induction names arbitrary: fs)
  case (Cons n ns)
  let ?p = "join dir n"
  show ?case
  proof (cases "expired_file t r ?p fs")
    case False
    with Cons show ?thesis by (auto simp: Let_def)
  next
    case True
    from expired_fileD [OF True] obtain i where i: "get fs ?p = Some i" "ikind i = Regular" by blast
    with Cons.prems have u: "snd (sys_unlink ?p fs) = del ?p fs"
      by (simp add: sys_unlink_def no_faults_def)
    have nf: "no_faults (del ?p fs)" using Cons.prems by (simp add: no_faults_def)
    have "expired_file t r q (del ?p fs) \<longleftrightarrow> q \<noteq> ?p \<and> expired_file t r q fs"
      using expired_file_cong [of "del ?p fs" q fs t r] expired_fileD [of t r ?p "del ?p fs"]
      by (cases "q = ?p") auto
    with Cons.IH [OF nf] True u show ?thesis by (auto simp: Let_def)
  qed
qed simp

lemma expire_scan:
  assumes "healthy fs" and "get fs (cur_path_of s n) = Some i"
    and "\<not> has_nul (cur_path_of s n)" and "\<not> has_nul (root s)"
  shows "fst (expire_stale_cur s (cur_claim_max_age_secs c) fs) = Inr ()
       \<and> unat (cur_claim_max_age_secs c) = claim_age_bound c
       \<and> claim_scan s n i (cur_claim_max_age_secs c) (clock fs) True (snd (expire_stale_cur s (cur_claim_max_age_secs c) fs))"
proof -
  let ?names = "children (cur_dir s) fs" and ?t = "clock fs" and ?m = "cur_claim_max_age_secs c"
  have nf: "no_faults fs" using assms(1) by (simp add: healthy_def)
  then have e: "expire_stale_cur s ?m fs = (Inr (), fold (expire_one s ?m ?t) ?names fs)"
    by (simp add: expire_stale_cur_def sys_read_dir_def no_faults_def)
  have "n \<in> set ?names" using assms(2) by (simp add: set_children)
  moreover have "claim_scan s n i ?m ?t False fs" using assms(1,2) by (simp add: claim_scan_def)
  ultimately have "claim_scan s n i ?m ?t True (fold (expire_one s ?m ?t) ?names fs)"
    using claim_scan_fold [OF _ assms(3,4), of i ?m ?t False fs ?names] by simp
  moreover have "unat ?m = claim_age_bound c" unfolding claim_age_bound_def by (rule unat_max_age)
  ultimately show ?thesis using e by simp
qed

section \<open>Properties\<close>

text \<open>C37: Stale expiry is exact: with the sweep's own bound a claim leaves \<open>cur/\<close> in this scan
  if and only if its age exceeds the job's runtime ceiling plus every API round trip and every
  \<open>limactl\<close> deadline around the run (saturating at the top of 64 bits); a younger claim is
  untouched, and an expired one is in \<open>error/\<close>.\<close>

theorem stale_expiry_exact:
  assumes "healthy fs" and "get fs (cur_path_of s n) = Some i"
    and "\<not> has_nul (cur_path_of s n)" and "\<not> has_nul (root s)"
  shows "fst (expire_stale_cur s (cur_claim_max_age_secs c) fs) = Inr ()
       \<and> (age_in_secs (clock fs) (imtime i) \<le> claim_age_bound c \<longrightarrow>
            get (snd (expire_stale_cur s (cur_claim_max_age_secs c) fs)) (cur_path_of s n) = Some i)
       \<and> (claim_age_bound c < age_in_secs (clock fs) (imtime i) \<longrightarrow>
            get (snd (expire_stale_cur s (cur_claim_max_age_secs c) fs)) (cur_path_of s n) = None
            \<and> present (snd (expire_stale_cur s (cur_claim_max_age_secs c) fs)) (error_path s n))"
  using expire_scan [OF assms, of c] by (auto simp: claim_scan_def split: if_splits)

theorem stale_expiry_exact_witness:
  "get (snd (expire_stale_cur demo_spool (cur_claim_max_age_secs toy_config) claimed_once))
       (cur_path_of demo_spool ''7.job'') = Some (plain_file ''x'' 90)"
proof -
  have g: "get claimed_once (cur_path_of demo_spool ''7.job'') = Some (plain_file ''x'' 90)"
    by (simp add: claimed_once_def calm_fs_def get_def)
  have n: "\<not> has_nul (cur_path_of demo_spool ''7.job'')" "\<not> has_nul (root demo_spool)" by code_simp+
  have "age_in_secs (clock claimed_once) (imtime (plain_file ''x'' 90)) \<le> claim_age_bound toy_config"
    by (simp add: claimed_once_def calm_fs_def plain_file_def)
  with stale_expiry_exact [OF healthy_demo(2) g n, of toy_config] show ?thesis by blast
qed

text \<open>A claim may be older than the runtime ceiling alone: the calls around the job have their own time.\<close>

lemma claim_outlives_runtime_ceiling:
  assumes "healthy fs" and "get fs (cur_path_of s n) = Some i" and "\<not> has_nul (cur_path_of s n)" and "\<not> has_nul (root s)"
    and "age_in_secs (clock fs) (imtime i) = unat (job_max_runtime_secs c) + 540"
    and "unat (job_max_runtime_secs c) + 540 < 2 ^ 64"
  shows "get (snd (expire_stale_cur s (cur_claim_max_age_secs c) fs)) (cur_path_of s n) = Some i"
proof -
  have "age_in_secs (clock fs) (imtime i) \<le> claim_age_bound c" using assms(5,6) by (simp add: claim_age_bound_def)
  with expire_scan [OF assms(1-4), of c] show ?thesis by (simp add: claim_scan_def)
qed

text \<open>C36: Pruning never drops a fresh replay guard: if another task re-archives a name in the window
  between the scan's stat and the recheck, the fresh marker survives the whole scan, and without such
  a race exactly the expired regular files of the directory go.\<close>

theorem prune_exact_and_race_free:
  assumes "\<And>f. get (hook f) p = Some i" and "age_in_secs (clock fs) (imtime i) \<le> unat retention"
    and "no_faults fs"
  shows "(prune_archive_dir_inner dir retention (Some hook) fs = fs
           \<or> get (prune_archive_dir_inner dir retention (Some hook) fs) p = Some i)
       \<and> get (prune_archive_dir_inner dir retention None fs) (join dir n)
           = (case get fs (join dir n) of
                None \<Rightarrow> None
              | Some j \<Rightarrow>
                  if ikind j = Regular \<and> unat retention < age_in_secs (clock fs) (imtime j) then None else Some j)"
proof
  show "prune_archive_dir_inner dir retention (Some hook) fs = fs
      \<or> get (prune_archive_dir_inner dir retention (Some hook) fs) p = Some i"
    using prune_entries_hook [of hook p i "clock fs" retention dir] assms(1,2)
    by (simp add: prune_archive_dir_inner_def split: sum.split prod.split)
  have "prune_archive_dir_inner dir retention None fs
      = prune_entries dir (clock fs) retention None (children dir fs) fs"
    using assms(3) by (simp add: prune_archive_dir_inner_def sys_read_dir_def no_faults_def)
  then show "get (prune_archive_dir_inner dir retention None fs) (join dir n)
      = (case get fs (join dir n) of
           None \<Rightarrow> None
         | Some j \<Rightarrow>
             if ikind j = Regular \<and> unat retention < age_in_secs (clock fs) (imtime j) then None else Some j)"
    using prune_entries_exact [OF assms(3), of dir "clock fs" retention "children dir fs" "join dir n"] assms(3)
    by (auto simp: set_children expired_file_def sys_lstat_def no_faults_def split: option.split)
qed

definition old_archive :: fsys where
  "old_archive = calm_fs [(done_path demo_spool ''7.job'', plain_file ''x'' 0)] (int (secs 100))"

theorem prune_exact_and_race_free_witness:
  "get (prune_archive_dir_inner (done_dir demo_spool) 10 None old_archive) (done_path demo_spool ''7.job'') = None
   \<and> get (prune_archive_dir_inner (done_dir demo_spool) 10
        (Some (put (done_path demo_spool ''7.job'') (plain_file ''y'' (int (secs 99))))) old_archive)
        (done_path demo_spool ''7.job'') \<noteq> None"
proof -
  let ?p = "done_path demo_spool ''7.job''" and ?i = "plain_file ''y'' (int (secs 99))"
  have h: "\<And>f. get (put ?p ?i f) ?p = Some ?i" by simp
  have a: "age_in_secs (clock old_archive) (imtime ?i) \<le> unat (10 :: u64)"
    by (simp add: age_in_secs_def since_or_zero_def as_secs_def old_archive_def calm_fs_def plain_file_def secs_def)
  have nf: "no_faults old_archive" by (simp add: no_faults_def old_archive_def calm_fs_def)
  have g: "get old_archive ?p = Some (plain_file ''x'' 0)"
    by (simp add: old_archive_def calm_fs_def get_def)
  have o: "unat (10 :: u64) < age_in_secs (clock old_archive) (imtime (plain_file ''x'' 0))"
    by (simp add: age_in_secs_def since_or_zero_def as_secs_def old_archive_def calm_fs_def plain_file_def secs_def)
  have "ikind (plain_file ''x'' 0) = Regular" by (simp add: plain_file_def)
  with prune_exact_and_race_free [where hook = "put ?p ?i" and dir = "done_dir demo_spool" and n = "''7.job''", OF h a nf] g o show ?thesis by auto
qed

end
