(* ===== verification/Github_Auth.thy ===== *)
theory Github_Auth
  imports World
begin

text \<open>
  Authentication against GitHub (\<open>github/app_jwt.rs\<close>, \<open>github/installation.rs\<close>, and
  \<open>send_authed\<close> of \<open>github/jit.rs\<close>): the App JWT, the installation id that is looked up
  once, the cached installation token, scoped tokens, and the single retry after a 401.
\<close>

section \<open>The client\<close>

record gh_client =
  gh_api :: string
  gh_account :: string
  gh_app_id :: u64
  gh_pem :: bytes

definition TOKEN_TTL :: nat where "TOKEN_TTL = secs (50 * 60)"
definition REFRESH_MARGIN :: nat where "REFRESH_MARGIN = secs (5 * 60)"

text \<open>\<open>StatusCode::is_success\<close>, \<open>Response::text().unwrap_or_default()\<close>, \<open>Response::json\<close>.\<close>

definition is_success :: "http_response \<Rightarrow> bool" where
  "is_success r \<longleftrightarrow> 200 \<le> rs_status r \<and> rs_status r < 300"

definition response_text :: "http_response \<Rightarrow> string" where
  "response_text r = (case rs_body r of Inl _ \<Rightarrow> [] | Inr b \<Rightarrow> from_utf8_lossy b)"

definition response_json :: "(bytes \<Rightarrow> string + 'a) \<Rightarrow> http_response \<Rightarrow> 'a res" where
  "response_json decode r =
     (case rs_body r of
        Inl e \<Rightarrow> Inl (Msg e)
      | Inr b \<Rightarrow> (case decode b of Inl e \<Rightarrow> Inl (Msg e) | Inr x \<Rightarrow> Inr x))"

definition status_error :: "string \<Rightarrow> http_response \<Rightarrow> err" where
  "status_error what r = Msg (what @ '': '' @ dec (rs_status r) @ '' '' @ response_text r)"

definition expect_json :: "string \<Rightarrow> (bytes \<Rightarrow> string + 'a) \<Rightarrow> http_response \<Rightarrow> 'a res" where
  "expect_json what decode r =
     (if \<not> is_success r then Inl (status_error what r) else response_json decode r)"

definition github_headers :: "(string \<times> string) list" where
  "github_headers = [(''Accept'', ''application/vnd.github+json''), (''X-GitHub-Api-Version'', ''2022-11-28'')]"

definition github_request :: "string \<Rightarrow> string \<Rightarrow> string \<Rightarrow> json option \<Rightarrow> http_request" where
  "github_request verb url bearer body =
     \<lparr>rq_method = verb, rq_url = url, rq_headers = github_headers, rq_bearer = bearer, rq_body = body\<rparr>"

section \<open>The App JWT\<close>

definition mint :: "crates \<Rightarrow> u64 \<Rightarrow> bytes \<Rightarrow> systime \<Rightarrow> string res" where
  "mint C app pem t =
     (if t < 0 then Inl (Msg ''system clock before unix epoch'')
      else (let n = (of_nat (as_secs (nat t)) :: u64); iat = sat_sub n 60; exp = n + 9 * 60 in
            case rsa_key_from_pem C pem of
              Inl e \<Rightarrow> Inl (Ctx ''parse RSA PEM'' (Msg e))
            | Inr key \<Rightarrow>
                (case jwt_rs256 C iat exp app key of
                   Inl e \<Rightarrow> Inl (Ctx ''sign JWT'' (Msg e))
                 | Inr jwt \<Rightarrow> Inr jwt)))"

section \<open>Installation and tokens\<close>

definition installation_id :: "'e services \<Rightarrow> gh_client \<Rightarrow> string \<Rightarrow> 'e world \<Rightarrow> u64 res \<times> 'e world" where
  "installation_id S g account w =
     (case cached_installation w of
        Some i \<Rightarrow> (Inr i, w)
      | None \<Rightarrow>
          (case mint (the_crates S) (gh_app_id g) (gh_pem g) (now w) of
             Inl e \<Rightarrow> (Inl e, w)
           | Inr jwt \<Rightarrow>
               (case http_send S (github_request ''GET'' (gh_api g @ ''/users/'' @ account @ ''/installation'') jwt None) w of
                  (Inl e, w1) \<Rightarrow> (Inl (Ctx ''GET /users/{account}/installation'' (Msg e)), w1)
                | (Inr resp, w1) \<Rightarrow>
                    (case expect_json ''installation lookup'' (json_installation (the_crates S)) resp of
                       Inl e \<Rightarrow> (Inl e, w1)
                     | Inr i \<Rightarrow> (Inr i, w1\<lparr>cached_installation := Some i\<rparr>)))))"

definition is_fresh_at :: "cached_token \<Rightarrow> systime \<Rightarrow> bool" where
  "is_fresh_at c t \<longleftrightarrow> t + int REFRESH_MARGIN < valid_until c"

definition access_token_url :: "gh_client \<Rightarrow> u64 \<Rightarrow> string" where
  "access_token_url g i = gh_api g @ ''/app/installations/'' @ dec_u64 i @ ''/access_tokens''"

definition mint_token :: "'e services \<Rightarrow> gh_client \<Rightarrow> u64 \<Rightarrow> 'e world \<Rightarrow> string res \<times> 'e world" where
  "mint_token S g i w =
     (case mint (the_crates S) (gh_app_id g) (gh_pem g) (now w) of
        Inl e \<Rightarrow> (Inl e, w)
      | Inr jwt \<Rightarrow>
          (case http_send S (github_request ''POST'' (access_token_url g i) jwt None) w of
             (Inl e, w1) \<Rightarrow> (Inl (Ctx ''POST /app/installations/{id}/access_tokens'' (Msg e)), w1)
           | (Inr resp, w1) \<Rightarrow>
               (case expect_json ''token mint'' (json_token (the_crates S)) resp of
                  Inl e \<Rightarrow> (Inl e, w1)
                | Inr tok \<Rightarrow>
                    (Inr tok,
                     w1\<lparr>cached_token_slot :=
                          Some \<lparr>token_text = tok, valid_until = now w1 + int TOKEN_TTL\<rparr>\<rparr>))))"

definition token :: "'e services \<Rightarrow> gh_client \<Rightarrow> 'e world \<Rightarrow> string res \<times> 'e world" where
  "token S g w =
     (case installation_id S g (gh_account g) w of
        (Inl e, w1) \<Rightarrow> (Inl e, w1)
      | (Inr i, w1) \<Rightarrow>
          (case cached_token_slot w1 of
             Some c \<Rightarrow> if is_fresh_at c (now w1) then (Inr (token_text c), w1) else mint_token S g i w1
           | None \<Rightarrow> mint_token S g i w1))"

definition invalidate :: "string \<Rightarrow> 'e world \<Rightarrow> 'e world" where
  "invalidate stale w =
     (case cached_token_slot w of
        Some c \<Rightarrow> if token_text c = stale then w\<lparr>cached_token_slot := None\<rparr> else w
      | None \<Rightarrow> w)"

definition scoped_token ::
    "'e services \<Rightarrow> gh_client \<Rightarrow> string \<Rightarrow> u64 list \<Rightarrow> string option \<Rightarrow> 'e world \<Rightarrow> string res \<times> 'e world"
where
  "scoped_token S g account repository_ids contents w =
     (case installation_id S g account w of
        (Inl e, w1) \<Rightarrow> (Inl e, w1)
      | (Inr i, w1) \<Rightarrow>
          (case mint (the_crates S) (gh_app_id g) (gh_pem g) (now w1) of
             Inl e \<Rightarrow> (Inl e, w1)
           | Inr jwt \<Rightarrow>
               (let body = JObj [(''repository_ids'', JArr (map (\<lambda>r. JNum (unat r)) repository_ids)),
                                 (''permissions'', JObj (case contents of None \<Rightarrow> []
                                                         | Some c \<Rightarrow> [(''contents'', JStr c)]))]
                in case http_send S (github_request ''POST'' (access_token_url g i) jwt (Some body)) w1 of
                     (Inl e, w2) \<Rightarrow> (Inl (Ctx ''POST /app/installations/{id}/access_tokens (scoped)'' (Msg e)), w2)
                   | (Inr resp, w2) \<Rightarrow> (expect_json ''scoped token mint'' (json_token (the_crates S)) resp, w2))))"

definition contents_read_token :: "'e services \<Rightarrow> gh_client \<Rightarrow> u64 \<Rightarrow> 'e world \<Rightarrow> string res \<times> 'e world" where
  "contents_read_token S g repo w = scoped_token S g (gh_account g) [repo] (Some ''read'') w"

section \<open>Authenticated requests\<close>

definition send_with ::
    "'e services \<Rightarrow> string \<Rightarrow> string \<Rightarrow> string \<Rightarrow> json option \<Rightarrow> string \<Rightarrow> 'e world \<Rightarrow> http_response res \<times> 'e world"
where
  "send_with S ctx verb url body tok w =
     (case http_send S (github_request verb url tok body) w of
        (Inl e, w1) \<Rightarrow> (Inl (Ctx ctx (Msg e)), w1)
      | (Inr resp, w1) \<Rightarrow> (Inr resp, w1))"

definition send_authed ::
    "'e services \<Rightarrow> gh_client \<Rightarrow> string \<Rightarrow> string \<Rightarrow> string \<Rightarrow> json option \<Rightarrow> 'e world \<Rightarrow> http_response res \<times> 'e world"
where
  "send_authed S g ctx verb url body w =
     (case token S g w of
        (Inl e, w1) \<Rightarrow> (Inl e, w1)
      | (Inr tok, w1) \<Rightarrow>
          (case send_with S ctx verb url body tok w1 of
             (Inl e, w2) \<Rightarrow> (Inl e, w2)
           | (Inr resp, w2) \<Rightarrow>
               if rs_status resp \<noteq> 401 then (Inr resp, w2)
               else (case token S g (invalidate tok w2) of
                       (Inl e, w3) \<Rightarrow> (Inl e, w3)
                     | (Inr tok', w3) \<Rightarrow> send_with S ctx verb url body tok' w3)))"

section \<open>Facts\<close>

lemma expect_json_Inr:
  "expect_json what decode r = Inr x \<longleftrightarrow> is_success r \<and> (\<exists>b. rs_body r = Inr b \<and> decode b = Inr x)"
  by (auto simp: expect_json_def response_json_def split: sum.split)

lemma mint_token_Inr:
  assumes "mint_token S g i w = (Inr tok, w')"
  shows "cached_token_slot w' = Some \<lparr>token_text = tok, valid_until = now w' + int TOKEN_TTL\<rparr>"
  using assms by (auto simp: mint_token_def now_def split: sum.splits prod.splits)

lemma invalidate_simps [simp]:
  "disk (invalidate t w) = disk w" "cached_installation (invalidate t w) = cached_installation w"
  "machine (invalidate t w) = machine w"
  by (simp_all add: invalidate_def split: option.split)

lemma invalidate_slot:
  "cached_token_slot (invalidate t w)
     = (case cached_token_slot w of
          Some c \<Rightarrow> if token_text c = t then None else Some c
        | None \<Rightarrow> None)"
  by (simp add: invalidate_def split: option.split)

section \<open>Properties\<close>

text \<open>A token handed out is either the cached one, with more than five minutes of wall-clock
  life left at that moment, or one minted by this very call and cached for fifty minutes from now:
  the client never serves a token that could expire within a request.\<close>

theorem token_is_fresh:
  assumes "token S g w = (Inr tok, w')"
  shows "\<exists>c. cached_token_slot w' = Some c \<and> token_text c = tok \<and> now w' + int REFRESH_MARGIN < valid_until c"
proof -
  obtain r w1 where i: "installation_id S g (gh_account g) w = (r, w1)" by fastforce
  with assms obtain n where n: "r = Inr n" by (cases r) (auto simp: token_def)
  show ?thesis
  proof (cases "\<exists>c. cached_token_slot w1 = Some c \<and> is_fresh_at c (now w1)")
    case True
    with assms i n show ?thesis by (auto simp: token_def is_fresh_at_def)
  next
    case False
    with assms i n have "mint_token S g n w1 = (Inr tok, w')"
      by (auto simp: token_def split: option.splits if_splits)
    then show ?thesis
      using mint_token_Inr [of S g n w1 tok w'] by (simp add: TOKEN_TTL_def REFRESH_MARGIN_def secs_def)
  qed
qed

text \<open>A GitHub that rejects the token \<open>old\<close> and mints \<open>new\<close>.\<close>

definition toy_http :: "http_request \<Rightarrow> string list world \<Rightarrow> (string + http_response) \<times> string list world" where
  "toy_http rq w =
     (Inr (if rq_method rq = ''POST'' then \<lparr>rs_status = 201, rs_body = Inr ''new''\<rparr>
           else \<lparr>rs_status = (if rq_bearer rq = ''old'' then 401 else 200), rs_body = Inr ''body''\<rparr>), w)"

definition http_services :: "string list services" where
  "http_services = toy_services\<lparr>http_send := toy_http\<rparr>"

definition toy_gh :: gh_client where
  "toy_gh = \<lparr>gh_api = ''https://api'', gh_account = ''o'', gh_app_id = 1, gh_pem = ''pem''\<rparr>"

definition stale_world :: "string list world" where
  "stale_world = (toy_world [])\<lparr>cached_installation := Some 5,
     cached_token_slot := Some \<lparr>token_text = ''old'', valid_until = int TOKEN_TTL\<rparr>\<rparr>"

theorem token_is_fresh_witness:
  "\<exists>c. cached_token_slot (snd (token http_services toy_gh stale_world)) = Some c \<and> token_text c = ''old''
     \<and> now (snd (token http_services toy_gh stale_world)) + int REFRESH_MARGIN < valid_until c"
proof -
  have "token http_services toy_gh stale_world = (Inr ''old'', snd (token http_services toy_gh stale_world))"
    by (simp add: token_def installation_id_def stale_world_def toy_world_def is_fresh_at_def now_def
        TOKEN_TTL_def REFRESH_MARGIN_def secs_def)
  then show ?thesis by (rule token_is_fresh)
qed

text \<open>A cached token that GitHub no longer accepts costs one retry and not a failure: after a
  401 the stale token is dropped, a fresh one is minted and cached, and the caller gets the answer to
  the repeated request, whatever it is.\<close>

theorem stale_token_is_replaced:
  assumes "cached_installation w = Some i" and "cached_token_slot w = Some c" and "is_fresh_at c (now w)"
    and "http_send S (github_request verb url (token_text c) body) w = (Inr r401, w1)"
    and "rs_status r401 = 401"
    and "cached_installation w1 = Some i" and "cached_token_slot w1 = Some c"
    and "mint_token S g i (w1\<lparr>cached_token_slot := None\<rparr>) = (Inr tok', w2)"
    and "http_send S (github_request verb url tok' body) w2 = (Inr resp, w3)"
  shows "send_authed S g ctx verb url body w = (Inr resp, w3)
       \<and> cached_token_slot w2 = Some \<lparr>token_text = tok', valid_until = now w2 + int TOKEN_TTL\<rparr>"
proof
  have t: "token S g w = (Inr (token_text c), w)"
    using assms(1-3) by (simp add: token_def installation_id_def)
  have "invalidate (token_text c) w1 = w1\<lparr>cached_token_slot := None\<rparr>"
    using assms(7) by (simp add: invalidate_def)
  then have "token S g (invalidate (token_text c) w1) = (Inr tok', w2)"
    using assms(6,8) by (simp add: token_def installation_id_def)
  with t assms(4,5,9) show "send_authed S g ctx verb url body w = (Inr resp, w3)"
    by (simp add: send_authed_def send_with_def)
qed (rule mint_token_Inr [OF assms(8)])

theorem stale_token_is_replaced_witness:
  "fst (send_authed http_services toy_gh ''ctx'' ''GET'' ''u'' None stale_world)
     = Inr \<lparr>rs_status = 200, rs_body = Inr ''body''\<rparr>"
proof -
  let ?w = "stale_world" and ?c = "\<lparr>token_text = ''old'', valid_until = int TOKEN_TTL\<rparr>"
  let ?m = "mint_token http_services toy_gh 5 (?w\<lparr>cached_token_slot := None\<rparr>)"
  have 1: "cached_installation ?w = Some 5" "cached_token_slot ?w = Some ?c"
    by (simp_all add: stale_world_def)
  have 2: "is_fresh_at ?c (now ?w)"
    by (simp add: is_fresh_at_def now_def stale_world_def toy_world_def TOKEN_TTL_def REFRESH_MARGIN_def secs_def)
  have 3: "http_send http_services (github_request ''GET'' ''u'' (token_text ?c) None) ?w
      = (Inr \<lparr>rs_status = 401, rs_body = Inr ''body''\<rparr>, ?w)"
    by (simp add: http_services_def toy_http_def github_request_def)
  have 4: "rs_status \<lparr>rs_status = 401, rs_body = Inr ''body''\<rparr> = 401" by simp
  have 5: "?m = (Inr ''new'', snd ?m)"
    by (simp add: mint_token_def mint_def http_services_def toy_services_def toy_http_def github_request_def
        expect_json_def is_success_def response_json_def stale_world_def toy_world_def now_def)
  have 6: "http_send http_services (github_request ''GET'' ''u'' ''new'' None) (snd ?m)
      = (Inr \<lparr>rs_status = 200, rs_body = Inr ''body''\<rparr>, snd ?m)"
    by (simp add: http_services_def toy_http_def github_request_def)
  from stale_token_is_replaced [OF 1 2 3 4 1 5 6] show ?thesis by simp
qed

end
