(* ===== verification/Github_Client.thy ===== *)
theory Github_Client
  imports Github_Auth
begin

text \<open>
  The repository-scoped API calls (\<open>github/jit.rs\<close>): runner management, paginated listings, the
  queued-job listing of the reconciler, and the branch lookups of the cache warmer.  A paginated loop
  has a fuel, the number of pages it may fetch; running out is \<open>None\<close>.
\<close>

section \<open>URL segments\<close>

definition hex_upper_char :: "nat \<Rightarrow> char" where
  "hex_upper_char d = (if d < 10 then char_of (48 + d) else char_of (55 + d))"

definition is_unreserved :: "char \<Rightarrow> bool" where
  "is_unreserved c \<longleftrightarrow> is_ascii_alnum c \<or> c = CHR ''-'' \<or> c = CHR ''.'' \<or> c = CHR ''_'' \<or> c = CHR ''~''"

definition encode_path_segment :: "string \<Rightarrow> string" where
  "encode_path_segment s =
     concat (map (\<lambda>b. if is_unreserved b then [b]
                      else [CHR ''%'', hex_upper_char (byte b div 16), hex_upper_char (byte b mod 16)]) s)"

definition repo_url :: "gh_client \<Rightarrow> string \<Rightarrow> string \<Rightarrow> string" where
  "repo_url g owner repo = gh_api g @ ''/repos/'' @ owner @ ''/'' @ repo"

section \<open>Runners\<close>

definition REPO_DEFAULT_RUNNER_GROUP_ID :: nat where "REPO_DEFAULT_RUNNER_GROUP_ID = 1"

definition jit_config_body :: "string \<Rightarrow> string list \<Rightarrow> json" where
  "jit_config_body name labels =
     JObj [(''name'', JStr name), (''runner_group_id'', JNum REPO_DEFAULT_RUNNER_GROUP_ID),
           (''labels'', JArr (map JStr labels)), (''work_folder'', JStr ''_work'')]"

definition generate_jit_config ::
    "'e services \<Rightarrow> gh_client \<Rightarrow> string \<Rightarrow> string \<Rightarrow> string \<Rightarrow> string list \<Rightarrow> 'e world
     \<Rightarrow> jit_config_resp res \<times> 'e world"
where
  "generate_jit_config S g owner repo name labels w =
     (case send_authed S g ''POST generate-jitconfig'' ''POST''
             (repo_url g owner repo @ ''/actions/runners/generate-jitconfig'')
             (Some (jit_config_body name labels)) w of
        (Inl e, w1) \<Rightarrow> (Inl e, w1)
      | (Inr resp, w1) \<Rightarrow> (expect_json ''generate-jitconfig'' (json_jit_config (the_crates S)) resp, w1))"

definition runner_url :: "gh_client \<Rightarrow> string \<Rightarrow> string \<Rightarrow> u64 \<Rightarrow> string" where
  "runner_url g owner repo i = repo_url g owner repo @ ''/actions/runners/'' @ dec_u64 i"

definition runner_status ::
    "'e services \<Rightarrow> gh_client \<Rightarrow> string \<Rightarrow> string \<Rightarrow> u64 \<Rightarrow> 'e world \<Rightarrow> runner option res \<times> 'e world" where
  "runner_status S g owner repo i w =
     (case send_authed S g ''GET runner'' ''GET'' (runner_url g owner repo i) None w of
        (Inl e, w1) \<Rightarrow> (Inl e, w1)
      | (Inr resp, w1) \<Rightarrow>
          (if rs_status resp = 404 then Inr None
           else (case expect_json ''runner_status'' (json_runner (the_crates S)) resp of
                   Inl e \<Rightarrow> Inl e
                 | Inr r \<Rightarrow> Inr (Some r)), w1))"

definition delete_runner ::
    "'e services \<Rightarrow> gh_client \<Rightarrow> string \<Rightarrow> string \<Rightarrow> u64 \<Rightarrow> 'e world \<Rightarrow> unit res \<times> 'e world" where
  "delete_runner S g owner repo i w =
     (case send_authed S g ''DELETE runner'' ''DELETE'' (runner_url g owner repo i) None w of
        (Inl e, w1) \<Rightarrow> (Inl e, w1)
      | (Inr resp, w1) \<Rightarrow>
          (if \<not> is_success resp \<and> rs_status resp \<noteq> 404 then Inl (status_error ''delete runner'' resp)
           else Inr (), w1))"

definition get_job_status ::
    "'e services \<Rightarrow> gh_client \<Rightarrow> string \<Rightarrow> string \<Rightarrow> u64 \<Rightarrow> 'e world \<Rightarrow> job_status option res \<times> 'e world" where
  "get_job_status S g owner repo i w =
     (case send_authed S g ''GET job'' ''GET'' (repo_url g owner repo @ ''/actions/jobs/'' @ dec_u64 i) None w of
        (Inl e, w1) \<Rightarrow> (Inl e, w1)
      | (Inr resp, w1) \<Rightarrow>
          (if rs_status resp = 404 then Inr None
           else (case expect_json ''job_status'' (json_job_status (the_crates S)) resp of
                   Inl e \<Rightarrow> Inl e
                 | Inr j \<Rightarrow> Inr (Some j)), w1))"

section \<open>Pagination\<close>

text \<open>The loop body the three listings share; \<open>handle\<close> is what it does with the items of a page.\<close>

fun pages ::
    "nat \<Rightarrow> (u32 \<Rightarrow> 'w \<Rightarrow> 'i list res \<times> 'w) \<Rightarrow> ('i list \<Rightarrow> 'w \<Rightarrow> ('b list res \<times> 'w) option)
     \<Rightarrow> u32 \<Rightarrow> 'b list \<Rightarrow> 'w \<Rightarrow> ('b list res \<times> 'w) option"
where
  "pages 0 fetch handle page out w = None"
| "pages (Suc fuel) fetch handle page out w =
     (case fetch page w of
        (Inl e, w1) \<Rightarrow> Some (Inl e, w1)
      | (Inr items, w1) \<Rightarrow>
          (case handle items w1 of
             None \<Rightarrow> None
           | Some (Inl e, w2) \<Rightarrow> Some (Inl e, w2)
           | Some (Inr xs, w2) \<Rightarrow>
               if length items < 100 then Some (Inr (out @ xs), w2)
               else pages fuel fetch handle (page + 1) (out @ xs) w2))"

definition get_page ::
    "'e services \<Rightarrow> gh_client \<Rightarrow> string \<Rightarrow> string \<Rightarrow> (bytes \<Rightarrow> string + 'i list) \<Rightarrow> u32 \<Rightarrow> 'e world
     \<Rightarrow> 'i list res \<times> 'e world"
where
  "get_page S g ctx url decode page w =
     (case send_authed S g ctx ''GET'' (url @ dec (unat page)) None w of
        (Inl e, w1) \<Rightarrow> (Inl e, w1)
      | (Inr resp, w1) \<Rightarrow> (expect_json ctx decode resp, w1))"

definition list_runners ::
    "nat \<Rightarrow> 'e services \<Rightarrow> gh_client \<Rightarrow> string \<Rightarrow> string \<Rightarrow> string \<Rightarrow> 'e world \<Rightarrow> (runner list res \<times> 'e world) option"
where
  "list_runners fuel S g owner repo prefix w =
     pages fuel
       (get_page S g ''GET runners'' (repo_url g owner repo @ ''/actions/runners?per_page=100&page='')
          (json_runners (the_crates S)))
       (\<lambda>rs w. Some (Inr (filter (\<lambda>r. starts_with (runner_name r) prefix) rs), w)) 1 [] w"

definition list_run_jobs ::
    "nat \<Rightarrow> 'e services \<Rightarrow> gh_client \<Rightarrow> string \<Rightarrow> string \<Rightarrow> u64 \<Rightarrow> 'e world \<Rightarrow> (job_status list res \<times> 'e world) option"
where
  "list_run_jobs fuel S g owner repo run w =
     pages fuel
       (get_page S g ''GET run jobs''
          (repo_url g owner repo @ ''/actions/runs/'' @ dec_u64 run @ ''/jobs?per_page=100&page='')
          (json_run_jobs (the_crates S)))
       (\<lambda>js w. Some (Inr js, w)) 1 [] w"

fun expand_runs ::
    "nat \<Rightarrow> 'e services \<Rightarrow> gh_client \<Rightarrow> string \<Rightarrow> string \<Rightarrow> workflow_run list \<Rightarrow> 'e world
     \<Rightarrow> (job_status list res \<times> 'e world) option"
where
  "expand_runs fuel S g owner repo [] w = Some (Inr [], w)"
| "expand_runs fuel S g owner repo (run # runs) w =
     (case list_run_jobs fuel S g owner repo (run_id run) w of
        None \<Rightarrow> None
      | Some (Inl e, w1) \<Rightarrow> Some (Inl e, w1)
      | Some (Inr jobs, w1) \<Rightarrow>
          (let mine = map (\<lambda>j. j\<lparr>js_repo_id := run_repo_id (run_repository run)\<rparr>)
                          (filter (\<lambda>j. js_status j = ''queued'') jobs)
           in case expand_runs fuel S g owner repo runs w1 of
                None \<Rightarrow> None
              | Some (Inl e, w2) \<Rightarrow> Some (Inl e, w2)
              | Some (Inr rest, w2) \<Rightarrow> Some (Inr (mine @ rest), w2)))"

definition list_runs_with_status ::
    "nat \<Rightarrow> 'e services \<Rightarrow> gh_client \<Rightarrow> string \<Rightarrow> string \<Rightarrow> string \<Rightarrow> job_status list \<Rightarrow> 'e world
     \<Rightarrow> (job_status list res \<times> 'e world) option"
where
  "list_runs_with_status fuel S g owner repo status out w =
     pages fuel
       (get_page S g ''GET runs''
          (repo_url g owner repo @ ''/actions/runs?status='' @ status @ ''&per_page=100&page='')
          (json_runs (the_crates S)))
       (expand_runs fuel S g owner repo) 1 out w"

text \<open>\<open>Vec::dedup_by_key\<close>: of consecutive elements with one key the first is kept.\<close>

fun dedup_by :: "('a \<Rightarrow> 'k) \<Rightarrow> 'a list \<Rightarrow> 'a list" where
  "dedup_by f [] = []"
| "dedup_by f [x] = [x]"
| "dedup_by f (x # y # xs) = (if f x = f y then dedup_by f (x # xs) else x # dedup_by f (y # xs))"

fun list_statuses ::
    "nat \<Rightarrow> 'e services \<Rightarrow> gh_client \<Rightarrow> string \<Rightarrow> string \<Rightarrow> string list \<Rightarrow> job_status list \<Rightarrow> 'e world
     \<Rightarrow> (job_status list res \<times> 'e world) option"
where
  "list_statuses fuel S g owner repo [] out w = Some (Inr out, w)"
| "list_statuses fuel S g owner repo (status # statuses) out w =
     (case list_runs_with_status fuel S g owner repo status out w of
        None \<Rightarrow> None
      | Some (Inl e, w1) \<Rightarrow> Some (Inl e, w1)
      | Some (Inr out1, w1) \<Rightarrow> list_statuses fuel S g owner repo statuses out1 w1)"

definition list_queued_jobs ::
    "nat \<Rightarrow> 'e services \<Rightarrow> gh_client \<Rightarrow> string \<Rightarrow> string \<Rightarrow> 'e world \<Rightarrow> (job_status list res \<times> 'e world) option"
where
  "list_queued_jobs fuel S g owner repo w =
     (case list_statuses fuel S g owner repo [''queued'', ''in_progress''] [] w of
        None \<Rightarrow> None
      | Some (Inl e, w1) \<Rightarrow> Some (Inl e, w1)
      | Some (Inr out, w1) \<Rightarrow> Some (Inr (dedup_by js_id (sort_key js_id out)), w1))"

section \<open>Branches\<close>

definition DEFAULT_BRANCH_TTL :: nat where "DEFAULT_BRANCH_TTL = secs (60 * 60)"

definition branch_is_fresh_at :: "cached_branch \<Rightarrow> systime \<Rightarrow> bool" where
  "branch_is_fresh_at c t \<longleftrightarrow> t < branch_valid_until c"

definition fetch_default_branch ::
    "'e services \<Rightarrow> gh_client \<Rightarrow> string \<Rightarrow> string \<Rightarrow> 'e world \<Rightarrow> string res \<times> 'e world" where
  "fetch_default_branch S g owner repo w =
     (case send_authed S g ''GET /repos/{owner}/{repo}'' ''GET'' (repo_url g owner repo) None w of
        (Inl e, w1) \<Rightarrow> (Inl e, w1)
      | (Inr resp, w1) \<Rightarrow>
          (case expect_json ''default_branch'' (json_repo_info (the_crates S)) resp of
             Inl e \<Rightarrow> (Inl e, w1)
           | Inr branch \<Rightarrow>
               (Inr branch,
                w1\<lparr>cached_branches :=
                     AList.update (owner @ ''/'' @ repo)
                       \<lparr>branch_name = branch, branch_valid_until = now w1 + int DEFAULT_BRANCH_TTL\<rparr>
                       (cached_branches w1)\<rparr>)))"

definition default_branch ::
    "'e services \<Rightarrow> gh_client \<Rightarrow> string \<Rightarrow> string \<Rightarrow> 'e world \<Rightarrow> string res \<times> 'e world" where
  "default_branch S g owner repo w =
     (case map_of (cached_branches w) (owner @ ''/'' @ repo) of
        Some c \<Rightarrow>
          if branch_is_fresh_at c (now w) then (Inr (branch_name c), w)
          else fetch_default_branch S g owner repo w
      | None \<Rightarrow> fetch_default_branch S g owner repo w)"

definition branch_tip ::
    "'e services \<Rightarrow> gh_client \<Rightarrow> string \<Rightarrow> string \<Rightarrow> string \<Rightarrow> 'e world \<Rightarrow> string res \<times> 'e world" where
  "branch_tip S g owner repo branch w =
     (case send_authed S g ''GET /repos/{owner}/{repo}/branches/{branch}'' ''GET''
             (repo_url g owner repo @ ''/branches/'' @ encode_path_segment branch) None w of
        (Inl e, w1) \<Rightarrow> (Inl e, w1)
      | (Inr resp, w1) \<Rightarrow> (expect_json ''branch_tip'' (json_branch_info (the_crates S)) resp, w1))"

section \<open>Facts\<close>

lemma pages_all:
  assumes "\<And>items w xs w'. handle items w = Some (Inr xs, w') \<Longrightarrow> list_all P xs"
  shows "pages fuel fetch handle page out w = Some (Inr res, w') \<Longrightarrow> list_all P out \<Longrightarrow> list_all P res"
proof (induction fuel arbitrary: page out w)
  case (Suc fuel)
  then obtain items w1 xs w2 where f: "fetch page w = (Inr items, w1)" "handle items w1 = Some (Inr xs, w2)"
    by (auto split: prod.splits sum.splits option.splits)
  with assms have "list_all P (out @ xs)" using Suc.prems(2) by simp
  with f Suc show ?case by (auto split: if_splits)
qed simp

text \<open>A server that answers \<open>n\<close> pages, all full but the last, is read to the end.\<close>

lemma pages_complete:
  assumes "\<And>k. k < n \<Longrightarrow> fetch (of_nat (Suc (m + k))) (ws k) = (Inr (items k), us k)"
    and "\<And>k. k < n \<Longrightarrow> handle (items k) (us k) = Some (Inr (outs k), ws (Suc k))"
    and "\<And>k. Suc k < n \<Longrightarrow> 100 \<le> length (items k)" and "length (items (n - 1)) < 100"
    and "0 < n" and "n \<le> fuel"
  shows "pages fuel fetch handle (of_nat (Suc m)) out (ws 0)
       = Some (Inr (out @ concat (map outs [0..<n])), ws n)"
  using assms
proof (induction n arbitrary: fuel m out ws us items outs)
  case (Suc n)
  from Suc.prems(6) obtain f where f: "fuel = Suc f" by (cases fuel) auto
  from Suc.prems(1) [of 0] Suc.prems(2) [of 0]
  have h: "fetch (of_nat (Suc m)) (ws 0) = (Inr (items 0), us 0)"
    "handle (items 0) (us 0) = Some (Inr (outs 0), ws 1)" by simp_all
  show ?case
  proof (cases "n = 0")
    case True
    with h f Suc.prems(4) show ?thesis by simp
  next
    case False
    have "pages f fetch handle (of_nat (Suc (Suc m))) (out @ outs 0) (ws (Suc 0))
        = Some (Inr ((out @ outs 0) @ concat (map (\<lambda>k. outs (Suc k)) [0..<n])), ws (Suc n))"
      using Suc.prems(1) [of "Suc _"] Suc.prems(2) [of "Suc _"] Suc.prems(3) [of "Suc _"] Suc.prems(4,6) f False
      by (intro Suc.IH [where ws = "\<lambda>k. ws (Suc k)" and us = "\<lambda>k. us (Suc k)"
            and items = "\<lambda>k. items (Suc k)"]) simp_all
    moreover have "[0..<Suc n] = 0 # map Suc [0..<n]"
      by (simp add: map_Suc_upt upt_conv_Cons)
    moreover have "100 \<le> length (items 0)" using Suc.prems(3) [of 0] False by simp
    ultimately show ?thesis using h f by (simp add: comp_def add.commute)
  qed
qed simp

lemma dedup_by_keys: "f ` set (dedup_by f xs) = f ` set xs"
  by (induction f xs rule: dedup_by.induct) auto

lemma dedup_by_subset: "set (dedup_by f xs) \<subseteq> set xs"
  by (induction f xs rule: dedup_by.induct) auto

lemma dedup_by_sorted:
  fixes f :: "'a \<Rightarrow> 'k :: linorder"
  shows "sorted (map f xs) \<Longrightarrow> sorted_wrt (<) (map f (dedup_by f xs))"
proof (induction f xs rule: dedup_by.induct)
  case (3 f x y xs)
  show ?case
  proof (cases "f x = f y")
    case False
    with "3.prems" have less: "f x < f z" if "z \<in> set (y # xs)" for z
      using that by fastforce
    have "f x < k" if "k \<in> set (map f (dedup_by f (y # xs)))" for k
      using that dedup_by_subset [of f "y # xs"] less by auto
    with False "3.IH"(2) "3.prems" show ?thesis by simp
  qed (use 3 in simp)
qed simp_all

lemma expand_runs_queued:
  "expand_runs fuel S g owner repo runs w = Some (Inr js, w') \<Longrightarrow> list_all (\<lambda>j. js_status j = ''queued'') js"
proof (induction runs arbitrary: w js w')
  case (Cons run runs)
  then show ?case
    by (auto simp: Let_def list_all_iff split: option.splits prod.splits sum.splits)
qed simp

lemma list_statuses_queued:
  "list_statuses fuel S g owner repo sts out w = Some (Inr js, w') \<Longrightarrow>
   list_all (\<lambda>j. js_status j = ''queued'') out \<Longrightarrow> list_all (\<lambda>j. js_status j = ''queued'') js"
proof (induction sts arbitrary: out w)
  case (Cons st sts)
  then obtain out1 w1 where r: "list_runs_with_status fuel S g owner repo st out w = Some (Inr out1, w1)"
    "list_statuses fuel S g owner repo sts out1 w1 = Some (Inr js, w')"
    by (auto split: option.splits prod.splits sum.splits)
  from r(1) Cons.prems(2) have "list_all (\<lambda>j. js_status j = ''queued'') out1"
    unfolding list_runs_with_status_def by (rule pages_all [rotated]) (rule expand_runs_queued)
  with Cons.IH r(2) show ?case by blast
qed simp

text \<open>The server's side of the encoding.\<close>

definition hex_upper_val :: "char \<Rightarrow> nat" where
  "hex_upper_val c = (if is_digit c then byte c - 48 else byte c - 55)"

fun percent_decode :: "string \<Rightarrow> string" where
  "percent_decode (c # a # b # cs) =
     (if c = CHR ''%'' then char_of (hex_upper_val a * 16 + hex_upper_val b) # percent_decode cs
      else c # percent_decode (a # b # cs))"
| "percent_decode cs = cs"

lemma percent_decode_plain [simp]: "c \<noteq> CHR ''%'' \<Longrightarrow> percent_decode (c # cs) = c # percent_decode cs"
  by (cases cs rule: percent_decode.cases) auto

lemma hex_upper_facts:
  assumes "d < 16"
  shows "hex_upper_val (hex_upper_char d) = d \<and> is_unreserved (hex_upper_char d)"
proof (cases "d < 10")
  case True
  then show ?thesis
    by (simp add: hex_upper_val_def hex_upper_char_def is_digit_def is_unreserved_def is_ascii_alnum_def)
next
  case False
  with assms show ?thesis
    by (simp add: hex_upper_val_def hex_upper_char_def is_digit_def is_unreserved_def is_ascii_alnum_def
        is_ascii_upper_def)
qed

section \<open>Properties\<close>

lemma list_queued_jobs_sound:
  assumes "list_queued_jobs fuel S g owner repo w = Some (Inr jobs, w')"
  shows "sorted_wrt (<) (map js_id jobs) \<and> list_all (\<lambda>j. js_status j = ''queued'') jobs"
proof -
  from assms obtain out where o: "list_statuses fuel S g owner repo [''queued'', ''in_progress''] [] w
      = Some (Inr out, w')" "jobs = dedup_by js_id (sort_key js_id out)"
    by (auto simp: list_queued_jobs_def split: option.splits prod.splits sum.splits)
  have s: "sorted_wrt (<) (map js_id jobs)" unfolding o(2) by (rule dedup_by_sorted) simp
  have "list_all (\<lambda>j. js_status j = ''queued'') out" using o(1) by (rule list_statuses_queued) simp
  with o(2) dedup_by_subset [of js_id "sort_key js_id out"]
  have "list_all (\<lambda>j. js_status j = ''queued'') jobs" by (auto simp: list_all_iff)
  with s show ?thesis by blast
qed

text \<open>C25: The reconciler's job listing names every job once, in increasing order of id, and only
  jobs GitHub reports as queued: a run that surfaces under both statuses never yields a double mint.\<close>

theorem queued_jobs_unique:
  assumes "list_queued_jobs fuel S g owner repo w = Some (Inr jobs, w')"
  shows "sorted_wrt (<) (map js_id jobs) \<and> distinct (map js_id jobs)
       \<and> list_all (\<lambda>j. js_status j = ''queued'') jobs"
  using list_queued_jobs_sound [OF assms] strict_sorted_iff by blast

text \<open>A GitHub with one run of three jobs, two of them queued, seen under both statuses.\<close>

definition toy_job_of :: "u64 \<Rightarrow> string \<Rightarrow> job_status" where
  "toy_job_of i st = \<lparr>js_id = i, js_status = st, js_run_id = 1, js_run_attempt = 1, js_name = ''b'',
     js_labels = [''lima-nix''], js_repo_id = 0\<rparr>"

definition listing_services :: "string list services" where
  "listing_services = http_services\<lparr>the_crates := (the_crates toy_services)
     \<lparr>json_runs := (\<lambda>_. Inr [\<lparr>run_id = 1, run_repository = \<lparr>run_repo_id = 11\<rparr>\<rparr>]),
      json_run_jobs := (\<lambda>_. Inr [toy_job_of 7 ''queued'', toy_job_of 5 ''completed'', toy_job_of 3 ''queued'']),
      json_runners := (\<lambda>_. Inr [\<lparr>runner_id = 1, runner_name = ''gha-1'', runner_state = ''online'', runner_busy = False\<rparr>,
                               \<lparr>runner_id = 2, runner_name = ''other'', runner_state = ''online'', runner_busy = False\<rparr>])\<rparr>\<rparr>"

definition good_world :: "string list world" where
  "good_world = stale_world\<lparr>cached_token_slot := Some \<lparr>token_text = ''good'', valid_until = int TOKEN_TTL\<rparr>\<rparr>"

lemma send_authed_good:
  "send_authed listing_services toy_gh ctx ''GET'' url None good_world
     = (Inr \<lparr>rs_status = 200, rs_body = Inr ''body''\<rparr>, good_world)"
  by (simp add: send_authed_def token_def installation_id_def good_world_def stale_world_def is_fresh_at_def
      now_def toy_world_def TOKEN_TTL_def REFRESH_MARGIN_def secs_def send_with_def listing_services_def
      http_services_def toy_http_def github_request_def)

lemma get_page_good:
  "get_page listing_services toy_gh ctx url decode page good_world
     = (case decode ''body'' of Inl e \<Rightarrow> (Inl (Msg e), good_world) | Inr xs \<Rightarrow> (Inr xs, good_world))"
  by (simp add: get_page_def send_authed_good expect_json_def is_success_def response_json_def split: sum.split)

lemma list_queued_good:
  "list_queued_jobs 1 listing_services toy_gh ''o'' ''r'' good_world
      = Some (Inr [(toy_job_of 3 ''queued'')\<lparr>js_repo_id := 11\<rparr>, (toy_job_of 7 ''queued'')\<lparr>js_repo_id := 11\<rparr>],
              good_world)"
  by (simp add: list_queued_jobs_def list_runs_with_status_def list_run_jobs_def get_page_good One_nat_def
      listing_services_def [THEN arg_cong [where f = the_crates]] toy_job_of_def Let_def insort_key_def)

theorem queued_jobs_unique_witness:
  "\<exists>jobs. list_queued_jobs 1 listing_services toy_gh ''o'' ''r'' good_world = Some (Inr jobs, good_world)
     \<and> map js_id jobs = [3, 7] \<and> list_all (\<lambda>j. js_status j = ''queued'') jobs"
  using queued_jobs_unique [OF list_queued_good] list_queued_good by (simp add: toy_job_of_def)

text \<open>C29: The runner listing is complete: whatever the number of pages, if the server answers all of
  them and only the last is short, the result is every runner of every page with the asked prefix, in
  order, and the loop ends as soon as it has seen the short page.\<close>

theorem list_runners_complete:
  assumes "\<And>k. k < n \<Longrightarrow>
      get_page S g ''GET runners'' (repo_url g owner repo @ ''/actions/runners?per_page=100&page='')
        (json_runners (the_crates S)) (of_nat (Suc k)) (ws k) = (Inr (items k), ws (Suc k))"
    and "\<And>k. Suc k < n \<Longrightarrow> 100 \<le> length (items k)" and "length (items (n - 1)) < 100"
    and "0 < n" and "n \<le> fuel"
  shows "list_runners fuel S g owner repo prefix (ws 0)
       = Some (Inr (filter (\<lambda>r. starts_with (runner_name r) prefix) (concat (map items [0..<n]))), ws n)"
proof -
  have "filter P (concat (map items ks)) = concat (map (\<lambda>k. filter P (items k)) ks)" for P ks
    by (induction ks) simp_all
  with pages_complete [of n "get_page S g ''GET runners'' (repo_url g owner repo @ ''/actions/runners?per_page=100&page='')
        (json_runners (the_crates S))" 0 ws items "\<lambda>k. ws (Suc k)"
      "\<lambda>rs w. Some (Inr (filter (\<lambda>r. starts_with (runner_name r) prefix) rs), w)"
      "\<lambda>k. filter (\<lambda>r. starts_with (runner_name r) prefix) (items k)" fuel "[]"] assms
  show ?thesis by (simp add: list_runners_def)
qed

theorem list_runners_complete_witness:
  "list_runners 1 listing_services toy_gh ''o'' ''r'' ''gha-'' good_world
     = Some (Inr [\<lparr>runner_id = 1, runner_name = ''gha-1'', runner_state = ''online'', runner_busy = False\<rparr>], good_world)"
proof -
  let ?items = "\<lambda>_ :: nat. [\<lparr>runner_id = 1, runner_name = ''gha-1'', runner_state = ''online'', runner_busy = False\<rparr>,
    \<lparr>runner_id = 2, runner_name = ''other'', runner_state = ''online'', runner_busy = False\<rparr>]"
  have "list_runners 1 listing_services toy_gh ''o'' ''r'' ''gha-'' ((\<lambda>_. good_world) 0)
      = Some (Inr (filter (\<lambda>r. starts_with (runner_name r) ''gha-'') (concat (map ?items [0..<1]))), good_world)"
    by (rule list_runners_complete [where ws = "\<lambda>_. good_world" and items = ?items])
       (simp_all add: get_page_good, simp add: listing_services_def)
  then show ?thesis by (simp add: starts_with_def)
qed

text \<open>A branch name becomes one URL segment: nothing reserved is left in it, and the segment
  decodes back to the name, so two branches never share a URL.\<close>

theorem encode_path_segment_round_trip:
  "percent_decode (encode_path_segment s) = s
   \<and> list_all (\<lambda>c. is_unreserved c \<or> c = CHR ''%'') (encode_path_segment s)"
proof (induction s)
  case (Cons c s)
  have lt: "byte c < (256 :: nat)" by simp
  then have d: "byte c div 16 < (16 :: nat)" "byte c mod 16 < (16 :: nat)"
    by (simp_all add: less_mult_imp_div_less)
  have "is_unreserved c \<Longrightarrow> c \<noteq> CHR ''%''"
    by (auto simp: is_unreserved_def is_ascii_alnum_def is_digit_def is_ascii_lower_def is_ascii_upper_def)
  moreover have "char_of (byte c div 16 * 16 + byte c mod 16 :: nat) = c"
    by (metis char_of_char div_mult_mod_eq)
  ultimately show ?case
    using Cons hex_upper_facts [OF d(1)] hex_upper_facts [OF d(2)]
    by (simp add: encode_path_segment_def)
qed (simp add: encode_path_segment_def)

end
