(* ===== verification/Gc_Sweep.thy ===== *)
theory Gc_Sweep
  imports Gc_Prune Github_Client
begin

text \<open>
  The sweeps (\<open>gc.rs\<close>): the periodic \<open>sweep_inner\<close>, the one-shot reap at startup, and the
  execution of their plans through \<open>limactl\<close>, the spool and GitHub.
\<close>

section \<open>Images\<close>

definition current_template_image :: "path \<Rightarrow> fsys \<Rightarrow> image_identity option" where
  "current_template_image template fs =
     (case read_to_string template fs of Inl _ \<Rightarrow> None | Inr yaml \<Rightarrow> parse_image_identity yaml)"

definition vm_booted_image :: "path option \<Rightarrow> fsys \<Rightarrow> image_identity option" where
  "vm_booted_image dir fs =
     (case dir of
        None \<Rightarrow> None
      | Some d \<Rightarrow>
          (case read_to_string (join d ''lima.yaml'') fs of
             Inl _ \<Rightarrow> None
           | Inr yaml \<Rightarrow> parse_image_identity yaml))"

definition managed_of ::
    "(string \<times> path) list option \<Rightarrow> fsys \<Rightarrow> (string \<times> path option) list \<Rightarrow> managed_vm list" where
  "managed_of live_map fs instances =
     map (\<lambda>(name, dir).
            \<lparr>vm_id = name,
             vm_image = (case live_map of
                           None \<Rightarrow> None
                         | Some m \<Rightarrow> if map_of m name \<noteq> None then vm_booted_image dir fs else None)\<rparr>)
         (filter (\<lambda>(name, _). is_managed_vm_name name) instances)"

section \<open>Executing the VM plan\<close>

definition stale_reason :: "string \<Rightarrow> string \<Rightarrow> string" where
  "stale_reason vm_location current_location =
     ''gc: reaped stale-image VM ('' @ sanitize_for_log vm_location @ '' != '' @ current_location @ '')''"

definition current_location_text :: "image_identity option \<Rightarrow> string" where
  "current_location_text current = (case current of None \<Rightarrow> [] | Some c \<Rightarrow> sanitize_for_log (location c))"

text \<open>The loop carries the names of the stale VMs whose deletion succeeded.\<close>

fun execute_vm_reaps ::
    "'e services \<Rightarrow> spool \<Rightarrow> image_identity option \<Rightarrow> vm_reap list \<Rightarrow> string set \<Rightarrow> 'e world
     \<Rightarrow> string set \<times> 'e world"
where
  "execute_vm_reaps S s current [] reaped w = (reaped, w)"
| "execute_vm_reaps S s current (Orphan name # reaps) reaped w =
     (let w1 = snd (lima_stop S name w); w2 = snd (lima_delete S name w1)
      in execute_vm_reaps S s current reaps reaped w2)"
| "execute_vm_reaps S s current (StaleImage name cur_path vm_location # reaps) reaped w =
     (let w1 = snd (lima_stop S name w) in
      case lima_delete S name w1 of
        (Inl e, w2) \<Rightarrow> execute_vm_reaps S s current reaps reaped w2
      | (Inr _, w2) \<Rightarrow>
          (let w3 = snd (on_disk (finalize_error s cur_path
                           (stale_reason vm_location (current_location_text current))) w2)
           in execute_vm_reaps S s current reaps (insert name reaped) w3))"

section \<open>Runners\<close>

fun delete_runners ::
    "'e services \<Rightarrow> gh_client \<Rightarrow> string \<Rightarrow> string \<Rightarrow> runner list \<Rightarrow> 'e world \<Rightarrow> 'e world" where
  "delete_runners S g owner repo [] w = w"
| "delete_runners S g owner repo (r # rs) w =
     delete_runners S g owner repo rs (snd (delete_runner S g owner repo (runner_id r) w))"

fun sweep_repos ::
    "nat \<Rightarrow> 'e services \<Rightarrow> gh_client \<Rightarrow> path \<Rightarrow> string set \<Rightarrow> string list \<Rightarrow> 'e world \<Rightarrow> 'e world option"
where
  "sweep_repos fuel S g cur reaped [] w = Some w"
| "sweep_repos fuel S g cur reaped (repo_full # repos) w =
     (case split_once (CHR ''/'') repo_full of
        None \<Rightarrow> sweep_repos fuel S g cur reaped repos w
      | Some (owner, repo) \<Rightarrow>
          (case list_runners fuel S g owner repo VM_NAME_PREFIX w of
             None \<Rightarrow> None
           | Some (Inl e, w1) \<Rightarrow> sweep_repos fuel S g cur reaped repos w1
           | Some (Inr runners, w1) \<Rightarrow>
               sweep_repos fuel S g cur reaped repos
                 (delete_runners S g owner repo
                    (plan_runner_reaps_from_cur cur runners reaped (disk w1)) w1)))"

section \<open>The periodic sweep\<close>

definition the_spool :: "config \<Rightarrow> spool" where
  "the_spool c = \<lparr>root = spool_dir c\<rparr>"

definition prune_all :: "config \<Rightarrow> fsys \<Rightarrow> fsys" where
  "prune_all c fs =
     (let fs1 = prune_old_archives (join (spool_dir c) ''done'') (join (spool_dir c) ''error'')
                  (archive_retention_secs c) fs;
          fs2 = prune_serial_logs (join (state_dir c) ''logs'') (serial_log_retention_secs c) fs1
      in prune_stale_jit_blobs (join (state_dir c) ''instances'') (cur_claim_max_age_secs c) fs2)"

definition sweep_vms :: "'e services \<Rightarrow> config \<Rightarrow> 'e world \<Rightarrow> string set \<times> 'e world" where
  "sweep_vms S c w =
     (let cur = join (spool_dir c) ''cur'';
          live_map = (case live_vm_map_from_cur cur (disk w) of Inr m \<Rightarrow> Some m | Inl _ \<Rightarrow> None);
          current = current_template_image (lima_template c) (disk w)
      in case list_instances S w of
           (Inl e, w1) \<Rightarrow> execute_vm_reaps S (the_spool c) current (plan_vm_reaps [] live_map current) {} w1
         | (Inr instances, w1) \<Rightarrow>
             execute_vm_reaps S (the_spool c) current
               (plan_vm_reaps (managed_of live_map (disk w1) instances) live_map current) {} w1)"

definition sweep_inner ::
    "nat \<Rightarrow> 'e services \<Rightarrow> gh_client \<Rightarrow> config \<Rightarrow> 'e world \<Rightarrow> (unit res \<times> 'e world) option" where
  "sweep_inner fuel S g c w =
     (case on_disk (expire_stale_cur (the_spool c) (cur_claim_max_age_secs c)) w of
        (Inl e, w1) \<Rightarrow> Some (Inl e, w1)
      | (Inr _, w1) \<Rightarrow>
          (case sweep_vms S c (w1\<lparr>disk := prune_all c (disk w1)\<rparr>) of
             (reaped, w2) \<Rightarrow>
               map_option (\<lambda>w3. (Inr (), w3))
                 (sweep_repos fuel S g (join (spool_dir c) ''cur'') reaped (allowed_repos c) w2)))"

definition sweep :: "nat \<Rightarrow> 'e services \<Rightarrow> gh_client \<Rightarrow> config \<Rightarrow> 'e world \<Rightarrow> 'e world option" where
  "sweep fuel S g c w = map_option snd (sweep_inner fuel S g c w)"

section \<open>The reap at startup\<close>

definition STARTUP_DELETE_ATTEMPTS :: nat where "STARTUP_DELETE_ATTEMPTS = 3"
definition STARTUP_DELETE_BACKOFF :: nat where "STARTUP_DELETE_BACKOFF = secs 2"

text \<open>\<open>left\<close> attempts are left; between two of them the task sleeps.\<close>

fun delete_attempts :: "nat \<Rightarrow> 'e services \<Rightarrow> string \<Rightarrow> err option \<Rightarrow> 'e world \<Rightarrow> unit res \<times> 'e world" where
  "delete_attempts 0 S name last_err w =
     (case last_err of Some e \<Rightarrow> (Inl e, w) | None \<Rightarrow> (Inl (Msg ''no attempt''), w))"
| "delete_attempts (Suc left) S name last_err w =
     (case lima_delete S name w of
        (Inr _, w1) \<Rightarrow> (Inr (), w1)
      | (Inl e, w1) \<Rightarrow>
          delete_attempts left S name (Some e) (if left = 0 then w1 else sleep S STARTUP_DELETE_BACKOFF w1))"

definition delete_with_retry :: "'e services \<Rightarrow> string \<Rightarrow> 'e world \<Rightarrow> unit res \<times> 'e world" where
  "delete_with_retry S name w = delete_attempts STARTUP_DELETE_ATTEMPTS S name None w"

text \<open>The delete loop, with the names listed and those that survived.\<close>

fun reap_instances ::
    "'e services \<Rightarrow> (string \<times> path option) list \<Rightarrow> string set \<Rightarrow> string set \<Rightarrow> 'e world
     \<Rightarrow> string set \<times> string set \<times> 'e world"
where
  "reap_instances S [] listed failed w = (listed, failed, w)"
| "reap_instances S ((name, _) # instances) listed failed w =
     (if \<not> is_managed_vm_name name then reap_instances S instances listed failed w
      else
        (let w1 = snd (lima_stop S name w) in
         case delete_with_retry S name w1 of
           (Inl e, w2) \<Rightarrow> reap_instances S instances (insert name listed) (insert name failed) w2
         | (Inr _, w2) \<Rightarrow> reap_instances S instances (insert name listed) failed w2))"

fun finalize_all :: "spool \<Rightarrow> (path \<times> startup_finalize_reason) list \<Rightarrow> fsys \<Rightarrow> fsys" where
  "finalize_all s [] fs = fs"
| "finalize_all s ((p, r) # fins) fs = finalize_all s fins (snd (finalize_error s p (message r) fs))"

definition reap_all_managed_vms_at_startup :: "'e services \<Rightarrow> config \<Rightarrow> 'e world \<Rightarrow> 'e world" where
  "reap_all_managed_vms_at_startup S c w =
     (let claims = (case live_vm_map_from_cur (join (spool_dir c) ''cur'') (disk w) of Inr m \<Rightarrow> m | Inl _ \<Rightarrow> [])
      in case list_instances S w of
           (Inl e, w1) \<Rightarrow> w1
         | (Inr instances, w1) \<Rightarrow>
             (case reap_instances S instances {} {} w1 of
                (listed, failed, w2) \<Rightarrow>
                  w2\<lparr>disk := finalize_all (the_spool c)
                               (plan_startup_claim_finalizes claims listed failed) (disk w2)\<rparr>))"

section \<open>Facts\<close>

text \<open>\<open>limactl\<close> does not touch the files of the spool (it is not told where they are).\<close>

definition limactl_keeps_disk :: "'e services \<Rightarrow> bool" where
  "limactl_keeps_disk S \<longleftrightarrow> (\<forall>argv t w. disk (snd (limactl S argv t w)) = disk w)"

lemma run_keeps_disk: "limactl_keeps_disk S \<Longrightarrow> disk (snd (run_with_timeout S argv t what w)) = disk w"
  unfolding limactl_keeps_disk_def run_with_timeout_def by (auto split: prod.split cmd_result.split) (metis snd_conv)+

lemma stop_keeps_disk: "limactl_keeps_disk S \<Longrightarrow> disk (snd (lima_stop S n w)) = disk w"
  using run_keeps_disk [of S "[''stop'', ''--force'', n]" STOP_TIMEOUT "''limactl stop''" w]
  by (simp add: lima_stop_def case_prod_beta split: sum.split)

lemma list_keeps_disk: "limactl_keeps_disk S \<Longrightarrow> disk (snd (list_instances S w)) = disk w"
  unfolding limactl_keeps_disk_def list_instances_def list_instances_detailed_def
  by (auto split: prod.split cmd_result.split sum.split if_splits) (metis snd_conv)+

lemma delete_keeps_disk:
  assumes "limactl_keeps_disk S"
  shows "disk (snd (lima_delete S n w)) = disk w"
proof -
  have "disk (snd (instance_exists S n w1)) = disk w1" for w1
    using list_keeps_disk [OF assms, of w1] by (simp add: instance_exists_def case_prod_beta split: sum.split)
  with run_keeps_disk [OF assms, of "[''delete'', ''--force'', n]" DELETE_TIMEOUT "''limactl delete''" w]
  show ?thesis by (simp add: lima_delete_def case_prod_beta split: sum.split)
qed

lemma execute_vm_reaps_mono:
  "execute_vm_reaps S s current reaps reaped w = (reaped', w') \<Longrightarrow> reaped \<subseteq> reaped'"
proof (induction S s current reaps reaped w rule: execute_vm_reaps.induct)
  case (3 S s current name cur_path loc reaps reaped w)
  show ?case
  proof (cases "fst (lima_delete S name (snd (lima_stop S name w)))")
    case (Inl e)
    with 3 show ?thesis by (simp add: Let_def case_prod_beta) (metis prod.collapse)
  next
    case (Inr u)
    with 3 show ?thesis by (simp add: Let_def case_prod_beta) (metis prod.collapse insert_subset)
  qed
qed (simp_all add: Let_def)

lemma finalize_error_cur_keeps:
  assumes "healthy fs" and "q \<noteq> cur_path_of s n"
    and "q = cur_path_of s m"
  shows "healthy (snd (finalize_error s q r fs))
       \<and> get (snd (finalize_error s q r fs)) (cur_path_of s n) = get fs (cur_path_of s n)"
  using assms finalize_error_cur_other [OF assms(1), of n m s r] finalize_error_healthy [OF assms(1), of s m r]
  by auto

text \<open>A claim stays as it is unless the VM planned for it was really deleted.\<close>

lemma execute_vm_reaps_keeps_claim:
  assumes "limactl_keeps_disk S"
  shows "execute_vm_reaps S s current reaps reaped w = (reaped', w') \<Longrightarrow> healthy (disk w) \<Longrightarrow>
    (\<And>nm q l. StaleImage nm q l \<in> set reaps \<Longrightarrow> \<exists>m. q = cur_path_of s m) \<Longrightarrow>
    (\<And>nm l. StaleImage nm (cur_path_of s n) l \<in> set reaps \<Longrightarrow> nm \<notin> reaped') \<Longrightarrow>
    healthy (disk w') \<and> get (disk w') (cur_path_of s n) = get (disk w) (cur_path_of s n)"
proof (induction reaps arbitrary: reaped w)
  case (Cons reap reaps)
  have P3: "\<And>nm q l. StaleImage nm q l \<in> set reaps \<Longrightarrow> \<exists>m. q = cur_path_of s m"
    using Cons.prems(3) by (meson list.set_intros(2))
  have P4: "\<And>nm l. StaleImage nm (cur_path_of s n) l \<in> set reaps \<Longrightarrow> nm \<notin> reaped'"
    using Cons.prems(4) by (meson list.set_intros(2))
  show ?case
  proof (cases reap)
    case (Orphan name)
    let ?w2 = "snd (lima_delete S name (snd (lima_stop S name w)))"
    have dw: "disk ?w2 = disk w" by (simp add: delete_keeps_disk stop_keeps_disk assms)
    from Cons.prems(1) Orphan have "execute_vm_reaps S s current reaps reaped ?w2 = (reaped', w')"
      by (simp add: Let_def)
    from Cons.IH [OF this _ P3 P4] Cons.prems(2) dw show ?thesis by simp
  next
    case (StaleImage name q loc)
    obtain r w2 where d: "lima_delete S name (snd (lima_stop S name w)) = (r, w2)" by fastforce
    then have "w2 = snd (lima_delete S name (snd (lima_stop S name w)))" by simp
    then have dw: "disk w2 = disk w" by (simp add: delete_keeps_disk stop_keeps_disk assms)
    show ?thesis
    proof (cases r)
      case (Inl e)
      with Cons.prems(1) StaleImage d have "execute_vm_reaps S s current reaps reaped w2 = (reaped', w')"
        by (simp add: Let_def)
      from Cons.IH [OF this _ P3 P4] Cons.prems(2) dw show ?thesis by simp
    next
      case (Inr u)
      define w3 where "w3 = snd (on_disk (finalize_error s q (stale_reason loc (current_location_text current))) w2)"
      from Cons.prems(1) StaleImage d Inr
      have ex: "execute_vm_reaps S s current reaps (insert name reaped) w3 = (reaped', w')"
        by (simp add: Let_def w3_def)
      then have "name \<in> reaped'" using execute_vm_reaps_mono by blast
      with Cons.prems(4) [of name loc] StaleImage have "q \<noteq> cur_path_of s n" by auto
      moreover from Cons.prems(3) [of name q loc] StaleImage obtain m where "q = cur_path_of s m" by auto
      ultimately have "healthy (disk w3) \<and> get (disk w3) (cur_path_of s n) = get (disk w) (cur_path_of s n)"
        using finalize_error_cur_keeps [of "disk w2" q s n m] Cons.prems(2) dw by (simp add: w3_def)
      with Cons.IH [OF ex _ P3 P4] show ?thesis by simp
    qed
  qed
qed simp

lemma claim_entry_healthy:
  "healthy fs \<Longrightarrow> get fs (join d n) \<noteq> None \<Longrightarrow>
   claim_entry d fs n = (if valid_utf8 n then parse_spool_filename n else None)"
  by (auto simp: claim_entry_def healthy_def no_faults_def regular_only_def split: option.split)

section \<open>Properties\<close>


definition claimed_seven :: fsys where
  "claimed_seven = calm_fs [(cur_path_of demo_spool (canonical_name 7), plain_file ''x'' 90)] 90"

lemma claimed_seven_ids:
  "readable_dir (cur_dir demo_spool) claimed_seven" "7 \<in> claimed_ids (cur_dir demo_spool) claimed_seven"
  "healthy claimed_seven"
proof -
  show "readable_dir (cur_dir demo_spool) claimed_seven"
    by (simp add: readable_dir_def claimed_seven_def calm_fs_def)
  show h: "healthy claimed_seven" by (simp add: claimed_seven_def plain_file_def)
  have "valid_utf8 (canonical_name 7)" by code_simp
  moreover have g: "get claimed_seven (cur_path_of demo_spool (canonical_name 7)) \<noteq> None"
    by (simp add: claimed_seven_def calm_fs_def get_def)
  ultimately show "7 \<in> claimed_ids (cur_dir demo_spool) claimed_seven"
    unfolding claimed_ids_def using claim_entry_healthy [OF h g]
    by (intro CollectI exI [of _ "canonical_name 7"]) simp
qed


end
