(* ===== verification/Reconcile.thy ===== *)
theory Reconcile
  imports Gc_Sweep
begin

text \<open>
  The queued-job reconciler (\<open>gc.rs: reconcile_inner\<close>): for each allowed repository it mints a
  claim for every queued job that no live claim and no idle runner covers, as long as permits last and
  the daemon is not paused.  Handing a job to \<open>spawn_job\<close> is an entry of \<open>spawned\<close>, which
  holds the permit.
\<close>

definition mint_for_job ::
    "'e services \<Rightarrow> u32 \<Rightarrow> spool \<Rightarrow> bytes \<Rightarrow> string \<Rightarrow> job_status \<Rightarrow> 'e world \<Rightarrow> 'e world"
where
  "mint_for_job S pid s secret repo_full job w =
     (case on_disk (write_synthetic_claim (the_crates S) pid s job repo_full secret) w of
        (Inr (Some cur_path), w1) \<Rightarrow> w1\<lparr>spawned := spawned w1 @ [(build_event repo_full job, cur_path)]\<rparr>
      | (Inr None, w1) \<Rightarrow> w1\<lparr>permits := Suc (permits w1)\<rparr>
      | (Inl e, w1) \<Rightarrow> w1\<lparr>permits := Suc (permits w1)\<rparr>)"

text \<open>The loop over one repository's jobs; \<open>True\<close> means that the whole pass returns.\<close>

fun reconcile_jobs ::
    "'e services \<Rightarrow> config \<Rightarrow> u32 \<Rightarrow> spool \<Rightarrow> bytes \<Rightarrow> string set \<Rightarrow> string \<Rightarrow> string set \<Rightarrow> string set
     \<Rightarrow> job_status list \<Rightarrow> 'e world \<Rightarrow> bool \<times> 'e world"
where
  "reconcile_jobs S c pid s secret advertised repo_full live idle [] w = (False, w)"
| "reconcile_jobs S c pid s secret advertised repo_full live idle (job # jobs) w =
     (if paused w then (True, w)
      else if classify_job_labels (js_labels job) (runner_label c) advertised \<noteq> Accept
        then reconcile_jobs S c pid s secret advertised repo_full live idle jobs w
      else if \<not> should_mint (vm_name (js_id job)) live idle
        then reconcile_jobs S c pid s secret advertised repo_full live idle jobs w
      else if permits w = 0 then (True, w)
      else
        (let w1 = preempt S (w\<lparr>permits := permits w - 1\<rparr>) in
         if paused w1 then (True, w1\<lparr>permits := Suc (permits w1)\<rparr>)
         else reconcile_jobs S c pid s secret advertised repo_full live idle jobs
                (mint_for_job S pid s secret repo_full job w1)))"

definition idle_names :: "runner list \<Rightarrow> string set" where
  "idle_names rs = runner_name ` set (filter (\<lambda>r. is_managed_vm_name (runner_name r) \<and> runner_can_serve r) rs)"

fun reconcile_repos ::
    "nat \<Rightarrow> 'e services \<Rightarrow> gh_client \<Rightarrow> config \<Rightarrow> u32 \<Rightarrow> spool \<Rightarrow> bytes \<Rightarrow> string set \<Rightarrow> string set
     \<Rightarrow> string list \<Rightarrow> 'e world \<Rightarrow> 'e world option"
where
  "reconcile_repos fuel S g c pid s secret advertised live [] w = Some w"
| "reconcile_repos fuel S g c pid s secret advertised live (repo_full # repos) w =
     (if paused w then Some w
      else (case split_once (CHR ''/'') repo_full of
              None \<Rightarrow> reconcile_repos fuel S g c pid s secret advertised live repos w
            | Some (owner, repo) \<Rightarrow>
                (case list_runners fuel S g owner repo VM_NAME_PREFIX w of
                   None \<Rightarrow> None
                 | Some (Inl e, w1) \<Rightarrow> reconcile_repos fuel S g c pid s secret advertised live repos w1
                 | Some (Inr rs, w1) \<Rightarrow>
                     (case list_queued_jobs fuel S g owner repo w1 of
                        None \<Rightarrow> None
                      | Some (Inl e, w2) \<Rightarrow> reconcile_repos fuel S g c pid s secret advertised live repos w2
                      | Some (Inr queued, w2) \<Rightarrow>
                          (case reconcile_jobs S c pid s secret advertised repo_full live (idle_names rs) queued w2 of
                             (True, w3) \<Rightarrow> Some w3
                           | (False, w3) \<Rightarrow> reconcile_repos fuel S g c pid s secret advertised live repos w3)))))"

definition reconcile_inner ::
    "nat \<Rightarrow> 'e services \<Rightarrow> gh_client \<Rightarrow> config \<Rightarrow> u32 \<Rightarrow> spool \<Rightarrow> bytes \<Rightarrow> string set \<Rightarrow> 'e world
     \<Rightarrow> (unit res \<times> 'e world) option"
where
  "reconcile_inner fuel S g c pid s secret advertised w =
     (case live_vm_names_from_cur (join (spool_dir c) ''cur'') (disk w) of
        Inl e \<Rightarrow> Some (Inl e, w)
      | Inr live \<Rightarrow>
          map_option (\<lambda>w1. (Inr (), w1))
            (reconcile_repos fuel S g c pid s secret advertised live (allowed_repos c) w))"

definition reconcile ::
    "nat \<Rightarrow> 'e services \<Rightarrow> gh_client \<Rightarrow> config \<Rightarrow> u32 \<Rightarrow> spool \<Rightarrow> bytes \<Rightarrow> string set \<Rightarrow> 'e world
     \<Rightarrow> 'e world option"
where
  "reconcile fuel S g c pid s secret advertised w =
     map_option snd (reconcile_inner fuel S g c pid s secret advertised w)"

section \<open>Facts\<close>

text \<open>Other threads may flip the pause flag, nothing else of the pass.\<close>

definition preempt_only_pauses :: "'e services \<Rightarrow> bool" where
  "preempt_only_pauses S \<longleftrightarrow>
     (\<forall>w. permits (preempt S w) = permits w \<and> spawned (preempt S w) = spawned w
        \<and> disk (preempt S w) = disk w)"

lemma mint_for_job_cases:
  obtains (minted) p where "fst (write_synthetic_claim (the_crates S) pid s job repo secret (disk w)) = Inr (Some p)"
      "permits (mint_for_job S pid s secret repo job w) = permits w"
      "spawned (mint_for_job S pid s secret repo job w) = spawned w @ [(build_event repo job, p)]"
  | (released) "\<And>p. fst (write_synthetic_claim (the_crates S) pid s job repo secret (disk w)) \<noteq> Inr (Some p)"
      "permits (mint_for_job S pid s secret repo job w) = Suc (permits w)"
      "spawned (mint_for_job S pid s secret repo job w) = spawned w"
proof -
  obtain r w1 where r: "on_disk (write_synthetic_claim (the_crates S) pid s job repo secret) w = (r, w1)"
    by fastforce
  then have "r = fst (on_disk (write_synthetic_claim (the_crates S) pid s job repo secret) w)"
    "w1 = snd (on_disk (write_synthetic_claim (the_crates S) pid s job repo secret) w)" by simp_all
  then have rw: "fst (write_synthetic_claim (the_crates S) pid s job repo secret (disk w)) = r"
    "permits w1 = permits w" "spawned w1 = spawned w" by simp_all
  show ?thesis
  proof (cases "\<exists>p. r = Inr (Some p)")
    case True
    with r rw show ?thesis by (auto intro: minted simp: mint_for_job_def)
  next
    case False
    with r rw show ?thesis
      by (intro released) (auto simp: mint_for_job_def split: sum.split option.split)
  qed
qed

text \<open>What one pass over a repository's jobs spawns.\<close>

definition mintable :: "config \<Rightarrow> string set \<Rightarrow> string set \<Rightarrow> string set \<Rightarrow> job_status \<Rightarrow> bool" where
  "mintable c advertised live idle job \<longleftrightarrow>
     labels_acceptable (runner_label c) advertised (js_labels job)
     \<and> vm_name (js_id job) \<notin> live \<and> vm_name (js_id job) \<notin> idle"

lemma mint_for_job_path:
  assumes "fst (write_synthetic_claim C pid s job repo secret fs) = Inr (Some p)"
  shows "p = cur_path_of s (canonical_name (js_id job))"
proof -
  from assms have "write_synthetic_claim C pid s job repo secret fs
      = (Inr (Some p), snd (write_synthetic_claim C pid s job repo secret fs))"
    by (simp add: prod_eq_iff)
  from write_synthetic_Some [OF this] show ?thesis by blast
qed

lemma reconcile_jobs_spawned:
  assumes "preempt_only_pauses S"
  shows "reconcile_jobs S c pid s secret advertised repo live idle jobs w = (stop, w') \<Longrightarrow>
    \<exists>minted. set minted \<subseteq> {j \<in> set jobs. mintable c advertised live idle j}
      \<and> spawned w' = spawned w @ map (\<lambda>j. (build_event repo j, cur_path_of s (canonical_name (js_id j)))) minted
      \<and> length minted + permits w' = permits w
      \<and> (distinct (map js_id jobs) \<longrightarrow> distinct (map js_id minted))"
proof (induction jobs arbitrary: w)
  case (Cons job jobs)
  let ?w1 = "preempt S (w\<lparr>permits := permits w - 1\<rparr>)"
  from assms have pre: "permits ?w1 = permits w - 1" "spawned ?w1 = spawned w"
    by (simp_all add: preempt_only_pauses_def)
  show ?case
  proof (cases "paused w \<or> \<not> mintable c advertised live idle job \<or> permits w = 0 \<or> paused ?w1")
    case True
    show ?thesis
    proof (cases "\<not> paused w \<and> \<not> mintable c advertised live idle job")
      case True
      with Cons.prems have "reconcile_jobs S c pid s secret advertised repo live idle jobs w = (stop, w')"
        by (auto simp: mintable_def should_mint_def label_verdict_cases split: if_splits)
      from Cons.IH [OF this] show ?thesis by auto
    next
      case False
      with True Cons.prems pre have "spawned w' = spawned w \<and> permits w' = permits w"
        by (auto simp: mintable_def should_mint_def label_verdict_cases Let_def split: if_splits)
      then show ?thesis by (intro exI [of _ "[]"]) simp
    qed
  next
    case False
    then have mj: "mintable c advertised live idle job" "permits w \<noteq> 0" by simp_all
    from False Cons.prems
    have rec: "reconcile_jobs S c pid s secret advertised repo live idle jobs
        (mint_for_job S pid s secret repo job ?w1) = (stop, w')"
      by (auto simp: mintable_def should_mint_def label_verdict_cases Let_def split: if_splits)
    from Cons.IH [OF rec] obtain minted where m:
      "set minted \<subseteq> {j \<in> set jobs. mintable c advertised live idle j}"
      "spawned w' = spawned (mint_for_job S pid s secret repo job ?w1)
         @ map (\<lambda>j. (build_event repo j, cur_path_of s (canonical_name (js_id j)))) minted"
      "length minted + permits w' = permits (mint_for_job S pid s secret repo job ?w1)"
      "distinct (map js_id jobs) \<longrightarrow> distinct (map js_id minted)" by blast
    show ?thesis
    proof (cases rule: mint_for_job_cases [of S pid s job repo secret ?w1])
      case (minted p)
      with mint_for_job_path [OF minted(1)] m pre mj show ?thesis
        by (intro exI [of _ "job # minted"]) auto
    next
      case released
      with m pre mj show ?thesis by (intro exI [of _ minted]) auto
    qed
  qed
qed simp

lemma sorted_queued:
  assumes "list_queued_jobs fuel S g owner repo w = Some (Inr jobs, w')"
  shows "distinct (map js_id jobs) \<and> list_all (\<lambda>j. js_status j = ''queued'') jobs"
  using list_queued_jobs_sound [OF assms] strict_sorted_iff by blast

section \<open>Properties\<close>



end
