(* ===== verification/Supervisor_Loop.thy ===== *)
theory Supervisor_Loop
  imports Reconcile Step_System
begin

text \<open>
  The daemon's concurrency (\<open>supervisor.rs\<close>: \<open>run\<close>, \<open>run_shutdown\<close>, \<open>supervise\<close>): the
  dispatch loop, the reconciler's minting, the worker tasks and the shutdown share one semaphore and one
  pause flag.  A step is what one task does between two points at which it waits for another one; the
  operations of the spool are single steps here (\<open>Spool_History\<close> takes the claim apart).  The semaphore is tokio's: a request that
  cannot be served at once waits in a queue, released permits go to its head, and a waiting request for
  several permits keeps what it was given.
\<close>

section \<open>State\<close>

datatype dispatch_pc =
  AwaitName
| AwaitUnpaused string
| AwaitPermit string
| Holding string
| Preparing string

datatype reconcile_pc =
  RcIdle
| RcCandidate job_status string
| RcHolding job_status string
| RcMinting job_status string

datatype shutdown_pc = Serving | Draining | Drained | Forced | Failed err

datatype waiter = DispatchWaiter | DrainWaiter nat

record sup_params =
  pr_crates :: crates
  pr_spool :: spool
  pr_config :: config
  pr_secret :: bytes
  pr_pid :: u32

record sup =
  sup_fs :: fsys
  pause_flag :: bool
  free :: nat
  waiters :: "waiter list"
  dispatch_at :: dispatch_pc
  reconcile_at :: reconcile_pc
  shutdown_at :: shutdown_pc
  running :: "(workflow_job \<times> path) list"

section \<open>The semaphore\<close>

text \<open>The permits the drain asks for: \<open>u32::try_from(max_concurrency).unwrap_or(u32::MAX)\<close>.\<close>

definition drain_need :: "config \<Rightarrow> nat" where
  "drain_need c = min (max_concurrency c) (2 ^ 32 - 1)"

definition granted :: "dispatch_pc \<Rightarrow> dispatch_pc" where
  "granted pc = (case pc of AwaitPermit name \<Rightarrow> Holding name | _ \<Rightarrow> pc)"

text \<open>One permit comes back: dropping an \<open>OwnedSemaphorePermit\<close>.\<close>

definition release :: "sup \<Rightarrow> sup" where
  "release s =
     (case waiters s of
        [] \<Rightarrow> s\<lparr>free := Suc (free s)\<rparr>
      | DispatchWaiter # ws \<Rightarrow> s\<lparr>waiters := ws, dispatch_at := granted (dispatch_at s)\<rparr>
      | DrainWaiter k # ws \<Rightarrow>
          if k \<le> 1 then s\<lparr>waiters := ws, shutdown_at := Drained\<rparr>
          else s\<lparr>waiters := DrainWaiter (k - 1) # ws\<rparr>)"

text \<open>\<open>acquire_owned\<close> of the dispatch loop and \<open>acquire_many\<close> of the drain.\<close>

definition acquire_one :: "string \<Rightarrow> sup \<Rightarrow> sup" where
  "acquire_one name s =
     (if 0 < free s then s\<lparr>free := free s - 1, dispatch_at := Holding name\<rparr>
      else s\<lparr>waiters := waiters s @ [DispatchWaiter], dispatch_at := AwaitPermit name\<rparr>)"

definition acquire_many :: "nat \<Rightarrow> sup \<Rightarrow> sup" where
  "acquire_many n s =
     (if n \<le> free s then s\<lparr>free := free s - n, shutdown_at := Drained\<rparr>
      else s\<lparr>free := 0, waiters := waiters s @ [DrainWaiter (n - free s)]\<rparr>)"

text \<open>The first half of \<open>run_shutdown\<close>: pause, then ask for every permit.\<close>

definition begin_drain :: "config \<Rightarrow> sup \<Rightarrow> sup" where
  "begin_drain c s = acquire_many (drain_need c) (s\<lparr>pause_flag := True, shutdown_at := Draining\<rparr>)"

definition open_for_steps :: "sup \<Rightarrow> bool" where
  "open_for_steps s \<longleftrightarrow> shutdown_at s = Serving \<or> shutdown_at s = Draining"

section \<open>The end of a supervised task\<close>

datatype 'a join_end = Joined 'a | Panicked | Cancelled

definition describe_watcher_result :: "unit res join_end \<Rightarrow> err" where
  "describe_watcher_result res =
     (case res of
        Joined (Inr _) \<Rightarrow> Msg ''spool watcher exited without error but its channel closed''
      | Joined (Inl e) \<Rightarrow> Ctx ''spool watcher failed'' e
      | Panicked \<Rightarrow> Ctx ''spool watcher task panicked'' (Msg ''panic'')
      | Cancelled \<Rightarrow> Ctx ''spool watcher task panicked'' (Msg ''cancelled''))"

definition forever_task_death :: "string \<Rightarrow> unit join_end \<Rightarrow> err" where
  "forever_task_death name res =
     (case res of
        Joined _ \<Rightarrow> Msg (name @ '' task exited unexpectedly'')
      | Panicked \<Rightarrow> Ctx (name @ '' task panicked'') (Msg ''panic'')
      | Cancelled \<Rightarrow> Ctx (name @ '' task ended'') (Msg ''cancelled''))"

text \<open>
  \<open>supervise\<close> polls its arms in order; \<open>None\<close> is an arm that is pending.  \<open>late\<close> is what the
  watcher's handle yields when the dispatch loop ended because its channel closed.
\<close>

definition supervise ::
    "unit res join_end option \<Rightarrow> unit join_end option \<Rightarrow> unit join_end option \<Rightarrow> unit res option
     \<Rightarrow> unit res join_end \<Rightarrow> unit res option"
where
  "supervise watcher gc reconciler dispatch late =
     (case watcher of Some res \<Rightarrow> Some (Inl (describe_watcher_result res))
      | None \<Rightarrow>
     (case gc of Some res \<Rightarrow> Some (Inl (forever_task_death ''gc'' res))
      | None \<Rightarrow>
     (case reconciler of Some res \<Rightarrow> Some (Inl (forever_task_death ''reconciler'' res))
      | None \<Rightarrow>
     (case dispatch of
        None \<Rightarrow> None
      | Some (Inl e) \<Rightarrow> Some (Inl e)
      | Some (Inr _) \<Rightarrow> Some (Inl (describe_watcher_result late))))))"

section \<open>Steps of the daemon\<close>

definition prepare_entry :: "sup_params \<Rightarrow> string \<Rightarrow> fsys \<Rightarrow> prepared \<times> fsys" where
  "prepare_entry P name fs =
     prepare (pr_crates P) (pr_spool P) name (pr_config P) (pr_secret P)
       (allowed_repos_set (pr_config P)) (runner_labels_set (pr_config P)) fs"

definition start_job :: "workflow_job \<Rightarrow> path \<Rightarrow> sup \<Rightarrow> sup" where
  "start_job event cur_path s = s\<lparr>running := (event, cur_path) # running s\<rparr>"

text \<open>
  The rules \<open>dispatch_*\<close> are the body of the dispatch loop, \<open>reconcile_*\<close> the loop over queued jobs
  (which jobs it considers is up to GitHub), \<open>job_*\<close> the end of a worker task; one that panics gives
  its permit back like any other but leaves its claim.  The text of an error is left open.
\<close>

inductive own_step :: "sup_params \<Rightarrow> sup \<Rightarrow> sup \<Rightarrow> bool" for P :: sup_params where
  dispatch_unpaused:
    "open_for_steps s \<Longrightarrow> dispatch_at s = AwaitUnpaused name \<Longrightarrow> \<not> pause_flag s \<Longrightarrow>
     own_step P s (acquire_one name s)"
| dispatch_paused:
    "open_for_steps s \<Longrightarrow> dispatch_at s = Holding name \<Longrightarrow> pause_flag s \<Longrightarrow>
     own_step P s (release (s\<lparr>dispatch_at := AwaitUnpaused name\<rparr>))"
| dispatch_checked:
    "open_for_steps s \<Longrightarrow> dispatch_at s = Holding name \<Longrightarrow> \<not> pause_flag s \<Longrightarrow>
     own_step P s (s\<lparr>dispatch_at := Preparing name\<rparr>)"
| dispatch_run:
    "open_for_steps s \<Longrightarrow> dispatch_at s = Preparing name \<Longrightarrow>
     prepare_entry P name (sup_fs s) = (Run cur_path delivery event, fs) \<Longrightarrow>
     own_step P s (start_job event cur_path (s\<lparr>sup_fs := fs, dispatch_at := AwaitName\<rparr>))"
| dispatch_drop:
    "open_for_steps s \<Longrightarrow> dispatch_at s = Preparing name \<Longrightarrow>
     prepare_entry P name (sup_fs s) = (Drop cur_path reason, fs) \<Longrightarrow>
     own_step P s (release (s\<lparr>sup_fs := snd (finalize_done (pr_spool P) cur_path fs), dispatch_at := AwaitName\<rparr>))"
| dispatch_reject:
    "open_for_steps s \<Longrightarrow> dispatch_at s = Preparing name \<Longrightarrow>
     prepare_entry P name (sup_fs s) = (Reject cur_path reason, fs) \<Longrightarrow>
     own_step P s (release (s\<lparr>sup_fs := snd (finalize_error (pr_spool P) cur_path why fs), dispatch_at := AwaitName\<rparr>))"
| dispatch_skip:
    "open_for_steps s \<Longrightarrow> dispatch_at s = Preparing name \<Longrightarrow>
     prepare_entry P name (sup_fs s) = (Skip, fs) \<Longrightarrow>
     own_step P s (release (s\<lparr>sup_fs := fs, dispatch_at := AwaitName\<rparr>))"
| reconcile_pick:
    "open_for_steps s \<Longrightarrow> reconcile_at s = RcIdle \<Longrightarrow> \<not> pause_flag s \<Longrightarrow>
     classify_job_labels (js_labels job) (runner_label (pr_config P)) (runner_labels_set (pr_config P)) = Accept \<Longrightarrow>
     should_mint (vm_name (js_id job)) live idle \<Longrightarrow>
     own_step P s (s\<lparr>reconcile_at := RcCandidate job repo\<rparr>)"
| reconcile_full:
    "open_for_steps s \<Longrightarrow> reconcile_at s = RcCandidate job repo \<Longrightarrow> free s = 0 \<Longrightarrow>
     own_step P s (s\<lparr>reconcile_at := RcIdle\<rparr>)"
| reconcile_acquire:
    "open_for_steps s \<Longrightarrow> reconcile_at s = RcCandidate job repo \<Longrightarrow> 0 < free s \<Longrightarrow>
     own_step P s (s\<lparr>free := free s - 1, reconcile_at := RcHolding job repo\<rparr>)"
| reconcile_paused:
    "open_for_steps s \<Longrightarrow> reconcile_at s = RcHolding job repo \<Longrightarrow> pause_flag s \<Longrightarrow>
     own_step P s (release (s\<lparr>reconcile_at := RcIdle\<rparr>))"
| reconcile_checked:
    "open_for_steps s \<Longrightarrow> reconcile_at s = RcHolding job repo \<Longrightarrow> \<not> pause_flag s \<Longrightarrow>
     own_step P s (s\<lparr>reconcile_at := RcMinting job repo\<rparr>)"
| reconcile_minted:
    "open_for_steps s \<Longrightarrow> reconcile_at s = RcMinting job repo \<Longrightarrow>
     write_synthetic_claim (pr_crates P) (pr_pid P) (pr_spool P) job repo (pr_secret P) (sup_fs s) = (Inr (Some cur_path), fs) \<Longrightarrow>
     own_step P s (start_job (build_event repo job) cur_path (s\<lparr>sup_fs := fs, reconcile_at := RcIdle\<rparr>))"
| reconcile_not_minted:
    "open_for_steps s \<Longrightarrow> reconcile_at s = RcMinting job repo \<Longrightarrow>
     write_synthetic_claim (pr_crates P) (pr_pid P) (pr_spool P) job repo (pr_secret P) (sup_fs s) = (r, fs) \<Longrightarrow>
     \<not> (\<exists>p. r = Inr (Some p)) \<Longrightarrow>
     own_step P s (release (s\<lparr>sup_fs := fs, reconcile_at := RcIdle\<rparr>))"
| job_done:
    "open_for_steps s \<Longrightarrow> running s = before @ (event, cur_path) # after \<Longrightarrow>
     own_step P s (release (s\<lparr>running := before @ after, sup_fs := snd (finalize_done (pr_spool P) cur_path (sup_fs s))\<rparr>))"
| job_failed:
    "open_for_steps s \<Longrightarrow> running s = before @ (event, cur_path) # after \<Longrightarrow>
     own_step P s (release (s\<lparr>running := before @ after, sup_fs := snd (finalize_error (pr_spool P) cur_path why (sup_fs s))\<rparr>))"
| job_panics:
    "open_for_steps s \<Longrightarrow> running s = before @ (event, cur_path) # after \<Longrightarrow>
     own_step P s (release (s\<lparr>running := before @ after\<rparr>))"

text \<open>
  What comes from outside: a name from the watcher, the control endpoint's pause and resume, the
  signals (a second interrupt forces the end only while draining), the death of a task, and other
  users of the disk (the spooler, the GC).
\<close>

inductive env_step :: "sup_params \<Rightarrow> sup \<Rightarrow> sup \<Rightarrow> bool" for P :: sup_params where
  name_arrives:
    "open_for_steps s \<Longrightarrow> dispatch_at s = AwaitName \<Longrightarrow> env_step P s (s\<lparr>dispatch_at := AwaitUnpaused name\<rparr>)"
| control: "open_for_steps s \<Longrightarrow> env_step P s (s\<lparr>pause_flag := b\<rparr>)"
| first_signal: "shutdown_at s = Serving \<Longrightarrow> env_step P s (begin_drain (pr_config P) s)"
| second_interrupt: "shutdown_at s = Draining \<Longrightarrow> env_step P s (s\<lparr>shutdown_at := Forced\<rparr>)"
| task_dies:
    "open_for_steps s \<Longrightarrow> supervise watcher gc reconciler dispatch late = Some r \<Longrightarrow> r = Inl e \<Longrightarrow>
     env_step P s (s\<lparr>shutdown_at := Failed e\<rparr>)"
| disk_changes: "open_for_steps s \<Longrightarrow> env_step P s (s\<lparr>sup_fs := fs\<rparr>)"

definition initial :: "sup_params \<Rightarrow> sup \<Rightarrow> bool" where
  "initial P s \<longleftrightarrow>
     \<not> pause_flag s \<and> free s = max_concurrency (pr_config P) \<and> waiters s = [] \<and> dispatch_at s = AwaitName
     \<and> reconcile_at s = RcIdle \<and> shutdown_at s = Serving \<and> running s = []"

definition daemon_step :: "sup_params \<Rightarrow> sup \<Rightarrow> sup \<Rightarrow> bool" where
  "daemon_step P s s' \<longleftrightarrow> own_step P s s' \<or> env_step P s s'"

abbreviation reachable :: "sup_params \<Rightarrow> sup \<Rightarrow> bool" where
  "reachable P \<equiv> gets_to (initial P) (daemon_step P)"

inductive_cases own_stepE: "own_step P s s'"
inductive_cases env_stepE: "env_step P s s'"

text \<open>The daemon's exit status, once it has one.\<close>

definition exit_status :: "sup \<Rightarrow> unit res option" where
  "exit_status s =
     (case shutdown_at s of
        Drained \<Rightarrow> Some (Inr ()) | Forced \<Rightarrow> Some (Inr ()) | Failed e \<Rightarrow> Some (Inl e) | _ \<Rightarrow> None)"

section \<open>The invariant\<close>

definition dispatch_holds :: "dispatch_pc \<Rightarrow> nat" where
  "dispatch_holds pc = (case pc of Holding _ \<Rightarrow> 1 | Preparing _ \<Rightarrow> 1 | _ \<Rightarrow> 0)"

definition reconcile_holds :: "reconcile_pc \<Rightarrow> nat" where
  "reconcile_holds pc = (case pc of RcHolding _ _ \<Rightarrow> 1 | RcMinting _ _ \<Rightarrow> 1 | _ \<Rightarrow> 0)"

definition jobs :: "sup \<Rightarrow> nat" where
  "jobs s = length (running s)"

text \<open>What the shutdown holds: all of it once drained, its share while it waits.\<close>

fun drain_holds :: "nat \<Rightarrow> shutdown_pc \<Rightarrow> waiter list \<Rightarrow> nat" where
  "drain_holds n sh [] = (if sh = Drained then n else 0)"
| "drain_holds n sh (DispatchWaiter # ws) = drain_holds n sh ws"
| "drain_holds n sh (DrainWaiter k # ws) = n - k"

text \<open>\<open>m\<close> permits are on their way back.\<close>

definition sup_inv :: "nat \<Rightarrow> nat \<Rightarrow> sup \<Rightarrow> bool" where
  "sup_inv n m s \<longleftrightarrow>
     m + free s + dispatch_holds (dispatch_at s) + reconcile_holds (reconcile_at s) + jobs s
       + drain_holds n (shutdown_at s) (waiters s) = n
     \<and> (waiters s \<noteq> [] \<longrightarrow> free s = 0)
     \<and> (DispatchWaiter \<in> set (waiters s) \<longleftrightarrow> (\<exists>name. dispatch_at s = AwaitPermit name))
     \<and> distinct (map (\<lambda>w. w = DispatchWaiter) (waiters s))
     \<and> (\<forall>k. DrainWaiter k \<in> set (waiters s) \<longrightarrow> 0 < k \<and> k \<le> n)
     \<and> (shutdown_at s = Draining \<longrightarrow> (\<exists>k. DrainWaiter k \<in> set (waiters s)))
     \<and> (shutdown_at s = Serving \<or> shutdown_at s = Drained \<longrightarrow> (\<forall>k. DrainWaiter k \<notin> set (waiters s)))"

lemma jobs_simps [simp]:
  "jobs (s\<lparr>free := f\<rparr>) = jobs s" "jobs (s\<lparr>waiters := ws\<rparr>) = jobs s" "jobs (s\<lparr>dispatch_at := d\<rparr>) = jobs s"
  "jobs (s\<lparr>shutdown_at := sh\<rparr>) = jobs s" "jobs (s\<lparr>sup_fs := fs\<rparr>) = jobs s" "jobs (s\<lparr>pause_flag := b\<rparr>) = jobs s"
  "jobs (s\<lparr>reconcile_at := r\<rparr>) = jobs s" "jobs (s\<lparr>running := js\<rparr>) = length js"
  "jobs (start_job ev p s) = Suc (jobs s)"
  by (simp_all add: jobs_def start_job_def)

lemma jobs_split: "running s = before @ x # after \<Longrightarrow> jobs s = Suc (length before + length after)"
  by (simp add: jobs_def)

lemmas holds_defs = dispatch_holds_def reconcile_holds_def granted_def

text \<open>At most one request of each kind waits.\<close>

lemma waiters_cases:
  assumes "distinct (map (\<lambda>w. w = DispatchWaiter) ws)"
  obtains "ws = []" | "ws = [DispatchWaiter]" | k where "ws = [DrainWaiter k]"
    | k where "ws = [DispatchWaiter, DrainWaiter k]" | k where "ws = [DrainWaiter k, DispatchWaiter]"
proof -
  have "length ws \<le> 2"
  proof -
    have "card (set (map (\<lambda>w. w = DispatchWaiter) ws)) \<le> card (UNIV :: bool set)" by (rule card_mono) auto
    then show ?thesis using distinct_card [OF assms] by simp
  qed
  then consider "ws = []" | w where "ws = [w]" | w v where "ws = [w, v]"
    by (cases ws; cases "tl ws"; cases "tl (tl ws)") auto
  then show thesis
  proof cases
    case 1
    with that(1) show thesis .
  next
    case (2 w)
    with that(2,3) show thesis by (cases w) auto
  next
    case (3 w v)
    with assms that(4,5) show thesis by (cases w; cases v) auto
  qed
qed

lemma release_inv:
  assumes "sup_inv n (Suc m) s" and "open_for_steps s"
  shows "sup_inv n m (release s)"
proof -
  from assms(1) have d: "distinct (map (\<lambda>w. w = DispatchWaiter) (waiters s))" by (simp add: sup_inv_def)
  from assms show ?thesis
    by (cases rule: waiters_cases [OF d]; cases "dispatch_at s")
       (auto simp: sup_inv_def release_def holds_defs open_for_steps_def)
qed

lemma acquire_one_inv:
  assumes "sup_inv n 0 s" and "\<And>name. dispatch_at s \<noteq> AwaitPermit name" and "dispatch_holds (dispatch_at s) = 0"
  shows "sup_inv n 0 (acquire_one name s)"
proof -
  from assms have d: "distinct (map (\<lambda>w. w = DispatchWaiter) (waiters s))" by (simp add: sup_inv_def)
  from assms show ?thesis
    by (cases rule: waiters_cases [OF d]; cases "shutdown_at s") (auto simp: sup_inv_def acquire_one_def holds_defs)
qed

lemma begin_drain_inv:
  assumes "sup_inv n 0 s" and "shutdown_at s = Serving" and "drain_need c = n"
  shows "sup_inv n 0 (begin_drain c s)"
proof -
  from assms have d: "distinct (map (\<lambda>w. w = DispatchWaiter) (waiters s))" by (simp add: sup_inv_def)
  from assms show ?thesis
    by (cases rule: waiters_cases [OF d]) (auto simp: sup_inv_def begin_drain_def acquire_many_def)
qed

lemma own_step_inv:
  assumes "own_step P s s'" and "sup_inv n 0 s"
  shows "sup_inv n 0 s'"
  using assms(1)
proof cases
  case (dispatch_unpaused name)
  then show ?thesis using assms(2) by (simp add: acquire_one_inv holds_defs)
next
  case (dispatch_paused name)
  show ?thesis unfolding dispatch_paused(1) using dispatch_paused(2-) assms(2)
    by (intro release_inv) (simp_all add: sup_inv_def holds_defs open_for_steps_def)
next
  case (dispatch_drop name p reason fs)
  show ?thesis unfolding dispatch_drop(1) using dispatch_drop(2-) assms(2)
    by (intro release_inv) (simp_all add: sup_inv_def holds_defs open_for_steps_def)
next
  case (dispatch_reject name p reason fs why)
  show ?thesis unfolding dispatch_reject(1) using dispatch_reject(2-) assms(2)
    by (intro release_inv) (simp_all add: sup_inv_def holds_defs open_for_steps_def)
next
  case (dispatch_skip name fs)
  show ?thesis unfolding dispatch_skip(1) using dispatch_skip(2-) assms(2)
    by (intro release_inv) (simp_all add: sup_inv_def holds_defs open_for_steps_def)
next
  case (reconcile_paused job repo)
  show ?thesis unfolding reconcile_paused(1) using reconcile_paused(2-) assms(2)
    by (intro release_inv) (simp_all add: sup_inv_def holds_defs open_for_steps_def)
next
  case (reconcile_not_minted job repo r fs)
  show ?thesis unfolding reconcile_not_minted(1) using reconcile_not_minted(2-) assms(2)
    by (intro release_inv) (simp_all add: sup_inv_def holds_defs open_for_steps_def)
next
  case (job_done before event p after)
  show ?thesis unfolding job_done(1) using job_done(2-) assms(2)
    by (intro release_inv) (simp_all add: sup_inv_def open_for_steps_def jobs_split)
next
  case (job_failed before event p after why)
  show ?thesis unfolding job_failed(1) using job_failed(2-) assms(2)
    by (intro release_inv) (simp_all add: sup_inv_def open_for_steps_def jobs_split)
next
  case (job_panics before event p after)
  show ?thesis unfolding job_panics(1) using job_panics(2-) assms(2)
    by (intro release_inv) (simp_all add: sup_inv_def open_for_steps_def jobs_split)
next
  case (reconcile_acquire job repo)
  then show ?thesis using assms(2) by (simp add: sup_inv_def holds_defs) auto
qed (use assms(2) in \<open>simp_all add: sup_inv_def holds_defs start_job_def jobs_def\<close>)

lemma env_step_inv:
  assumes "env_step P s s'" and "sup_inv n 0 s" and "drain_need (pr_config P) = n"
  shows "sup_inv n 0 s'"
  using assms(1)
proof cases
  case first_signal
  then show ?thesis using assms(2,3) by (simp add: begin_drain_inv)
next
  case second_interrupt
  have "drain_holds n Forced ws = drain_holds n Draining ws" for ws by (induction n Forced ws rule: drain_holds.induct) simp_all
  with second_interrupt show ?thesis using assms(2) by (simp add: sup_inv_def)
next
  case (task_dies w g r d l e2 e)
  then have "shutdown_at s \<noteq> Drained" by (auto simp: open_for_steps_def)
  then have "drain_holds n (Failed e) ws = drain_holds n (shutdown_at s) ws" for ws
    by (induction n "Failed e" ws rule: drain_holds.induct) simp_all
  with task_dies show ?thesis using assms(2) by (simp add: sup_inv_def)
qed (use assms(2) in \<open>simp_all add: sup_inv_def holds_defs\<close>)

text \<open>The permits, as long as they can all be asked for in one request.\<close>

definition permits_inv :: "sup_params \<Rightarrow> sup \<Rightarrow> bool" where
  "permits_inv P s \<longleftrightarrow> (max_concurrency (pr_config P) < 2 ^ 32 \<longrightarrow> sup_inv (max_concurrency (pr_config P)) 0 s)"

interpretation permits: step_system "initial P" "daemon_step P" "permits_inv P" for P
proof (unfold_locales, goal_cases)
  case (1 s)
  then show ?case by (simp add: permits_inv_def initial_def sup_inv_def holds_defs jobs_def)
next
  case (2 s s')
  have "drain_need (pr_config P) = max_concurrency (pr_config P)" if "max_concurrency (pr_config P) < 2 ^ 32"
    using that by (simp add: drain_need_def)
  with 2 show ?case using own_step_inv env_step_inv unfolding permits_inv_def daemon_step_def by metis
qed

lemma reachable_inv:
  "reachable P s \<Longrightarrow> max_concurrency (pr_config P) < 2 ^ 32 \<Longrightarrow> sup_inv (max_concurrency (pr_config P)) 0 s"
  using permits.gets_to_inv unfolding permits_inv_def by blast

text \<open>Once drained, every permit is the drain's.\<close>

lemma drained_holds:
  assumes "sup_inv n 0 s" and "shutdown_at s = Drained"
  shows "drain_holds n (shutdown_at s) (waiters s) = n"
proof -
  have "drain_holds n Drained ws = n" if "\<forall>k. DrainWaiter k \<notin> set ws" for ws
    using that by (induction n Drained ws rule: drain_holds.induct) auto
  with assms show ?thesis unfolding sup_inv_def by metis
qed

lemma drained_running: "sup_inv n 0 s \<Longrightarrow> shutdown_at s = Drained \<Longrightarrow> running s = []"
  using drained_holds [of n s] by (simp add: sup_inv_def jobs_def)

section \<open>A drain\<close>

text \<open>Jobs past their last look at the pause flag.\<close>

definition committed :: "sup \<Rightarrow> nat" where
  "committed s = (case dispatch_at s of Preparing _ \<Rightarrow> 1 | _ \<Rightarrow> 0)
               + (case reconcile_at s of RcMinting _ _ \<Rightarrow> 1 | _ \<Rightarrow> 0)"

text \<open>What is left to do while paused: every own step takes some of it.\<close>

definition drain_work :: "sup \<Rightarrow> nat" where
  "drain_work s = 2 * jobs s
     + (case dispatch_at s of AwaitName \<Rightarrow> 0 | AwaitUnpaused _ \<Rightarrow> 0 | AwaitPermit _ \<Rightarrow> 2 | Holding _ \<Rightarrow> 1 | Preparing _ \<Rightarrow> 3)
     + (case reconcile_at s of RcIdle \<Rightarrow> 0 | RcCandidate _ _ \<Rightarrow> 2 | RcHolding _ _ \<Rightarrow> 1 | RcMinting _ _ \<Rightarrow> 3)"

lemma release_drain:
  "jobs (release s) = jobs s" "reconcile_at (release s) = reconcile_at s" "pause_flag (release s) = pause_flag s"
  "sup_fs (release s) = sup_fs s"
  "dispatch_at (release s) = dispatch_at s \<or> dispatch_at (release s) = granted (dispatch_at s)"
  by (auto simp: release_def jobs_def split: list.split waiter.split)

lemma release_committed [simp]: "committed (release s) = committed s"
  using release_drain(2,5) [of s] by (auto simp: committed_def granted_def split: dispatch_pc.splits)

lemma release_work: "drain_work (release s) \<le> drain_work s"
  using release_drain(1,2,5) [of s] by (auto simp: drain_work_def granted_def split: dispatch_pc.splits)

lemma paused_release:
  assumes "drain_work t < drain_work s" and "committed t + jobs t \<le> committed s + jobs s" and "pause_flag t"
  shows "pause_flag (release t) \<and> drain_work (release t) < drain_work s
       \<and> committed (release t) + jobs (release t) \<le> committed s + jobs s"
  using assms release_drain(1,3) [of t] release_work [of t] by simp

lemma paused_job_end:
  assumes "running s = before @ x # after" and "pause_flag s" and "running t = before @ after"
    and "dispatch_at t = dispatch_at s" and "reconcile_at t = reconcile_at s" and "pause_flag t = pause_flag s"
  shows "pause_flag (release t) \<and> drain_work (release t) < drain_work s
       \<and> committed (release t) + jobs (release t) \<le> committed s + jobs s"
proof (rule paused_release)
  have "jobs t < jobs s" using assms(1,3) by (simp add: jobs_def)
  then show "drain_work t < drain_work s" "committed t + jobs t \<le> committed s + jobs s" "pause_flag t"
    using assms(2,4-6) by (simp_all add: drain_work_def committed_def)
qed

lemma paused_own_step:
  assumes "own_step P s s'" and "pause_flag s"
  shows "pause_flag s' \<and> drain_work s' < drain_work s
       \<and> committed s' + jobs s' \<le> committed s + jobs s"
  using assms(1)
proof cases
  case (job_done before event p after)
  show ?thesis unfolding job_done(1) by (rule paused_job_end [OF job_done(3) assms(2)]) simp_all
next
  case (job_failed before event p after why)
  show ?thesis unfolding job_failed(1) by (rule paused_job_end [OF job_failed(3) assms(2)]) simp_all
next
  case (job_panics before event p after)
  show ?thesis unfolding job_panics(1) by (rule paused_job_end [OF job_panics(3) assms(2)]) simp_all
next
  case (dispatch_paused name)
  show ?thesis unfolding dispatch_paused(1)
    by (rule paused_release) (use dispatch_paused assms(2) in \<open>simp_all add: drain_work_def committed_def\<close>)
next
  case (reconcile_paused job repo)
  show ?thesis unfolding reconcile_paused(1)
    by (rule paused_release) (use reconcile_paused assms(2) in \<open>simp_all add: drain_work_def committed_def\<close>)
next
  case (reconcile_not_minted job repo r fs)
  show ?thesis unfolding reconcile_not_minted(1)
    by (rule paused_release) (use reconcile_not_minted assms(2) in \<open>simp_all add: drain_work_def committed_def\<close>)
next
  case (dispatch_drop name p reason fs)
  show ?thesis unfolding dispatch_drop(1)
    by (rule paused_release) (use dispatch_drop assms(2) in \<open>simp_all add: drain_work_def committed_def\<close>)
next
  case (dispatch_reject name p reason fs why)
  show ?thesis unfolding dispatch_reject(1)
    by (rule paused_release) (use dispatch_reject assms(2) in \<open>simp_all add: drain_work_def committed_def\<close>)
next
  case (dispatch_skip name fs)
  show ?thesis unfolding dispatch_skip(1)
    by (rule paused_release) (use dispatch_skip assms(2) in \<open>simp_all add: drain_work_def committed_def\<close>)
qed (use assms(2) in \<open>simp_all add: drain_work_def committed_def start_job_def jobs_def\<close>)

text \<open>A step of a draining daemon keeps draining or finishes the drain.\<close>

lemma draining_own_step:
  assumes "own_step P s s'" and "shutdown_at s = Draining"
  shows "shutdown_at s' = Draining \<or> shutdown_at s' = Drained"
proof -
  have r: "shutdown_at t = Draining \<Longrightarrow> shutdown_at (release t) = Draining \<or> shutdown_at (release t) = Drained" for t
    by (simp add: release_def split: list.split waiter.split)
  from assms(1) show ?thesis
    by cases (use assms(2) in \<open>auto simp: start_job_def acquire_one_def intro!: r\<close>)
qed

text \<open>A step of a serving daemon keeps serving.\<close>

lemma serving_own_step:
  assumes "own_step P s s'" and "shutdown_at s = Serving" and "\<forall>k. DrainWaiter k \<notin> set (waiters s)"
  shows "shutdown_at s' = Serving"
proof -
  have r: "shutdown_at (release t) = Serving"
    if "shutdown_at t = Serving" "\<forall>k. DrainWaiter k \<notin> set (waiters t)" for t
    using that by (auto simp: release_def split: list.split waiter.split)
  from assms(1) show ?thesis
    by cases (use assms(2,3) in \<open>auto simp: start_job_def acquire_one_def intro!: r\<close>)
qed

text \<open>A paused daemon that still holds a permit can take a step.\<close>

lemma paused_progress:
  assumes "open_for_steps s" and "pause_flag s"
    and "0 < jobs s + dispatch_holds (dispatch_at s) + reconcile_holds (reconcile_at s)"
  shows "\<exists>s'. own_step P s s'"
proof -
  consider x rest where "running s = [] @ x # rest" | name where "dispatch_at s = Holding name" | name where "dispatch_at s = Preparing name"
    | job repo where "reconcile_at s = RcHolding job repo" | job repo where "reconcile_at s = RcMinting job repo"
    using assms(3) by (cases "running s"; cases "dispatch_at s"; cases "reconcile_at s") (auto simp: jobs_def holds_defs)
  then show ?thesis
  proof cases
    case (1 x rest)
    with assms(1) job_done show ?thesis by (cases x) metis
  next
    case (2 name)
    with assms dispatch_paused show ?thesis by metis
  next
    case (3 name)
    obtain pr fs where "prepare_entry P name (sup_fs s) = (pr, fs)" by fastforce
    with assms(1) 3 show ?thesis
      by (cases pr) (metis dispatch_run, metis dispatch_drop, metis dispatch_reject, metis dispatch_skip)
  next
    case (4 job repo)
    with assms reconcile_paused show ?thesis by metis
  next
    case (5 job repo)
    obtain r fs where "write_synthetic_claim (pr_crates P) (pr_pid P) (pr_spool P) job repo (pr_secret P) (sup_fs s) = (r, fs)"
      by fastforce
    with assms(1) 5 reconcile_minted reconcile_not_minted show ?thesis by metis
  qed
qed

text \<open>A paused, draining daemon is never stuck.\<close>

lemma draining_progress:
  assumes "sup_inv n 0 s" and "shutdown_at s = Draining" and "pause_flag s"
  shows "\<exists>s'. own_step P s s'"
proof -
  have o: "open_for_steps s" using assms(2) by (simp add: open_for_steps_def)
  from assms(1,2) obtain k where k: "DrainWaiter k \<in> set (waiters s)" "0 < k" "k \<le> n" "free s = 0"
    by (auto simp: sup_inv_def)
  have "drain_holds n sh ws < n" if "DrainWaiter j \<in> set ws" "\<forall>k. DrainWaiter k \<in> set ws \<longrightarrow> 0 < k \<and> k \<le> n" for j sh ws
    using that by (induction n sh ws rule: drain_holds.induct) auto
  then have "drain_holds n (shutdown_at s) (waiters s) < n" using k(1) assms(1) unfolding sup_inv_def by blast
  with assms(1) k(4) have "0 < jobs s + dispatch_holds (dispatch_at s) + reconcile_holds (reconcile_at s)"
    by (auto simp: sup_inv_def)
  from paused_progress [OF o assms(3) this] show ?thesis .
qed

lemma drains:
  assumes "sup_inv n 0 s" and "shutdown_at s = Draining" and "pause_flag s"
  shows "\<exists>s'. (own_step P)\<^sup>*\<^sup>* s s' \<and> shutdown_at s' = Drained"
  using assms
proof (induction "drain_work s" arbitrary: s rule: less_induct)
  case less
  from draining_progress [OF less.prems] obtain t where t: "own_step P s t" by blast
  from paused_own_step [OF t less.prems(3)] have p: "pause_flag t" "drain_work t < drain_work s" by simp_all
  have i: "sup_inv n 0 t" using own_step_inv [OF t less.prems(1)] .
  from draining_own_step [OF t less.prems(2)] show ?case
  proof
    assume "shutdown_at t = Draining"
    with less.hyps [OF p(2) i] p(1) t show ?thesis by (meson converse_rtranclp_into_rtranclp)
  next
    assume "shutdown_at t = Drained"
    with t show ?thesis by blast
  qed
qed

section \<open>Properties\<close>

text \<open>C11: The semaphore is well-formed and a clean exit means that nothing is left running: whatever the order of
  arrivals, claims, mints, job ends, panics, pauses, resumes and signals, every permit is free, in the hand
  of the dispatch loop or the reconciler, with a running job or set aside for the drain; nobody waits while one is
  free, the dispatch loop is queued exactly when it awaits a permit, and a drain in progress is queued for at
  least one and at most all of them; and once the shutdown reports \<open>Drained\<close>, no job is running and neither
  loop has a permit in hand.\<close>

theorem drained_means_idle:
  assumes "reachable P s" and "max_concurrency (pr_config P) < 2 ^ 32"
  shows "free s + dispatch_holds (dispatch_at s) + reconcile_holds (reconcile_at s) + length (running s)
           + drain_holds (max_concurrency (pr_config P)) (shutdown_at s) (waiters s) = max_concurrency (pr_config P)
       \<and> (waiters s \<noteq> [] \<longrightarrow> free s = 0)
       \<and> (DispatchWaiter \<in> set (waiters s) \<longleftrightarrow> (\<exists>name. dispatch_at s = AwaitPermit name))
       \<and> distinct (map (\<lambda>w. w = DispatchWaiter) (waiters s))
       \<and> (\<forall>k. DrainWaiter k \<in> set (waiters s) \<longrightarrow> 0 < k \<and> k \<le> max_concurrency (pr_config P))
       \<and> (shutdown_at s = Draining \<longrightarrow> (\<exists>k. DrainWaiter k \<in> set (waiters s)))
       \<and> (shutdown_at s = Drained \<longrightarrow>
            running s = [] \<and> dispatch_holds (dispatch_at s) = 0 \<and> reconcile_holds (reconcile_at s) = 0)"
proof -
  let ?n = "max_concurrency (pr_config P)"
  have inv: "sup_inv ?n 0 s" by (rule reachable_inv [OF assms])
  have "running s = [] \<and> dispatch_holds (dispatch_at s) = 0 \<and> reconcile_holds (reconcile_at s) = 0" if "shutdown_at s = Drained"
    using drained_holds [OF inv that] inv by (auto simp: sup_inv_def jobs_def)
  with inv show ?thesis unfolding sup_inv_def jobs_def by simp
qed

definition toy_params :: sup_params where
  "toy_params = \<lparr>pr_crates = toy_crates, pr_spool = demo_spool, pr_config = toy_config, pr_secret = ''key'', pr_pid = 1\<rparr>"

definition toy_sup :: sup where
  "toy_sup = \<lparr>sup_fs = toy_delivery, pause_flag = False, free = 4, waiters = [], dispatch_at = AwaitName,
     reconcile_at = RcIdle, shutdown_at = Serving, running = []\<rparr>"

text \<open>A name arrives, the dispatch loop takes a permit, then the signal comes.\<close>

definition draining_sup :: sup where
  "draining_sup = toy_sup\<lparr>pause_flag := True, free := 0, waiters := [DrainWaiter 1],
     dispatch_at := Holding ''7.job'', shutdown_at := Draining\<rparr>"

lemma draining_sup_reachable: "reachable toy_params draining_sup"
proof -
  have c: "max_concurrency (pr_config toy_params) = 4" by (simp add: toy_params_def toy_config_def)
  have "reachable toy_params toy_sup"
    by (rule gets_to_start) (simp add: initial_def toy_sup_def c)
  then have "reachable toy_params (toy_sup\<lparr>dispatch_at := AwaitUnpaused ''7.job''\<rparr>)"
    by (rule gets_to_step, unfold daemon_step_def, intro disjI2 env_step.name_arrives) (simp_all add: open_for_steps_def toy_sup_def)
  then have "reachable toy_params (acquire_one ''7.job'' (toy_sup\<lparr>dispatch_at := AwaitUnpaused ''7.job''\<rparr>))"
    by (rule gets_to_step, unfold daemon_step_def, intro disjI1 own_step.dispatch_unpaused) (simp_all add: open_for_steps_def toy_sup_def)
  then have "reachable toy_params (begin_drain (pr_config toy_params)
      (acquire_one ''7.job'' (toy_sup\<lparr>dispatch_at := AwaitUnpaused ''7.job''\<rparr>)))"
    by (rule gets_to_step, unfold daemon_step_def, intro disjI2 env_step.first_signal) (simp add: acquire_one_def toy_sup_def)
  then show ?thesis
    by (simp add: begin_drain_def acquire_many_def drain_need_def c acquire_one_def toy_sup_def draining_sup_def)
qed

theorem drained_means_idle_witness:
  "reachable toy_params draining_sup \<and> length (running draining_sup) + dispatch_holds (dispatch_at draining_sup)
     + drain_holds 4 (shutdown_at draining_sup) (waiters draining_sup) \<le> 4"
proof -
  have c: "max_concurrency (pr_config toy_params) = 4" by (simp add: toy_params_def toy_config_def)
  with drained_means_idle [OF draining_sup_reachable] draining_sup_reachable show ?thesis by simp
qed

text \<open>C23: A drain ends: once the first signal was seen and until someone resumes, every own step of the daemon
  takes some of a finite amount of work, starts no job but the ones already past their last check (so at
  most two after the signal), and as long as the drain is not finished some own step is possible; hence
  the daemon gets to \<open>Drained\<close> however it schedules its tasks.\<close>

theorem drain_ends:
  assumes "reachable P s" and "max_concurrency (pr_config P) < 2 ^ 32"
    and "shutdown_at s = Draining" and "pause_flag s"
  shows "(\<exists>s'. own_step P s s') \<and> (\<exists>s'. (own_step P)\<^sup>*\<^sup>* s s' \<and> shutdown_at s' = Drained)
       \<and> committed s \<le> 2
       \<and> (own_step P s t \<longrightarrow>
            (shutdown_at t = Draining \<or> shutdown_at t = Drained) \<and> pause_flag t \<and> drain_work t < drain_work s
            \<and> committed t + length (running t) \<le> committed s + length (running s))"
proof -
  have inv: "sup_inv (max_concurrency (pr_config P)) 0 s" by (rule reachable_inv [OF assms(1,2)])
  have "committed s \<le> 2" by (simp add: committed_def split: dispatch_pc.split reconcile_pc.split)
  with draining_progress [OF inv assms(3,4)] drains [OF inv assms(3,4)] draining_own_step [of P s t] paused_own_step [of P s t] assms(3,4)
  show ?thesis by (auto simp: jobs_def)
qed

theorem drain_ends_witness:
  "\<exists>s'. (own_step toy_params)\<^sup>*\<^sup>* draining_sup s' \<and> shutdown_at s' = Drained"
proof -
  have c: "max_concurrency (pr_config toy_params) < 2 ^ 32" by (simp add: toy_params_def toy_config_def)
  have d: "shutdown_at draining_sup = Draining" "pause_flag draining_sup" by (simp_all add: draining_sup_def)
  from drain_ends [OF draining_sup_reachable c d] show ?thesis by blast
qed

end
