(* ===== verification/Supervisor_Claims.thy ===== *)
theory Supervisor_Claims
  imports Supervisor_Loop
begin

text \<open>
  The jobs the daemon runs and the claims on disk (\<open>supervisor.rs\<close>: \<open>run\<close>): over any interleaving of
  the dispatch loop, the reconciler, the ends of jobs and the outside, the running jobs and their claims
  in \<open>cur/\<close> stay in step, so no job has two workers and no two workers share a VM.
\<close>

section \<open>Steps and the disk\<close>

lemma release_keeps [simp]: "sup_fs (release s) = sup_fs s" "running (release s) = running s"
  by (simp_all add: release_def split: list.split waiter.split)

lemma acquire_keeps [simp]:
  "sup_fs (acquire_one name s) = sup_fs s" "running (acquire_one name s) = running s"
  "sup_fs (begin_drain c s) = sup_fs s" "running (begin_drain c s) = running s"
  by (simp_all add: acquire_one_def begin_drain_def acquire_many_def)

lemma start_job_keeps [simp]:
  "sup_fs (start_job e p s) = sup_fs s" "running (start_job e p s) = (e, p) # running s"
  by (simp_all add: start_job_def)

lemma try_claim_disk:
  assumes "healthy fs" and "try_claim s n fs = (r, fs')"
  shows "healthy fs'" and "present fs (cur_path_of s m) \<Longrightarrow> present fs' (cur_path_of s m)"
    and "r = Inr (Some p) \<Longrightarrow> p = cur_path_of s n \<and> \<not> present fs p"
proof -
  from assms(2) have e: "fs' = (if is_archived s n fs then claim_check s n fs else snd (claim_take s n (claim_check s n fs)))"
    by (auto simp: try_claim_def try_claim_inner_halves split: if_splits)
  show "healthy fs'"
    using healthy_step [OF assms(1), of s "Check n"] healthy_step [of "claim_check s n fs" s "Take n"] e by simp
  show "present fs' (cur_path_of s m)" if "present fs (cur_path_of s m)"
    using that e claim_take_keeps [of "claim_check s n fs" "cur_path_of s m" s n] by (simp add: claim_check_keeps)
  show "p = cur_path_of s n \<and> \<not> present fs p" if "r = Inr (Some p)"
    using try_claim_inner_SomeD [of s n "\<lambda>f. f" fs p fs'] assms(2) that
    by (auto simp: try_claim_def present_def)
qed

lemma prepare_claim:
  assumes "prepare C s name cfg secret allowed adv fs = (r, fs')"
  shows "r = Skip \<and> fs' = fs \<or> (\<exists>c. try_claim s name fs = (c, fs')
     \<and> (\<forall>p. (\<exists>d e. r = Run p d e) \<or> (\<exists>x. r = Drop p x) \<or> (\<exists>x. r = Reject p x) \<longrightarrow> c = Inr (Some p)))"
proof (cases "parse_spool_filename name")
  case (Some i)
  obtain c f where c: "try_claim s name fs = (c, f)" by fastforce
  show ?thesis
  proof (cases "\<exists>p. c = Inr (Some p)")
    case True
    then obtain p where "c = Inr (Some p)" by blast
    with assms Some c show ?thesis
      by (auto simp: prepare_def Let_def split: if_splits sum.splits entry_verdict.splits)
  next
    case False
    with assms Some c show ?thesis by (auto simp: prepare_def split: sum.splits option.splits)
  qed
qed (use assms in \<open>simp add: prepare_def\<close>)

lemma prepare_disk:
  assumes "healthy fs" and "prepare C s name cfg secret allowed adv fs = (r, fs')"
  shows "healthy fs'" and "present fs (cur_path_of s m) \<Longrightarrow> present fs' (cur_path_of s m)"
    and "r = Run p d e \<or> r = Drop p x \<or> r = Reject p x \<Longrightarrow> p = cur_path_of s name \<and> \<not> present fs p"
proof -
  consider "r = Skip" "fs' = fs" | c where "try_claim s name fs = (c, fs')"
      "\<And>p d e. r = Run p d e \<Longrightarrow> c = Inr (Some p)" "\<And>p x. r = Drop p x \<Longrightarrow> c = Inr (Some p)"
      "\<And>p x. r = Reject p x \<Longrightarrow> c = Inr (Some p)"
    using prepare_claim [OF assms(2)] by blast
  then have "healthy fs' \<and> (present fs (cur_path_of s m) \<longrightarrow> present fs' (cur_path_of s m))
      \<and> (r = Run p d e \<or> r = Drop p x \<or> r = Reject p x \<longrightarrow> p = cur_path_of s name \<and> \<not> present fs p)"
  proof cases
    case (2 c)
    from try_claim_disk [OF assms(1) 2(1)] 2(2-4) show ?thesis by blast
  qed (use assms(1) in simp)
  then show "healthy fs'" and "present fs (cur_path_of s m) \<Longrightarrow> present fs' (cur_path_of s m)"
    and "r = Run p d e \<or> r = Drop p x \<or> r = Reject p x \<Longrightarrow> p = cur_path_of s name \<and> \<not> present fs p" by blast+
qed

lemma finalize_healthy:
  assumes "healthy fs"
  shows "healthy (snd (finalize_done s p fs))" and "healthy (snd (finalize_error s p why fs))"
  using assms by (auto intro!: regular_intros simp: healthy_def no_faults_def)

section \<open>The invariant\<close>

definition job_claim :: "sup_params \<Rightarrow> workflow_job \<Rightarrow> path" where
  "job_claim P event = cur_path_of (pr_spool P) (canonical_name (job_id (ev_job event)))"

definition held :: "sup_params \<Rightarrow> fsys \<Rightarrow> workflow_job \<times> path \<Rightarrow> bool" where
  "held P fs x \<longleftrightarrow> snd x = job_claim P (fst x) \<and> present fs (snd x)"

definition claims_inv :: "sup_params \<Rightarrow> sup \<Rightarrow> bool" where
  "claims_inv P s \<longleftrightarrow>
     healthy (sup_fs s) \<and> distinct (map (\<lambda>x. job_id (ev_job (fst x))) (running s))
     \<and> (\<forall>x \<in> set (running s). held P (sup_fs s) x)"

lemma job_claim_inj: "job_claim P e = job_claim P f \<longleftrightarrow> job_id (ev_job e) = job_id (ev_job f)"
  by (simp add: job_claim_def)

lemma claims_inv_disk:
  assumes "claims_inv P s" and "healthy fs'" and "running s' = running s" and "sup_fs s' = fs'"
    and "\<And>m. present (sup_fs s) (cur_path_of (pr_spool P) m) \<Longrightarrow> present fs' (cur_path_of (pr_spool P) m)"
  shows "claims_inv P s'"
  using assms by (auto simp: claims_inv_def held_def job_claim_def)

lemma claims_inv_start:
  assumes "claims_inv P s" and "healthy fs'" and "running s' = (event, p) # running s" and "sup_fs s' = fs'"
    and "\<And>m. present (sup_fs s) (cur_path_of (pr_spool P) m) \<Longrightarrow> present fs' (cur_path_of (pr_spool P) m)"
    and "p = job_claim P event" and "\<not> present (sup_fs s) p" and "present fs' p"
  shows "claims_inv P s'"
proof -
  have "job_id (ev_job event) \<notin> (\<lambda>x. job_id (ev_job (fst x))) ` set (running s)"
    using assms(1,6,7) by (auto simp: claims_inv_def held_def job_claim_def)
  with assms show ?thesis by (auto simp: claims_inv_def held_def job_claim_def)
qed

lemma claims_inv_end:
  assumes "claims_inv P s" and "healthy fs'" and "running s = before @ (event, p) # after"
    and "running s' = before @ after" and "sup_fs s' = fs'"
    and "\<And>q. present (sup_fs s) q \<Longrightarrow> q \<noteq> p \<Longrightarrow> present fs' q"
  shows "claims_inv P s'"
proof -
  have "held P fs' x" if "x \<in> set (before @ after)" for x
  proof -
    have "x \<in> set (running s)" "(event, p) \<in> set (running s)" using that assms(3) by auto
    with assms(1) have x: "snd x = job_claim P (fst x)" "present (sup_fs s) (snd x)" "p = job_claim P event"
      by (fastforce simp: claims_inv_def held_def)+
    from assms(1,3) that have "job_id (ev_job (fst x)) \<noteq> job_id (ev_job event)"
      by (auto simp: claims_inv_def image_iff)
    with x assms(6) show ?thesis by (simp add: held_def job_claim_inj)
  qed
  moreover have "distinct (map (\<lambda>x. job_id (ev_job (fst x))) (before @ after))"
    using assms(1,3) by (auto simp: claims_inv_def)
  ultimately show ?thesis using assms(2,4,5) unfolding claims_inv_def by (metis)
qed

text \<open>An entry that is dropped or rejected was claimed for it, and no job runs on that claim.\<close>

lemma claims_inv_turned_away:
  assumes "claims_inv P s" and "prepare_entry P name (sup_fs s) = (r, fs)"
    and "r = Drop p reason \<or> r = Reject p reason" and "running s' = running s"
    and "sup_fs s' = snd (finalize_done (pr_spool P) p fs) \<or> (\<exists>why. sup_fs s' = snd (finalize_error (pr_spool P) p why fs))"
  shows "claims_inv P s'"
proof -
  have h: "healthy (sup_fs s)" using assms(1) by (simp add: claims_inv_def)
  note pr = assms(2) [unfolded prepare_entry_def]
  note h' = prepare_disk(1) [OF h pr]
  have p: "p = cur_path_of (pr_spool P) name" "\<not> present (sup_fs s) p"
    using prepare_disk(3) [OF h pr] assms(3) by blast+
  show ?thesis
  proof (rule claims_inv_disk [OF assms(1) _ assms(4) refl])
    show "healthy (sup_fs s')" using assms(5) finalize_healthy [OF h'] by auto
  next
    fix m assume m: "present (sup_fs s) (cur_path_of (pr_spool P) m)"
    with p have "cur_path_of (pr_spool P) m \<noteq> p" by metis
    with finalize_keeps_other [OF h' prepare_disk(2) [OF h pr m], of "pr_spool P" name] p(1) assms(5)
    show "present (sup_fs s') (cur_path_of (pr_spool P) m)" by auto
  qed
qed

lemma own_step_claims:
  assumes "own_step P s s'" and "claims_inv P s"
  shows "claims_inv P s'"
  using assms(1)
proof cases
  case (dispatch_run name p d event fs)
  have h: "healthy (sup_fs s)" using assms(2) by (simp add: claims_inv_def)
  note pr = dispatch_run(4) [unfolded prepare_entry_def]
  from prepare_RunD [OF pr] obtain i env body where
    i: "name = canonical_name i" "classify_validated_entry (pr_crates P) i env body (pr_secret P)
      (allowed_repos_set (pr_config P)) (runner_label (pr_config P)) (runner_labels_set (pr_config P)) = EntryRun event"
    and c: "try_claim (pr_spool P) name (sup_fs s) = (Inr (Some p), fs)" by metis
  from i(2) have "job_id (ev_job event) = i" by (auto simp: classify_Run_iff authentic_def body_matches_def)
  with prepare_disk(3) [OF h pr] i(1) have p: "p = job_claim P event" "\<not> present (sup_fs s) p"
    by (auto simp: job_claim_def)
  have "present fs p"
    by (rule try_claim_inner_SomeD [OF c [unfolded try_claim_def]]) (simp add: present_def)
  with p show ?thesis unfolding dispatch_run(1)
    by (intro claims_inv_start [OF assms(2) prepare_disk(1) [OF h pr]] prepare_disk(2) [OF h pr]) simp_all
next
  case (dispatch_drop name p reason fs)
  show ?thesis
    by (rule claims_inv_turned_away [OF assms(2) dispatch_drop(4)]) (auto simp: dispatch_drop(1))
next
  case (dispatch_reject name p reason fs why)
  show ?thesis
    by (rule claims_inv_turned_away [OF assms(2) dispatch_reject(4)]) (auto simp: dispatch_reject(1))
next
  case (dispatch_skip name fs)
  have h: "healthy (sup_fs s)" using assms(2) by (simp add: claims_inv_def)
  note pr = dispatch_skip(4) [unfolded prepare_entry_def]
  show ?thesis unfolding dispatch_skip(1)
    by (rule claims_inv_disk [OF assms(2) prepare_disk(1) [OF h pr] _ _ prepare_disk(2) [OF h pr]]) simp_all
next
  case (reconcile_minted job repo p fs)
  have h: "healthy (sup_fs s)" using assms(2) by (simp add: claims_inv_def)
  note w = reconcile_minted(4)
  have fs: "fs = snd (write_synthetic_claim (pr_crates P) (pr_pid P) (pr_spool P) job repo (pr_secret P) (sup_fs s))"
    using w by simp
  from write_synthetic_Some [OF w] h have "p = job_claim P (build_event repo job)" "\<not> present (sup_fs s) p" "present fs p"
    by (auto simp: job_claim_def build_event_def try_exists_healthy)
  then show ?thesis unfolding reconcile_minted(1)
    by (intro claims_inv_start [OF assms(2)]) (simp_all add: fs write_synthetic_healthy [OF h] write_synthetic_keeps)
next
  case (reconcile_not_minted job repo r fs)
  have h: "healthy (sup_fs s)" using assms(2) by (simp add: claims_inv_def)
  have fs: "fs = snd (write_synthetic_claim (pr_crates P) (pr_pid P) (pr_spool P) job repo (pr_secret P) (sup_fs s))"
    using reconcile_not_minted(4) by simp
  show ?thesis unfolding reconcile_not_minted(1)
    by (rule claims_inv_disk [OF assms(2), of fs]) (simp_all add: fs h write_synthetic_healthy [OF h] write_synthetic_keeps)
next
  case (job_done before event p after)
  have h: "healthy (sup_fs s)" and p: "p = job_claim P event"
    using assms(2) job_done(3) by (auto simp: claims_inv_def held_def)
  show ?thesis unfolding job_done(1)
    using finalize_keeps_other(1) [OF h] p
    by (intro claims_inv_end [OF assms(2) finalize_healthy(1) [OF h] job_done(3)]) (simp_all add: job_claim_def)
next
  case (job_failed before event p after why)
  have h: "healthy (sup_fs s)" and p: "p = job_claim P event"
    using assms(2) job_failed(3) by (auto simp: claims_inv_def held_def)
  show ?thesis unfolding job_failed(1)
    using finalize_keeps_other(2) [OF h] p
    by (intro claims_inv_end [OF assms(2) finalize_healthy(2) [OF h] job_failed(3)]) (simp_all add: job_claim_def)
next
  case (job_panics before event p after)
  have h: "healthy (sup_fs s)" using assms(2) by (simp add: claims_inv_def)
  show ?thesis unfolding job_panics(1) by (rule claims_inv_end [OF assms(2) h job_panics(3)]) simp_all
qed (use assms(2) in \<open>simp_all add: claims_inv_def\<close>)

section \<open>Undisturbed runs\<close>

text \<open>
  The outside may do to the disk what it likes as long as it leaves the file system sound and the claims of
  running jobs where they are (the GC does not expire the claim of a job within its maximal runtime).
\<close>

definition claims_kept :: "sup \<Rightarrow> sup \<Rightarrow> bool" where
  "claims_kept s s' \<longleftrightarrow> healthy (sup_fs s')
     \<and> (\<forall>x \<in> set (running s). present (sup_fs s) (snd x) \<longrightarrow> present (sup_fs s') (snd x))"

definition undisturbed_start :: "sup_params \<Rightarrow> sup \<Rightarrow> bool" where
  "undisturbed_start P s \<longleftrightarrow> initial P s \<and> healthy (sup_fs s)"

definition undisturbed_step :: "sup_params \<Rightarrow> sup \<Rightarrow> sup \<Rightarrow> bool" where
  "undisturbed_step P s s' \<longleftrightarrow> own_step P s s' \<or> env_step P s s' \<and> claims_kept s s'"

abbreviation undisturbed :: "sup_params \<Rightarrow> sup \<Rightarrow> bool" where
  "undisturbed P \<equiv> gets_to (undisturbed_start P) (undisturbed_step P)"

lemma env_step_running: "env_step P s s' \<Longrightarrow> running s' = running s"
  by (erule env_stepE) simp_all

interpretation claims: step_system "undisturbed_start P" "undisturbed_step P" "claims_inv P" for P
proof (unfold_locales, goal_cases)
  case (1 s)
  then show ?case by (simp add: undisturbed_start_def claims_inv_def initial_def)
next
  case (2 s s')
  show ?case
  proof (cases "own_step P s s'")
    case True
    then show ?thesis using 2(1) by (rule own_step_claims)
  next
    case False
    with 2(2) have e: "running s' = running s" "claims_kept s s'"
      using env_step_running unfolding undisturbed_step_def by blast+
    have "held P (sup_fs s') x" if "x \<in> set (running s)" for x
    proof -
      have "held P (sup_fs s) x" using 2(1) that by (simp add: claims_inv_def)
      with e(2) that show ?thesis unfolding held_def claims_kept_def by blast
    qed
    with 2(1) e show ?thesis by (simp add: claims_inv_def claims_kept_def)
  qed
qed

lemma undisturbed_reachable: "undisturbed P s \<Longrightarrow> reachable P s"
  unfolding gets_to_def undisturbed_start_def
  by (metis (mono_tags, lifting) daemon_step_def mono_rtranclp undisturbed_step_def)


text \<open>A delivery that is dispatched.\<close>

definition waiting_sup :: sup where
  "waiting_sup = toy_sup\<lparr>dispatch_at := AwaitUnpaused ''7.job''\<rparr>"

lemma waiting_sup_start:
  "initial toy_params toy_sup" "healthy (sup_fs toy_sup)" "env_step toy_params toy_sup waiting_sup"
  "sup_fs waiting_sup = sup_fs toy_sup"
proof -
  show "initial toy_params toy_sup" by (simp add: initial_def toy_sup_def toy_params_def toy_config_def)
  show "healthy (sup_fs toy_sup)" by (simp add: toy_sup_def toy_delivery_def plain_file_def)
  show "env_step toy_params toy_sup waiting_sup" unfolding waiting_sup_def
    by (rule env_step.name_arrives) (simp_all add: open_for_steps_def toy_sup_def)
qed (simp add: waiting_sup_def)

lemma waiting_sup_runs:
  "\<exists>s. (own_step toy_params)\<^sup>*\<^sup>* waiting_sup s \<and> running s = [(toy_event, cur_path_of demo_spool ''7.job'')]"
proof -
  define s2 where "s2 = acquire_one ''7.job'' waiting_sup"
  define s3 where "s3 = s2\<lparr>dispatch_at := Preparing ''7.job''\<rparr>"
  have 1: "own_step toy_params waiting_sup s2" unfolding s2_def
    by (rule own_step.dispatch_unpaused) (simp_all add: open_for_steps_def toy_sup_def waiting_sup_def)
  have 2: "own_step toy_params s2 s3" unfolding s3_def
    by (rule own_step.dispatch_checked)
       (simp_all add: open_for_steps_def toy_sup_def waiting_sup_def s2_def acquire_one_def)
  have "allowed_repos_set toy_config = {''o/r''}" "runner_labels_set toy_config = {''self-hosted'', ''lima-nix''}"
    by code_simp+
  then obtain fs where fs: "prepare_entry toy_params ''7.job'' (sup_fs s3)
      = (Run (cur_path_of demo_spool ''7.job'') (env_delivery toy_envelope) toy_event, fs)"
    using toy_delivery_runs by (auto simp: prepare_entry_def toy_params_def s3_def s2_def waiting_sup_def toy_sup_def)
  define s4 where "s4 = start_job toy_event (cur_path_of demo_spool ''7.job'') (s3\<lparr>sup_fs := fs, dispatch_at := AwaitName\<rparr>)"
  have 3: "own_step toy_params s3 s4" unfolding s4_def
    by (rule own_step.dispatch_run [OF _ _ fs])
       (simp_all add: open_for_steps_def s3_def s2_def waiting_sup_def toy_sup_def acquire_one_def)
  have "(own_step toy_params)\<^sup>*\<^sup>* waiting_sup s4" using 1 2 3 by (meson converse_rtranclp_into_rtranclp rtranclp.rtrancl_refl)
  moreover have "running s4 = [(toy_event, cur_path_of demo_spool ''7.job'')]"
    by (simp add: s4_def s3_def s2_def waiting_sup_def toy_sup_def)
  ultimately show ?thesis by blast
qed

lemma own_steps_undisturbed: "(own_step P)\<^sup>*\<^sup>* s s' \<Longrightarrow> (undisturbed_step P)\<^sup>*\<^sup>* s s'"
  by (rule rtranclp_mono [THEN predicate2D]) (auto simp: undisturbed_step_def)

lemma running_toy_sup: "running toy_sup = []"
  by (simp add: toy_sup_def)

lemma waiting_sup_undisturbed: "undisturbed toy_params waiting_sup"
  by (rule gets_to_step [OF gets_to_start [where s = toy_sup]])
     (use waiting_sup_start running_toy_sup in \<open>simp_all add: undisturbed_start_def undisturbed_step_def claims_kept_def\<close>)


end
