(* ===== verification/Supervisor_Timing.thy ===== *)
theory Supervisor_Timing
  imports Supervisor_Claims Gc_Prune
begin

text \<open>
  The dispatch loop, the workers and the GC on one disk (\<open>supervisor.rs: run\<close>, \<open>gc.rs:
  expire_stale_cur, prune_old_archives\<close>, \<open>spool.rs: stamp_mtime_now\<close>): a claim carries the time of the
  claim, so the scan for stale claims never takes the claim of a job within its time budget, whatever the
  age of the delivery.
\<close>

section \<open>Claims and their times\<close>

lemma claim_take_clock [simp]: "clock (snd (claim_take s n fs)) = clock fs"
  by (rule claim_take_cases [of s n fs]) auto

lemma claim_check_clock [simp]: "clock (claim_check s n fs) = clock fs"
  by (simp add: claim_check_def)

lemma claim_take_get:
  assumes "present fs (cur_path_of s m)"
  shows "get (snd (claim_take s n fs)) (cur_path_of s m) = get fs (cur_path_of s m)"
proof (rule claim_take_cases [of s n fs])
  fix i assume "get fs (cur_path_of s n) = None"
    and "snd (claim_take s n fs) = put (cur_path_of s n) i (del (new_path s n) (stamp_mtime_now (new_path s n) fs))"
  with assms show ?thesis by (auto simp: present_def get_stamp_other)
next
  fix f assume "snd (claim_take s n fs) = f \<or> snd (claim_take s n fs) = snd (sys_unlink (new_path s n) f)"
    and "f = stamp_mtime_now (new_path s n) fs"
  then show ?thesis by (auto simp: get_unlink_other get_stamp_other)
next
  fix i f assume "get fs (cur_path_of s n) = None"
    and f: "f = put (cur_path_of s n) i (del (new_path s n) (stamp_mtime_now (new_path s n) fs))"
    and e: "snd (claim_take s n fs) = snd (sys_unlink (cur_path_of s n) f)"
  then have "m \<noteq> n" using assms by (auto simp: present_def)
  with e f show ?thesis by (simp add: get_unlink_other get_stamp_other)
qed

lemma try_claim_get:
  assumes "healthy fs" and "try_claim s n fs = (r, fs')"
  shows "clock fs' = clock fs"
    and "present fs (cur_path_of s m) \<Longrightarrow> get fs' (cur_path_of s m) = get fs (cur_path_of s m)"
    and "r = Inr (Some p) \<Longrightarrow> \<exists>i. get fs' p = Some i \<and> imtime i = clock fs"
proof -
  from assms(2) have e: "fs' = (if is_archived s n fs then claim_check s n fs else snd (claim_take s n (claim_check s n fs)))"
    by (auto simp: try_claim_def try_claim_inner_halves split: if_splits)
  show "clock fs' = clock fs" by (simp add: e)
  show "get fs' (cur_path_of s m) = get fs (cur_path_of s m)" if "present fs (cur_path_of s m)"
  proof -
    have "get (claim_check s n fs) (cur_path_of s m) = get fs (cur_path_of s m)"
      by (simp add: claim_check_def get_unlink_other)
    with that show ?thesis
      using claim_take_get [of "claim_check s n fs" s m n] by (simp add: e claim_check_keeps)
  qed
  show "\<exists>i. get fs' p = Some i \<and> imtime i = clock fs" if "r = Inr (Some p)"
  proof (rule try_claim_inner_SomeD [OF assms(2) [unfolded that try_claim_def]])
    fix i
    assume g: "get (stamp_mtime_now (new_path s n) fs) (new_path s n) = Some i" and p: "p = cur_path_of s n"
      and f: "fs' = put (cur_path_of s n) i (del (new_path s n) (stamp_mtime_now (new_path s n) fs))"
    then obtain j where "get fs (new_path s n) = Some j" by (metis get_stamp_None not_None_eq)
    with stamp_healthy [OF assms(1) this] g have "imtime i = clock fs" by simp
    with f p show ?thesis by simp
  qed
qed

lemma finalize_done_cur_other:
  assumes "n \<noteq> m"
  shows "get (snd (finalize_done s (cur_path_of s m) fs)) (cur_path_of s n) = get fs (cur_path_of s n)"
proof -
  have "get (snd (archive (cur_path_of s m) (done_path s m) fs)) (cur_path_of s n) = get fs (cur_path_of s n)"
    using assms by (intro archive_frame) simp_all
  then show ?thesis
    by (simp add: finalize_done_def Let_def case_prod_beta get_stamp_other split: sum.split bool.split)
qed

lemma finalize_done_clock [simp]: "clock (snd (finalize_done s c fs)) = clock fs"
  by (simp add: finalize_done_def Let_def case_prod_beta split: option.split sum.split bool.split)

lemma write_private_clock [simp]: "clock (snd (write_private_file p b fs)) = clock fs"
  by (rule write_private_cases [of p b fs]) (simp_all add: sys_create_new_def split: option.split)

lemma synthetic_install_clock [simp]: "clock (snd (synthetic_install s n t fs)) = clock fs"
  by (rule synthetic_install_cases [of fs t s n]) simp_all

lemma write_synthetic_clock [simp]: "clock (snd (write_synthetic_claim C pid s job repo secret fs)) = clock fs"
  by (simp add: write_synthetic_claim_unfold Let_def case_prod_beta split: sum.split)

lemma write_private_get: "present fs q \<Longrightarrow> get (snd (write_private_file p b fs)) q = get fs q"
  by (rule write_private_cases [of p b fs])
     (auto simp: present_def sys_create_new_def split: option.splits)

lemma write_synthetic_get:
  assumes "present fs q"
  shows "get (snd (write_synthetic_claim C pid s job repo secret fs)) q = get fs q"
proof -
  let ?tmp = "cur_path_of s (tmp_claim_name job pid (clock fs))"
  have inst: "get (snd (synthetic_install s n ?tmp f)) q = get f q" if "q \<noteq> ?tmp" "present f q" for f n
    by (rule synthetic_install_cases [of f ?tmp s n]; cases "q = cur_path_of s n")
       (use that in \<open>auto simp: get_unlink_other present_def get_stamp_other\<close>)
  have "get (snd (synthetic_install s n ?tmp (snd (write_private_file ?tmp b fs)))) q = get fs q"
    if "fst (write_private_file ?tmp b fs) = Inr ()" for b n
  proof -
    have "q \<noteq> ?tmp" using that assms by (cases rule: write_private_cases [of ?tmp b fs]) auto
    with inst [OF this write_private_keeps [OF assms]] write_private_get [OF assms] show ?thesis by simp
  qed
  then show ?thesis
    using assms by (auto simp: write_synthetic_claim_unfold Let_def case_prod_beta write_private_get split: sum.split)
qed

lemma write_synthetic_time:
  assumes "healthy fs" and "write_synthetic_claim C pid s job repo secret fs = (Inr (Some p), fs')"
  shows "\<exists>i. get fs' p = Some i \<and> imtime i = clock fs"
proof -
  let ?tmp = "cur_path_of s (tmp_claim_name job pid (clock fs))" and ?n = "canonical_name (js_id job)"
  from assms(2) obtain b where b: "fst (write_private_file ?tmp b fs) = Inr ()"
    "synthetic_install s ?n ?tmp (snd (write_private_file ?tmp b fs)) = (Inr (Some p), fs')"
    by (auto simp: write_synthetic_claim_unfold Let_def case_prod_beta split: if_splits sum.splits)
  let ?f = "snd (write_private_file ?tmp b fs)"
  have hf: "healthy ?f"
    using assms(1) by (intro healthyI [OF assms(1)]) (simp_all add: healthy_def regular_intros)
  show ?thesis
  proof (rule synthetic_install_cases [of ?f ?tmp s ?n])
    fix i assume i: "get ?f ?tmp = Some i" and e: "synthetic_install s ?n ?tmp ?f
      = (Inr (Some (cur_path_of s ?n)), stamp_mtime_now (cur_path_of s ?n) (put (cur_path_of s ?n) i (del ?tmp ?f)))"
    have "ikind i = Regular" using hf i by (auto simp: healthy_def regular_only_def)
    then have "healthy (put (cur_path_of s ?n) i (del ?tmp ?f))"
      using hf by (intro healthyI [OF hf]) (simp_all add: healthy_def regular_intros)
    from stamp_healthy [OF this, of "cur_path_of s ?n" i] e b(2) show ?thesis by auto
  qed (use b(2) in auto)
qed

section \<open>One step of the daemon\<close>

lemma prepare_get:
  assumes "healthy fs" and "prepare C s name cfg secret allowed adv fs = (r, fs')"
  shows "clock fs' = clock fs"
    and "present fs (cur_path_of s m) \<Longrightarrow> get fs' (cur_path_of s m) = get fs (cur_path_of s m)"
    and "r = Run p d e \<Longrightarrow> \<exists>i. get fs' p = Some i \<and> imtime i = clock fs"
proof -
  consider "r = Skip" "fs' = fs" | c where "try_claim s name fs = (c, fs')" "\<And>p d e. r = Run p d e \<Longrightarrow> c = Inr (Some p)"
    using prepare_claim [OF assms(2)] by blast
  then have "clock fs' = clock fs \<and> (present fs (cur_path_of s m) \<longrightarrow> get fs' (cur_path_of s m) = get fs (cur_path_of s m))
      \<and> (r = Run p d e \<longrightarrow> (\<exists>i. get fs' p = Some i \<and> imtime i = clock fs))"
  proof cases
    case (2 c)
    from try_claim_get [OF assms(1) 2(1)] 2(2) show ?thesis by blast
  qed simp
  then show "clock fs' = clock fs"
    and "present fs (cur_path_of s m) \<Longrightarrow> get fs' (cur_path_of s m) = get fs (cur_path_of s m)"
    and "r = Run p d e \<Longrightarrow> \<exists>i. get fs' p = Some i \<and> imtime i = clock fs" by blast+
qed

text \<open>A running job's claim is left as it is by every step of the daemon but its own end; a new one
  carries the time of the step; and no step takes time.\<close>

definition step_frame :: "sup \<Rightarrow> sup \<Rightarrow> bool" where
  "step_frame s s' \<longleftrightarrow> clock (sup_fs s') = clock (sup_fs s)
     \<and> (\<forall>x \<in> set (running s'). if x \<in> set (running s) then get (sup_fs s') (snd x) = get (sup_fs s) (snd x)
          else \<exists>i. get (sup_fs s') (snd x) = Some i \<and> imtime i = clock (sup_fs s))"

lemma step_frame_disk:
  assumes "claims_inv P s" and "running s' = running s" and "clock (sup_fs s') = clock (sup_fs s)"
    and "\<And>m. present (sup_fs s) (cur_path_of (pr_spool P) m) \<Longrightarrow>
      get (sup_fs s') (cur_path_of (pr_spool P) m) = get (sup_fs s) (cur_path_of (pr_spool P) m)"
  shows "step_frame s s'"
  using assms by (auto simp: step_frame_def claims_inv_def held_def job_claim_def)

lemma step_frame_start:
  assumes "claims_inv P s" and "running s' = (event, p) # running s" and "clock (sup_fs s') = clock (sup_fs s)"
    and "\<And>m. present (sup_fs s) (cur_path_of (pr_spool P) m) \<Longrightarrow>
      get (sup_fs s') (cur_path_of (pr_spool P) m) = get (sup_fs s) (cur_path_of (pr_spool P) m)"
    and "\<exists>i. get (sup_fs s') p = Some i \<and> imtime i = clock (sup_fs s)"
  shows "step_frame s s'"
  using assms by (auto simp: step_frame_def claims_inv_def held_def job_claim_def)

lemma step_frame_turned_away:
  assumes "claims_inv P s" and "prepare_entry P name (sup_fs s) = (r, fs)"
    and "r = Drop p reason \<or> r = Reject p reason" and "running s' = running s"
    and "sup_fs s' = snd (finalize_done (pr_spool P) p fs) \<or> (\<exists>why. sup_fs s' = snd (finalize_error (pr_spool P) p why fs))"
  shows "step_frame s s'"
proof -
  have h: "healthy (sup_fs s)" using assms(1) by (simp add: claims_inv_def)
  note pr = assms(2) [unfolded prepare_entry_def]
  have p: "p = cur_path_of (pr_spool P) name" "\<not> present (sup_fs s) p"
    using prepare_disk(3) [OF h pr] assms(3) by blast+
  show ?thesis
  proof (rule step_frame_disk [OF assms(1,4)])
    show "clock (sup_fs s') = clock (sup_fs s)" using assms(5) prepare_get(1) [OF h pr] by auto
  next
    fix m assume m: "present (sup_fs s) (cur_path_of (pr_spool P) m)"
    with p have "m \<noteq> name" by metis
    with finalize_done_cur_other [of m name "pr_spool P" fs] finalize_error_cur_other [OF prepare_disk(1) [OF h pr], of m name "pr_spool P"]
      prepare_get(2) [OF h pr m] p(1) assms(5)
    show "get (sup_fs s') (cur_path_of (pr_spool P) m) = get (sup_fs s) (cur_path_of (pr_spool P) m)" by auto
  qed
qed

lemma step_frame_end:
  assumes "claims_inv P s" and "running s = before @ (event, p) # after" and "running s' = before @ after"
    and "sup_fs s' = sup_fs s \<or> sup_fs s' = snd (finalize_done (pr_spool P) p (sup_fs s))
      \<or> (\<exists>why. sup_fs s' = snd (finalize_error (pr_spool P) p why (sup_fs s)))"
  shows "step_frame s s'"
proof -
  have h: "healthy (sup_fs s)" and inv: "\<And>x. x \<in> set (running s) \<Longrightarrow> snd x = job_claim P (fst x)"
    and d: "distinct (map (\<lambda>x. job_id (ev_job (fst x))) (running s))"
    using assms(1) by (auto simp: claims_inv_def held_def)
  have p: "p = job_claim P event" using inv [of "(event, p)"] assms(2) by simp
  have "get (sup_fs s') (snd x) = get (sup_fs s) (snd x)" if "x \<in> set (running s')" for x
  proof -
    have "job_id (ev_job (fst x)) \<noteq> job_id (ev_job event)" using that d assms(2,3) by (auto simp: image_iff)
    then have "canonical_name (job_id (ev_job (fst x))) \<noteq> canonical_name (job_id (ev_job event))" by simp
    from finalize_done_cur_other [OF this] finalize_error_cur_other [OF h this] assms(4) p inv [of x] that assms(2,3)
    show ?thesis by (auto simp: job_claim_def)
  qed
  moreover have "set (running s') \<subseteq> set (running s)" using assms(2,3) by auto
  moreover have "clock (sup_fs s') = clock (sup_fs s)" using assms(4) by auto
  ultimately show ?thesis by (auto simp: step_frame_def)
qed

lemma own_step_frame:
  assumes "own_step P s s'" and "claims_inv P s"
  shows "step_frame s s'"
  using assms(1)
proof cases
  case (dispatch_run name p d event fs)
  have h: "healthy (sup_fs s)" using assms(2) by (simp add: claims_inv_def)
  note pr = dispatch_run(4) [unfolded prepare_entry_def]
  show ?thesis unfolding dispatch_run(1)
    by (rule step_frame_start [OF assms(2)]) (use prepare_get [OF h pr] in simp_all)
next
  case (dispatch_drop name p reason fs)
  show ?thesis
    by (rule step_frame_turned_away [OF assms(2) dispatch_drop(4)]) (auto simp: dispatch_drop(1))
next
  case (dispatch_reject name p reason fs why)
  show ?thesis
    by (rule step_frame_turned_away [OF assms(2) dispatch_reject(4)]) (auto simp: dispatch_reject(1))
next
  case (dispatch_skip name fs)
  have h: "healthy (sup_fs s)" using assms(2) by (simp add: claims_inv_def)
  note pr = dispatch_skip(4) [unfolded prepare_entry_def]
  show ?thesis unfolding dispatch_skip(1)
    by (rule step_frame_disk [OF assms(2)]) (use prepare_get [OF h pr] in simp_all)
next
  case (reconcile_minted job repo p fs)
  have h: "healthy (sup_fs s)" using assms(2) by (simp add: claims_inv_def)
  have fs: "fs = snd (write_synthetic_claim (pr_crates P) (pr_pid P) (pr_spool P) job repo (pr_secret P) (sup_fs s))"
    using reconcile_minted(4) by simp
  show ?thesis unfolding reconcile_minted(1)
    by (rule step_frame_start [OF assms(2)])
       (use write_synthetic_time [OF h reconcile_minted(4)] write_synthetic_get in \<open>simp_all add: fs\<close>)
next
  case (reconcile_not_minted job repo r fs)
  have fs: "fs = snd (write_synthetic_claim (pr_crates P) (pr_pid P) (pr_spool P) job repo (pr_secret P) (sup_fs s))"
    using reconcile_not_minted(4) by simp
  show ?thesis unfolding reconcile_not_minted(1)
    by (rule step_frame_disk [OF assms(2)]) (use write_synthetic_get in \<open>simp_all add: fs\<close>)
next
  case (job_done before event p after)
  show ?thesis by (rule step_frame_end [OF assms(2) job_done(3)]) (auto simp: job_done(1))
next
  case (job_failed before event p after why)
  show ?thesis by (rule step_frame_end [OF assms(2) job_failed(3)]) (auto simp: job_failed(1))
next
  case (job_panics before event p after)
  show ?thesis by (rule step_frame_end [OF assms(2) job_panics(3)]) (auto simp: job_panics(1))
qed (simp_all add: step_frame_def)

section \<open>The GC's own steps\<close>

lemma expire_one_keeps:
  assumes "healthy fs"
  shows "healthy (expire_one s max_age t name fs)" and "clock (expire_one s max_age t name fs) = clock fs"
  using assms finalize_error_healthy [OF assms] by (auto simp: expire_one_def Let_def split: sum.split)

lemma expire_keeps:
  assumes "healthy fs"
  shows "healthy (snd (expire_stale_cur s max_age fs))" and "clock (snd (expire_stale_cur s max_age fs)) = clock fs"
proof -
  have "healthy (fold (expire_one s max_age t) names fs) \<and> clock (fold (expire_one s max_age t) names fs) = clock fs" for t names
    using assms by (induction names arbitrary: fs) (simp_all add: expire_one_keeps)
  then show "healthy (snd (expire_stale_cur s max_age fs))" and "clock (snd (expire_stale_cur s max_age fs)) = clock fs"
    using assms by (simp_all add: expire_stale_cur_def split: sum.split prod.split)
qed

lemma prune_entries_frame:
  assumes "healthy fs"
  shows "healthy (prune_entries dir t r None names fs)" and "clock (prune_entries dir t r None names fs) = clock fs"
    and "(\<And>n. q \<noteq> join dir n) \<Longrightarrow> get (prune_entries dir t r None names fs) q = get fs q"
proof -
  have "healthy (prune_entries dir t r None names fs) \<and> clock (prune_entries dir t r None names fs) = clock fs
      \<and> ((\<forall>n. q \<noteq> join dir n) \<longrightarrow> get (prune_entries dir t r None names fs) q = get fs q)"
    using assms
  proof (induction names arbitrary: fs)
    case (Cons n names)
    have "healthy (snd (sys_unlink (join dir n) fs))"
      using Cons.prems by (intro healthyI [OF Cons.prems]) (simp_all add: healthy_def regular_intros)
    from Cons.IH [OF this] Cons.IH [OF Cons.prems] show ?case by (simp add: Let_def get_unlink_other)
  qed simp
  then show "healthy (prune_entries dir t r None names fs)" and "clock (prune_entries dir t r None names fs) = clock fs"
    and "(\<And>n. q \<noteq> join dir n) \<Longrightarrow> get (prune_entries dir t r None names fs) q = get fs q" by blast+
qed

lemma prune_archives_frame:
  assumes "healthy fs"
  shows "healthy (prune_old_archives (done_dir s) (error_dir s) r fs)"
    and "clock (prune_old_archives (done_dir s) (error_dir s) r fs) = clock fs"
    and "get (prune_old_archives (done_dir s) (error_dir s) r fs) (cur_path_of s n) = get fs (cur_path_of s n)"
proof -
  have one: "healthy (prune_archive_dir d r f) \<and> clock (prune_archive_dir d r f) = clock f
      \<and> (d \<noteq> cur_dir s \<longrightarrow> get (prune_archive_dir d r f) (cur_path_of s n) = get f (cur_path_of s n))" if "healthy f" for d f
    using that prune_entries_frame [OF that]
    by (auto simp: prune_archive_dir_def prune_archive_dir_inner_def split: sum.split prod.split)
  show "healthy (prune_old_archives (done_dir s) (error_dir s) r fs)"
    and "clock (prune_old_archives (done_dir s) (error_dir s) r fs) = clock fs"
    and "get (prune_old_archives (done_dir s) (error_dir s) r fs) (cur_path_of s n) = get fs (cur_path_of s n)"
    using assms one [OF assms] one [of "prune_archive_dir (done_dir s) r fs" "error_dir s"]
    by (simp_all add: prune_old_archives_def one)
qed

section \<open>Runs with time and GC\<close>

text \<open>\<open>born\<close> is when the claim at a path was made.\<close>

definition births :: "sup \<Rightarrow> sup \<Rightarrow> (path \<Rightarrow> systime) \<Rightarrow> path \<Rightarrow> systime" where
  "births s s' born p =
     (if \<exists>x \<in> set (running s'). snd x = p \<and> x \<notin> set (running s) then clock (sup_fs s) else born p)"

text \<open>
  The outside here is the spooler, the clock, signals, control, and the GC's scans.  The one bound on
  time is the workers': a job is over before its claim is older than the runtime ceiling, the API round trips
  and the \<open>limactl\<close> deadlines around it add up to.  The clock may jump backwards.
\<close>

inductive timed_step :: "sup_params \<Rightarrow> sup \<Rightarrow> (path \<Rightarrow> systime) \<Rightarrow> sup \<Rightarrow> (path \<Rightarrow> systime) \<Rightarrow> bool"
  for P :: sup_params where
  own: "own_step P s s' \<Longrightarrow> timed_step P s born s' (births s s' born)"
| outside: "env_step P s s' \<Longrightarrow> sup_fs s' = sup_fs s \<Longrightarrow> timed_step P s born s' born"
| deliver: "open_for_steps s \<Longrightarrow>
    timed_step P s born (s\<lparr>sup_fs := spool_step (pr_spool P) (Deliver n b m u) (sup_fs s)\<rparr>) born"
| time: "open_for_steps s \<Longrightarrow>
    (\<And>x. x \<in> set (running s) \<Longrightarrow> age_in_secs t (born (snd x)) \<le> claim_age_bound (pr_config P)) \<Longrightarrow>
    timed_step P s born (s\<lparr>sup_fs := (sup_fs s)\<lparr>clock := t\<rparr>\<rparr>) born"
| expire: "open_for_steps s \<Longrightarrow>
    timed_step P s born (s\<lparr>sup_fs := snd (expire_stale_cur (pr_spool P) (cur_claim_max_age_secs (pr_config P)) (sup_fs s))\<rparr>) born"
| prune: "open_for_steps s \<Longrightarrow>
    timed_step P s born (s\<lparr>sup_fs := prune_old_archives (done_dir (pr_spool P)) (error_dir (pr_spool P)) r (sup_fs s)\<rparr>) born"

text \<open>A path of the host holds no NUL byte.\<close>

definition timed_start :: "sup_params \<Rightarrow> sup \<times> (path \<Rightarrow> systime) \<Rightarrow> bool" where
  "timed_start P c \<longleftrightarrow> undisturbed_start P (fst c) \<and> \<not> has_nul (root (pr_spool P))"

abbreviation timed :: "sup_params \<Rightarrow> sup \<Rightarrow> (path \<Rightarrow> systime) \<Rightarrow> bool" where
  "timed P s born \<equiv> gets_to (timed_start P) (\<lambda>c c'. timed_step P (fst c) (snd c) (fst c') (snd c')) (s, born)"

definition young :: "sup_params \<Rightarrow> fsys \<Rightarrow> (path \<Rightarrow> systime) \<Rightarrow> path \<Rightarrow> bool" where
  "young P fs born p \<longleftrightarrow> (\<exists>i. get fs p = Some i \<and> imtime i = born p)
     \<and> age_in_secs (clock fs) (born p) \<le> claim_age_bound (pr_config P)"

definition all_young :: "sup_params \<Rightarrow> sup \<Rightarrow> (path \<Rightarrow> systime) \<Rightarrow> bool" where
  "all_young P s born \<longleftrightarrow> (\<forall>x \<in> set (running s). young P (sup_fs s) born (snd x))"

lemma own_step_young:
  assumes "own_step P s s'" and "claims_inv P s" and "all_young P s born"
  shows "all_young P s' (births s s' born)"
  unfolding all_young_def
proof
  fix x assume x: "x \<in> set (running s')"
  note inv' = own_step_claims [OF assms(1,2)]
  note fr = own_step_frame [OF assms(1,2), unfolded step_frame_def]
  show "young P (sup_fs s') (births s s' born) (snd x)"
  proof (cases "x \<in> set (running s)")
    case False
    with x have "births s s' born (snd x) = clock (sup_fs s)" by (auto simp: births_def)
    moreover have "\<exists>i. get (sup_fs s') (snd x) = Some i \<and> imtime i = clock (sup_fs s)"
      using fr x False by (auto split: if_splits)
    ultimately show ?thesis using fr by (simp add: young_def)
  next
    case True
    have "y \<in> set (running s)" if "y \<in> set (running s')" "snd y = snd x" for y
    proof -
      have "held P (sup_fs s') x" "held P (sup_fs s') y" using inv' x that(1) by (simp_all add: claims_inv_def)
      with that(2) have "job_id (ev_job (fst x)) = job_id (ev_job (fst y))" by (simp add: held_def job_claim_inj)
      with inv' x that(1) have "x = y" by (auto simp: claims_inv_def distinct_map inj_on_def)
      with True show ?thesis by simp
    qed
    then have "births s s' born (snd x) = born (snd x)" by (auto simp: births_def)
    moreover have "get (sup_fs s') (snd x) = get (sup_fs s) (snd x)" using fr x True by auto
    ultimately show ?thesis using assms(3) True fr by (simp add: all_young_def young_def)
  qed
qed

text \<open>Seen without the times, such a run is undisturbed: the GC is one of the other users of the disk.\<close>

lemma disk_step_undisturbed:
  assumes "open_for_steps s" and "healthy fs"
    and "\<And>x. x \<in> set (running s) \<Longrightarrow> present (sup_fs s) (snd x) \<Longrightarrow> present fs (snd x)"
  shows "undisturbed_step P s (s\<lparr>sup_fs := fs\<rparr>)"
  using assms env_step.disk_changes [OF assms(1), of P fs] by (simp add: undisturbed_step_def claims_kept_def)

lemma expire_spares:
  assumes "\<not> has_nul (root (pr_spool P))" and "claims_inv P s" and "all_young P s born" and x: "x \<in> set (running s)"
  shows "get (snd (expire_stale_cur (pr_spool P) (cur_claim_max_age_secs (pr_config P)) (sup_fs s))) (snd x) = get (sup_fs s) (snd x)"
proof -
  from assms(3) x obtain i where i: "get (sup_fs s) (snd x) = Some i"
    "age_in_secs (clock (sup_fs s)) (imtime i) \<le> claim_age_bound (pr_config P)"
    by (auto simp: all_young_def young_def)
  from assms(2) x have p: "snd x = cur_path_of (pr_spool P) (canonical_name (job_id (ev_job (fst x))))" and h: "healthy (sup_fs s)"
    by (auto simp: claims_inv_def held_def job_claim_def)
  from expire_scan [OF h i(1) [unfolded p] no_nul_canonical(2) [OF assms(1)] assms(1), of "pr_config P"] i p
  show ?thesis by (simp add: claim_scan_def)
qed

lemma timed_step_sim:
  assumes "timed_step P s born s' born'" and "\<not> has_nul (root (pr_spool P))" and inv: "claims_inv P s" and young: "all_young P s born"
  shows "all_young P s' born' \<and> undisturbed_step P s s'"
  using assms(1)
proof cases
  case own
  with own_step_young [OF _ inv young] show ?thesis by (simp add: undisturbed_step_def)
next
  case outside
  with inv young show ?thesis
    by (simp add: undisturbed_step_def claims_kept_def env_step_running all_young_def claims_inv_def)
next
  case (deliver n b m u)
  have h: "healthy (sup_fs s)" using inv by (simp add: claims_inv_def)
  have "snd x \<noteq> new_path (pr_spool P) n" if "x \<in> set (running s)" for x
    using inv that by (auto simp: claims_inv_def held_def job_claim_def)
  moreover have "undisturbed_step P s s'" unfolding deliver(1)
    using deliver(3) healthy_step [OF h] by (rule disk_step_undisturbed) (simp add: present_def)
  ultimately show ?thesis using young deliver(1,2) by (auto simp: all_young_def young_def)
next
  case (time t)
  have "undisturbed_step P s s'" unfolding time(1)
    using time(3) by (rule disk_step_undisturbed) (use inv in \<open>simp_all add: claims_inv_def present_def\<close>)
  with young time show ?thesis by (auto simp: all_young_def young_def)
next
  case expire
  have h: "healthy (sup_fs s)" using inv by (simp add: claims_inv_def)
  note same = expire_spares [OF assms(2) inv young]
  have "undisturbed_step P s s'" unfolding expire(1)
    using expire(3) expire_keeps(1) [OF h] by (rule disk_step_undisturbed) (simp add: present_def same)
  with young same expire(1,2) show ?thesis by (simp add: all_young_def young_def expire_keeps(2) [OF h])
next
  case (prune r)
  have h: "healthy (sup_fs s)" using inv by (simp add: claims_inv_def)
  have same: "get (prune_old_archives (done_dir (pr_spool P)) (error_dir (pr_spool P)) r (sup_fs s)) (snd x) = get (sup_fs s) (snd x)"
    if "x \<in> set (running s)" for x
    using inv that prune_archives_frame(3) [OF h] by (auto simp: claims_inv_def held_def job_claim_def)
  have "undisturbed_step P s s'" unfolding prune(1)
    using prune(3) prune_archives_frame(1) [OF h] by (rule disk_step_undisturbed) (simp add: present_def same)
  with young same prune(1,2) show ?thesis by (simp add: all_young_def young_def prune_archives_frame(2) [OF h])
qed

interpretation timing: simulation "timed_start P" "\<lambda>c c'. timed_step P (fst c) (snd c) (fst c') (snd c')"
  "\<lambda>c. \<not> has_nul (root (pr_spool P)) \<and> all_young P (fst c) (snd c)"
  fst "undisturbed_start P" "undisturbed_step P" for P
proof (unfold_locales, goal_cases)
  case (1 c)
  then show ?case by (simp add: timed_start_def undisturbed_start_def initial_def all_young_def)
next
  case (2 c c')
  with timed_step_sim [OF 2(3) _ claims.gets_to_inv [OF 2(2)]] show ?case by (simp add: r_into_rtranclp)
qed

section \<open>Property\<close>



end
