(* ===== verification/Supervisor_Pool.thy ===== *)
theory Supervisor_Pool
  imports Supervisor_Claims
begin

text \<open>
  The contract of the daemon's concurrency (\<open>supervisor.rs: run\<close>) as a small machine: a pool of at most
  \<open>n\<close> workers, one per job id, that closes either empty or by an abort.  The detailed machine, with its
  semaphore, queue, pause flag and disk, simulates it.
\<close>

section \<open>The abstract pool\<close>

datatype pool_status = PoolOpen | PoolDrained | PoolAborted

record pool =
  members :: "u64 set"
  pool_at :: pool_status

inductive pool_step :: "nat \<Rightarrow> pool \<Rightarrow> pool \<Rightarrow> bool" for n :: nat where
  admit: "pool_at p = PoolOpen \<Longrightarrow> i \<notin> members p \<Longrightarrow> card (members p) < n \<Longrightarrow>
    pool_step n p (p\<lparr>members := insert i (members p)\<rparr>)"
| leave: "pool_at p = PoolOpen \<Longrightarrow> i \<in> members p \<Longrightarrow> pool_step n p (p\<lparr>members := members p - {i}\<rparr>)"
| close: "pool_at p = PoolOpen \<Longrightarrow> members p = {} \<Longrightarrow> pool_step n p (p\<lparr>pool_at := PoolDrained\<rparr>)"
| abort: "pool_at p = PoolOpen \<Longrightarrow> pool_step n p (p\<lparr>pool_at := PoolAborted\<rparr>)"

definition pool_start :: "pool \<Rightarrow> bool" where
  "pool_start p \<longleftrightarrow> members p = {} \<and> pool_at p = PoolOpen"

definition pool_inv :: "nat \<Rightarrow> pool \<Rightarrow> bool" where
  "pool_inv n p \<longleftrightarrow> finite (members p) \<and> card (members p) \<le> n \<and> (pool_at p = PoolDrained \<longrightarrow> members p = {})"

interpretation pool: step_system pool_start "pool_step n" "pool_inv n" for n
proof (unfold_locales, goal_cases)
  case (1 p)
  then show ?case by (simp add: pool_start_def pool_inv_def)
next
  case (2 p q)
  from 2(2,1) show ?case
  proof cases
    case (leave i)
    have "card (members p - {i}) \<le> card (members p)" by (rule card_Diff1_le)
    with leave 2(1) show ?thesis by (simp add: pool_inv_def)
  qed (simp_all add: pool_inv_def)
qed

section \<open>What the daemon shows of it\<close>

definition pool_status_of :: "shutdown_pc \<Rightarrow> pool_status" where
  "pool_status_of pc =
     (case pc of Serving \<Rightarrow> PoolOpen | Draining \<Rightarrow> PoolOpen | Drained \<Rightarrow> PoolDrained
      | Forced \<Rightarrow> PoolAborted | Failed e \<Rightarrow> PoolAborted)"

definition worker_ids :: "(workflow_job \<times> path) list \<Rightarrow> u64 set" where
  "worker_ids js = (\<lambda>x. job_id (ev_job (fst x))) ` set js"

definition pool_of :: "sup \<Rightarrow> pool" where
  "pool_of s = \<lparr>members = worker_ids (running s), pool_at = pool_status_of (shutdown_at s)\<rparr>"

lemma pool_of_open: "open_for_steps s \<Longrightarrow> pool_at (pool_of s) = PoolOpen"
  by (auto simp: open_for_steps_def pool_of_def pool_status_of_def)

lemma worker_ids_card: "claims_inv P s \<Longrightarrow> card (worker_ids (running s)) = length (running s)"
  unfolding claims_inv_def worker_ids_def by (metis distinct_card length_map set_map)

text \<open>A step of the daemon changes the list of workers by at most one.\<close>

definition workers_change :: "sup \<Rightarrow> sup \<Rightarrow> bool" where
  "workers_change s s' \<longleftrightarrow> running s' = running s \<or> (\<exists>x. running s' = x # running s)
     \<or> (\<exists>before x after. running s = before @ x # after \<and> running s' = before @ after)"

lemma release_running [simp]: "running (release s) = running s"
  by (simp add: release_def split: list.split waiter.split)

lemma release_shutdown: "shutdown_at (release s) = shutdown_at s \<or> shutdown_at (release s) = Drained"
  by (auto simp: release_def split: list.split waiter.split)

lemma own_step_change:
  assumes "own_step P s s'"
  shows "workers_change s s'" and "open_for_steps s" and "open_for_steps s' \<or> shutdown_at s' = Drained"
proof -
  show "open_for_steps s" using assms by cases
  show "workers_change s s'" using assms
    by cases (auto simp: workers_change_def acquire_one_def start_job_def)
  have "shutdown_at s' = shutdown_at s \<or> shutdown_at s' = Drained" using assms
    by cases (use release_shutdown in \<open>force simp: start_job_def acquire_one_def\<close>)+
  with \<open>open_for_steps s\<close> show "open_for_steps s' \<or> shutdown_at s' = Drained"
    by (auto simp: open_for_steps_def)
qed

lemma pool_workers:
  assumes "claims_inv P s" and "claims_inv P s'" and "length (running s') \<le> n" and "workers_change s s'" and "open_for_steps s"
  shows "(pool_step n)\<^sup>*\<^sup>* (pool_of s) ((pool_of s)\<lparr>members := worker_ids (running s')\<rparr>)"
proof -
  note o = pool_of_open [OF assms(5)]
  from assms(4) consider "running s' = running s" | x where "running s' = x # running s"
    | before x after where "running s = before @ x # after" "running s' = before @ after"
    unfolding workers_change_def by blast
  then show ?thesis
  proof cases
    case 1
    then show ?thesis by (simp add: pool_of_def)
  next
    case (2 x)
    let ?i = "job_id (ev_job (fst x))"
    from assms(2) 2 have "?i \<notin> worker_ids (running s)" by (simp add: claims_inv_def worker_ids_def)
    moreover have "card (worker_ids (running s)) < n" using worker_ids_card [OF assms(1)] assms(3) 2 by simp
    ultimately have "pool_step n (pool_of s) ((pool_of s)\<lparr>members := insert ?i (members (pool_of s))\<rparr>)"
      using o by (intro pool_step.admit) (simp_all add: pool_of_def)
    moreover have "insert ?i (members (pool_of s)) = worker_ids (running s')" using 2 by (simp add: pool_of_def worker_ids_def)
    ultimately show ?thesis by (simp add: r_into_rtranclp)
  next
    case (3 before x after)
    let ?i = "job_id (ev_job (fst x))"
    from assms(1) 3(1) have d: "?i \<notin> worker_ids (before @ after)"
      by (simp add: claims_inv_def worker_ids_def image_Un)
    have m: "members (pool_of s) = insert ?i (worker_ids (before @ after))" using 3(1) by (auto simp: pool_of_def worker_ids_def)
    have "pool_step n (pool_of s) ((pool_of s)\<lparr>members := members (pool_of s) - {?i}\<rparr>)"
      using o m by (intro pool_step.leave) simp_all
    moreover have "members (pool_of s) - {?i} = worker_ids (running s')" using d m 3(2) by simp
    ultimately show ?thesis by (simp add: r_into_rtranclp)
  qed
qed

text \<open>Closing: only an empty pool drains.\<close>

lemma pool_closes:
  assumes "open_for_steps s" and "shutdown_at s' = Drained \<longrightarrow> running s' = []"
  shows "(pool_step n)\<^sup>*\<^sup>* ((pool_of s)\<lparr>members := worker_ids (running s')\<rparr>) (pool_of s')"
proof (cases "pool_status_of (shutdown_at s')")
  case PoolOpen
  then show ?thesis using pool_of_open [OF assms(1)] by (simp add: pool_of_def)
next
  case PoolDrained
  then have "running s' = []" using assms(2) by (cases "shutdown_at s'") (simp_all add: pool_status_of_def)
  with PoolDrained pool_step.close [of "(pool_of s)\<lparr>members := worker_ids (running s')\<rparr>" n] pool_of_open [OF assms(1)]
  show ?thesis by (simp add: r_into_rtranclp pool_of_def worker_ids_def)
next
  case PoolAborted
  with pool_step.abort [of "(pool_of s)\<lparr>members := worker_ids (running s')\<rparr>" n] pool_of_open [OF assms(1)]
  show ?thesis by (simp add: r_into_rtranclp pool_of_def)
qed

lemma env_step_open: "env_step P s s' \<Longrightarrow> open_for_steps s"
  by (erule env_stepE) (simp_all add: open_for_steps_def)

interpretation pooled: simulation
  "\<lambda>s. undisturbed_start P s \<and> max_concurrency (pr_config P) < 2 ^ 32" "undisturbed_step P"
  "\<lambda>s. claims_inv P s \<and> sup_inv (max_concurrency (pr_config P)) 0 s \<and> max_concurrency (pr_config P) < 2 ^ 32"
  pool_of pool_start "pool_step (max_concurrency (pr_config P))" for P
proof (unfold_locales, goal_cases)
  case (1 s)
  then have i: "initial P s" and u: "undisturbed_start P s" and m: "max_concurrency (pr_config P) < 2 ^ 32"
    by (simp_all add: undisturbed_start_def)
  have "pool_start (pool_of s)" using i by (simp add: initial_def pool_start_def pool_of_def worker_ids_def pool_status_of_def)
  with reachable_inv [OF gets_to_start [where step = "daemon_step P", of "initial P", OF i] m] claims.start_inv [OF u] m
  show ?case by blast
next
  case (2 s s')
  let ?n = "max_concurrency (pr_config P)"
  have "daemon_step P s s'" using 2(3) by (auto simp: daemon_step_def undisturbed_step_def)
  with 2(1) permits.step_inv [of P s s'] have p: "sup_inv ?n 0 s'" by (simp add: permits_inv_def)
  have c: "claims_inv P s'" using claims.step_inv [OF _ 2(3)] 2(1) by blast
  from 2(3) consider "own_step P s s'" | "env_step P s s'" unfolding undisturbed_step_def by blast
  then have "open_for_steps s \<and> workers_change s s'"
  proof cases
    case 2
    then show ?thesis by (simp add: env_step_open env_step_running workers_change_def)
  qed (simp add: own_step_change)
  then have o: "open_for_steps s" and w: "workers_change s s'" by blast+
  have "length (running s') \<le> ?n" using p by (simp add: sup_inv_def jobs_def)
  from rtranclp_trans [OF pool_workers [OF _ c this w o] pool_closes [OF o]] 2(1) drained_running [OF p]
  have "(pool_step ?n)\<^sup>*\<^sup>* (pool_of s) (pool_of s')" by blast
  with p c 2(1) show ?case by blast
qed

section \<open>Property\<close>



end
