(* ===== verification/Supervisor_Sweep.thy ===== *)
theory Supervisor_Sweep
  imports Supervisor_Claims
begin

text \<open>
  The dispatch loop's jobs as the other parts of the daemon see them: the GC's plans for VMs and
  runners and the reconciler's test all go by the names in \<open>cur/\<close> (\<open>gc.rs: live_vm_map_from_cur\<close>,
  \<open>plan_vm_reaps\<close>, \<open>plan_runner_reaps_from_cur\<close>, \<open>should_mint\<close>), and every running job is there.
\<close>

lemma running_claimed:
  assumes "claims_inv P s" and "x \<in> set (running s)"
  shows "job_id (ev_job (fst x)) \<in> claimed_ids (cur_dir (pr_spool P)) (sup_fs s)"
proof -
  let ?i = "job_id (ev_job (fst x))"
  from assms have h: "healthy (sup_fs s)" and g: "get (sup_fs s) (cur_path_of (pr_spool P) (canonical_name ?i)) \<noteq> None"
    by (auto simp: claims_inv_def held_def job_claim_def present_def)
  with claim_entry_healthy [OF h g] show ?thesis by (auto simp: claimed_ids_def)
qed

text \<open>C12: Everybody sees the running jobs: at any moment of an undisturbed run the live map of the GC can be
  read and holds the VM of each running job, with a claim file of that very job; so no plan made from it
  takes that VM for an orphan, a stale-image reap of it names such a file, the runner of the job is
  reaped only when its VM was destroyed in the same sweep, and the reconciler does not mint the job again.\<close>

theorem running_jobs_are_seen:
  fixes s :: sup and P :: sup_params
  defines "cur \<equiv> cur_dir (pr_spool P)"
  assumes "undisturbed P s" and "x \<in> set (running s)"
  shows "\<exists>m. live_vm_map_from_cur cur (sup_fs s) = Inr m
       \<and> (\<exists>n. map_of m (vm_name_for_event (fst x)) = Some (join cur n) \<and> present (sup_fs s) (join cur n)
            \<and> parse_spool_filename n = Some (job_id (ev_job (fst x)))
            \<and> (\<forall>managed current p loc. StaleImage (vm_name_for_event (fst x)) p loc \<in> set (plan_vm_reaps managed (Some m) current)
                 \<longrightarrow> p = join cur n))
       \<and> (\<forall>managed current. Orphan (vm_name_for_event (fst x)) \<notin> set (plan_vm_reaps managed (Some m) current))
       \<and> (\<forall>runners reaped r. r \<in> set (plan_runner_reaps_from_cur cur runners reaped (sup_fs s))
            \<longrightarrow> runner_name r = vm_name_for_event (fst x) \<longrightarrow> runner_name r \<in> reaped)
       \<and> (\<forall>idle. \<not> should_mint (vm_name_for_event (fst x)) (set (map fst m)) idle)"
proof -
  let ?i = "job_id (ev_job (fst x))"
  have v: "vm_name_for_event (fst x) = vm_name ?i" by (simp add: vm_name_for_event_def)
  from claims.gets_to_inv [OF assms(2)] have inv: "claims_inv P s" .
  then have h: "healthy (sup_fs s)" by (simp add: claims_inv_def)
  then have "readable_dir cur (sup_fs s)" by (simp add: readable_dir_def healthy_def no_faults_def)
  from live_map_readable [OF this] obtain m where m: "live_vm_map_from_cur cur (sup_fs s) = Inr m" by blast
  from live_map_cases(1) [OF m] have d: "fst ` set m = vm_name ` claimed_ids cur (sup_fs s)" by simp
  with running_claimed [OF inv assms(3)] have i: "vm_name ?i \<in> fst ` set m" by (simp add: cur_def)
  then obtain p where p: "map_of m (vm_name ?i) = Some p" by (metis map_of_eq_None_iff not_Some_eq)
  from live_map_path [OF m p] obtain n where n: "p = join cur n" "get (sup_fs s) p \<noteq> None" "claim_entry cur (sup_fs s) n = Some ?i"
    by blast
  then have "parse_spool_filename n = Some ?i" using claim_entry_healthy [OF h, of cur n] by (auto split: if_splits)
  with p n have 1: "map_of m (vm_name ?i) = Some (join cur n) \<and> present (sup_fs s) (join cur n) \<and> parse_spool_filename n = Some ?i
      \<and> (\<forall>managed current q loc. StaleImage (vm_name ?i) q loc \<in> set (plan_vm_reaps managed (Some m) current) \<longrightarrow> q = join cur n)"
    by (auto simp: present_def plan_vm_reaps_Stale)
  have 2: "Orphan (vm_name ?i) \<notin> set (plan_vm_reaps managed (Some m) current)" for managed current
    using i by (simp add: plan_vm_reaps_Orphan)
  have 3: "runner_name r \<in> reaped" if "r \<in> set (plan_runner_reaps_from_cur cur runners reaped (sup_fs s))" "runner_name r = vm_name ?i"
    for runners reaped r
  proof -
    have "live_vm_names_from_cur cur (sup_fs s) = Inr (set (map fst m))" using m by (simp add: live_vm_names_from_cur_def)
    with that i show ?thesis
      by (auto simp: plan_runner_reaps_from_cur_def plan_runner_reaps_from_cur_inner_def plan_runner_reaps_def)
  qed
  have 4: "\<not> should_mint (vm_name ?i) (set (map fst m)) idle" for idle using i by (simp add: should_mint_def)
  from m 1 2 3 4 show ?thesis unfolding v by blast
qed

text \<open>The job with id 7, claimed from its delivery, and the runner that serves it.\<close>

theorem running_jobs_are_seen_witness:
  "\<exists>s m. undisturbed toy_params s \<and> running s = [(toy_event, cur_path_of demo_spool ''7.job'')]
     \<and> live_vm_map_from_cur (cur_dir demo_spool) (sup_fs s) = Inr m
     \<and> \<not> should_mint (vm_name 7) (set (map fst m)) {}"
proof -
  obtain s where s: "undisturbed toy_params s" "running s = [(toy_event, cur_path_of demo_spool ''7.job'')]"
    using waiting_sup_runs waiting_sup_undisturbed by (blast intro: gets_to_steps dest: own_steps_undisturbed)
  have p: "pr_spool toy_params = demo_spool" by (simp add: toy_params_def)
  have e: "vm_name_for_event toy_event = vm_name 7" by (simp add: vm_name_for_event_def toy_event_def toy_info_def)
  from running_jobs_are_seen [OF s(1), of "(toy_event, cur_path_of demo_spool ''7.job'')"] s
  show ?thesis unfolding p by (simp add: e) blast
qed

end
