(* ===== verification/Supervisor_Tasks.thy ===== *)
theory Supervisor_Tasks
  imports Reconcile
begin

text \<open>
  The two periodic tasks of \<open>supervisor.rs: run\<close>, the GC loop and the reconciler loop.  They run for ever,
  so a run of \<open>n\<close> rounds stands for every one of their states; \<open>tick\<close> is the wait for the next round,
  with whatever the rest of the daemon does meanwhile.
\<close>

fun gc_task ::
    "nat \<Rightarrow> nat \<Rightarrow> 'e services \<Rightarrow> gh_client \<Rightarrow> config \<Rightarrow> ('e world \<Rightarrow> 'e world) \<Rightarrow> 'e world \<Rightarrow> 'e world option"
where
  "gc_task 0 fuel S g c tick w = Some w"
| "gc_task (Suc n) fuel S g c tick w =
     (case sweep fuel S g c (tick w) of
        None \<Rightarrow> None
      | Some w1 \<Rightarrow> gc_task n fuel S g c tick w1)"

fun reconciler_rounds ::
    "nat \<Rightarrow> nat \<Rightarrow> 'e services \<Rightarrow> gh_client \<Rightarrow> config \<Rightarrow> u32 \<Rightarrow> spool \<Rightarrow> bytes \<Rightarrow> string set
     \<Rightarrow> ('e world \<Rightarrow> 'e world) \<Rightarrow> 'e world \<Rightarrow> 'e world option"
where
  "reconciler_rounds 0 fuel S g c pid s secret advertised tick w = Some w"
| "reconciler_rounds (Suc n) fuel S g c pid s secret advertised tick w =
     (let w1 = tick w in
      if paused w1 then reconciler_rounds n fuel S g c pid s secret advertised tick w1
      else (case reconcile fuel S g c pid s secret advertised w1 of
              None \<Rightarrow> None
            | Some w2 \<Rightarrow> reconciler_rounds n fuel S g c pid s secret advertised tick w2))"

text \<open>\<open>None\<close>: the reconciler is switched off, there is no such task.\<close>

definition reconciler_task ::
    "nat \<Rightarrow> nat \<Rightarrow> 'e services \<Rightarrow> gh_client \<Rightarrow> config \<Rightarrow> u32 \<Rightarrow> spool \<Rightarrow> bytes \<Rightarrow> string set
     \<Rightarrow> ('e world \<Rightarrow> 'e world) \<Rightarrow> 'e world \<Rightarrow> 'e world option option"
where
  "reconciler_task n fuel S g c pid s secret advertised tick w =
     (if reconcile_enabled c then Some (reconciler_rounds n fuel S g c pid s secret advertised tick w) else None)"

text \<open>While the daemon stays paused the reconciler's rounds are waits and nothing else.\<close>

lemma reconciler_paused:
  assumes "\<And>v. paused v \<Longrightarrow> paused (tick v)" and "paused w"
  shows "reconciler_rounds n fuel S g c pid s secret advertised tick w = Some ((tick ^^ n) w)"
  using assms(2)
proof (induction n arbitrary: w)
  case (Suc n)
  with assms(1) [OF Suc.prems] show ?case by (simp add: Let_def funpow_swap1)
qed simp

text \<open>The head of a run of rounds is a run, so what holds after every run holds at every moment.\<close>

lemma gc_task_add:
  "gc_task (m + n) fuel S g c tick w
     = (case gc_task m fuel S g c tick w of None \<Rightarrow> None | Some w1 \<Rightarrow> gc_task n fuel S g c tick w1)"
  by (induction m arbitrary: w) (auto split: option.split)

end
