(* ===== verification/Watchdog.thy ===== *)
theory Watchdog
  imports Github_Client
begin

text \<open>
  The dispatch watchdog (\<open>runner.rs\<close>: \<open>observe_runner\<close>, \<open>dispatch_verdict\<close>,
  \<open>confirm_abort\<close>, the body of \<open>watch_dispatch\<close>): it reaps a runner that never picked up a
  job, and only that.
\<close>

section \<open>Observations and verdicts\<close>

datatype runner_obs = Busy | Idle | Gone | Unknown

datatype dispatch_verdict = Continue | AbortVerdict string

datatype confirm_action = Hold | WaitToConfirm string | ConfirmedAbort string

definition LOST_REGISTRATION :: string where
  "LOST_REGISTRATION = ''registration lost before the runner ran any job''"

definition STAYED_IDLE :: string where
  "STAYED_IDLE = ''runner stayed idle without ever picking up a job''"

definition dispatch_verdict :: "runner_obs \<Rightarrow> nat \<Rightarrow> nat \<Rightarrow> dispatch_verdict" where
  "dispatch_verdict obs elapsed deadline =
     (case obs of
        Busy \<Rightarrow> Continue
      | Unknown \<Rightarrow> Continue
      | Gone \<Rightarrow> if elapsed \<le> deadline then Continue else AbortVerdict LOST_REGISTRATION
      | Idle \<Rightarrow> if elapsed \<le> deadline then Continue else AbortVerdict STAYED_IDLE)"

definition confirm_abort :: "bool \<Rightarrow> dispatch_verdict \<Rightarrow> confirm_action" where
  "confirm_abort pending verdict =
     (case verdict of
        AbortVerdict reason \<Rightarrow> if pending then ConfirmedAbort reason else WaitToConfirm reason
      | Continue \<Rightarrow> Hold)"

definition observe_runner ::
    "'e services \<Rightarrow> gh_client \<Rightarrow> string \<Rightarrow> string \<Rightarrow> u64 \<Rightarrow> 'e world \<Rightarrow> runner_obs \<times> 'e world" where
  "observe_runner S g owner repo i w =
     (case runner_status S g owner repo i w of
        (Inr (Some r), w1) \<Rightarrow>
          (if runner_busy r then Busy else if runner_state r = ''online'' then Idle else Gone, w1)
      | (Inr None, w1) \<Rightarrow> (Gone, w1)
      | (Inl e, w1) \<Rightarrow> (Unknown, w1))"

section \<open>The loop body\<close>

text \<open>After one observation the watchdog watches on (with its pending flag), parks, or aborts.\<close>

datatype watch_state = Watching bool | Parked | Aborted string

fun watch_step :: "nat \<Rightarrow> watch_state \<Rightarrow> runner_obs \<times> nat \<Rightarrow> watch_state" where
  "watch_step deadline (Watching pending) (obs, elapsed) =
     (if obs = Busy then Parked
      else (case confirm_abort pending (dispatch_verdict obs elapsed deadline) of
              ConfirmedAbort reason \<Rightarrow> Aborted reason
            | WaitToConfirm _ \<Rightarrow> Watching True
            | Hold \<Rightarrow> Watching pending))"
| "watch_step deadline Parked _ = Parked"
| "watch_step deadline (Aborted reason) _ = Aborted reason"

definition watch_trace :: "nat \<Rightarrow> (runner_obs \<times> nat) list \<Rightarrow> watch_state" where
  "watch_trace deadline obs = foldl (watch_step deadline) (Watching False) obs"

section \<open>Facts\<close>

definition wedged :: "nat \<Rightarrow> runner_obs \<times> nat \<Rightarrow> bool" where
  "wedged deadline oe \<longleftrightarrow> (fst oe = Idle \<or> fst oe = Gone) \<and> deadline < snd oe"

definition reason_of :: "runner_obs \<Rightarrow> string" where
  "reason_of obs = (if obs = Gone then LOST_REGISTRATION else STAYED_IDLE)"

lemma watch_step_Watching:
  "watch_step deadline (Watching p) oe =
     (if fst oe = Busy then Parked
      else if wedged deadline oe then (if p then Aborted (reason_of (fst oe)) else Watching True)
      else Watching p)"
  by (cases oe; cases "fst oe")
     (auto simp: wedged_def confirm_abort_def dispatch_verdict_def reason_of_def)

lemma foldl_watch_final [simp]:
  "foldl (watch_step d) Parked obs = Parked" "foldl (watch_step d) (Aborted r) obs = Aborted r"
  by (induction obs) simp_all

text \<open>The polls before the first busy one, and the wedged ones among them.\<close>

definition wedged_polls :: "nat \<Rightarrow> (runner_obs \<times> nat) list \<Rightarrow> (runner_obs \<times> nat) list" where
  "wedged_polls deadline obs = filter (wedged deadline) (takeWhile (\<lambda>oe. fst oe \<noteq> Busy) obs)"

lemma watch_pending:
  "foldl (watch_step d) (Watching True) obs =
     (case wedged_polls d obs of
        oe # _ \<Rightarrow> Aborted (reason_of (fst oe))
      | [] \<Rightarrow> if Busy \<in> fst ` set obs then Parked else Watching True)"
proof (induction obs)
  case (Cons oe obs)
  have "fst oe = Busy \<Longrightarrow> \<not> wedged d oe" by (simp add: wedged_def)
  with Cons show ?case by (auto simp: watch_step_Watching wedged_polls_def split: list.split)
qed (simp add: wedged_polls_def)

lemma watch_fresh:
  "foldl (watch_step d) (Watching False) obs =
     (case wedged_polls d obs of
        _ # oe # _ \<Rightarrow> Aborted (reason_of (fst oe))
      | [_] \<Rightarrow> if Busy \<in> fst ` set obs then Parked else Watching True
      | [] \<Rightarrow> if Busy \<in> fst ` set obs then Parked else Watching False)"
proof (induction obs)
  case (Cons oe obs)
  show ?case
  proof (cases "fst oe = Busy \<or> \<not> wedged d oe")
    case True
    with Cons show ?thesis
      by (auto simp: watch_step_Watching wedged_polls_def wedged_def split: list.split)
  next
    case False
    then have "wedged_polls d (oe # obs) = oe # wedged_polls d obs" by (simp add: wedged_polls_def)
    with False show ?thesis
      by (auto simp: watch_step_Watching watch_pending split: list.split)
  qed
qed (simp add: wedged_polls_def)

section \<open>Properties\<close>

text \<open>The watchdog aborts exactly when two polls found the runner idle or gone past the deadline
  before any poll found it busy, with the reason of the second; a runner seen busy first is never
  aborted, and failed polls change nothing: leaving them out of the trace gives the same outcome.\<close>

theorem watchdog_needs_two_wedged_polls:
  "(watch_trace deadline obs = Aborted reason \<longleftrightarrow>
      (\<exists>oe1 oe2 rest. wedged_polls deadline obs = oe1 # oe2 # rest \<and> reason = reason_of (fst oe2)))
   \<and> watch_trace deadline (filter (\<lambda>oe. fst oe \<noteq> Unknown) obs) = watch_trace deadline obs"
proof
  show "watch_trace deadline obs = Aborted reason \<longleftrightarrow>
      (\<exists>oe1 oe2 rest. wedged_polls deadline obs = oe1 # oe2 # rest \<and> reason = reason_of (fst oe2))"
    unfolding watch_trace_def watch_fresh by (auto split: list.split)
  have "foldl (watch_step deadline) st (filter (\<lambda>oe. fst oe \<noteq> Unknown) obs) = foldl (watch_step deadline) st obs" for st
  proof (induction obs arbitrary: st)
    case (Cons oe obs)
    have "watch_step deadline st oe = st" if "fst oe = Unknown"
      using that by (cases st; cases oe) (auto simp: confirm_abort_def dispatch_verdict_def)
    with Cons show ?case by simp
  qed simp
  then show "watch_trace deadline (filter (\<lambda>oe. fst oe \<noteq> Unknown) obs) = watch_trace deadline obs"
    by (simp add: watch_trace_def)
qed

text \<open>The two need not be consecutive polls: one that failed between them does not disarm the watchdog.\<close>

lemma unknown_poll_keeps_confirmation:
  "watch_trace 5 [(Idle, 6), (Unknown, 7), (Idle, 8)] = Aborted STAYED_IDLE"
  by (simp add: watch_trace_def confirm_abort_def dispatch_verdict_def)

end
