(* ===== verification/Runner.thy ===== *)
theory Runner
  imports Watchdog Gc_Sweep
begin

text \<open>
  The life of one job (\<open>runner.rs\<close>: \<open>run_job\<close> and what it calls; \<open>supervisor.rs\<close>:
  \<open>spawn_job\<close>): mint a runner registration, boot a VM, hand it the registration, race the runner
  against the dispatch watchdog, tear everything down, finalize the claim.
\<close>

section \<open>Repository names\<close>

definition is_safe_repo_segment :: "string \<Rightarrow> bool" where
  "is_safe_repo_segment s \<longleftrightarrow>
     s \<noteq> [] \<and> length s \<le> 100
     \<and> list_all (\<lambda>b. is_ascii_alnum b \<or> b = CHR ''.'' \<or> b = CHR ''_'' \<or> b = CHR ''-'') s"

definition split_full_name :: "string \<Rightarrow> (string \<times> string) res" where
  "split_full_name full =
     (case split_once (CHR ''/'') full of
        None \<Rightarrow> Inl (Ctx (''expected owner/repo, got '' @ full) (Msg ''missing /''))
      | Some (owner, repo) \<Rightarrow>
          if owner = [] \<or> repo = [] \<or> CHR ''/'' \<in> set repo
          then Inl (Msg (''not a single owner/repo pair: '' @ full))
          else if \<not> is_safe_repo_segment owner \<or> \<not> is_safe_repo_segment repo
          then Inl (Msg (''owner/repo '' @ full @ '' contains unsafe characters''))
          else Inr (owner, repo))"

section \<open>Private files\<close>

definition jit_path :: "config \<Rightarrow> string \<Rightarrow> path" where
  "jit_path c vm = join (join (state_dir c) ''instances'') (vm @ ''.jit'')"

definition write_jit_blob :: "path \<Rightarrow> bytes \<Rightarrow> fsys \<Rightarrow> unit res \<times> fsys" where
  "write_jit_blob p contents fs =
     (case sys_unlink p fs of
        (Inr _, fs1) \<Rightarrow> write_private_file p contents fs1
      | (Inl NotFound, fs1) \<Rightarrow> write_private_file p contents fs1
      | (Inl e, fs1) \<Rightarrow> (Inl (Ctx ''remove stale JIT blob'' (IoErr e)), fs1))"

definition write_serial_evidence :: "path \<Rightarrow> bytes \<Rightarrow> fsys \<Rightarrow> unit res \<times> fsys" where
  "write_serial_evidence p contents fs =
     (case sys_unlink p fs of
        (Inr _, fs1) \<Rightarrow> write_private_file p contents fs1
      | (Inl NotFound, fs1) \<Rightarrow> write_private_file p contents fs1
      | (Inl e, fs1) \<Rightarrow> (Inl (Ctx ''remove stale'' (IoErr e)), fs1))"

section \<open>Evidence of a guest out of memory\<close>

definition SERIAL_TAIL_BYTES :: nat where "SERIAL_TAIL_BYTES = 64 * 1024"

definition detect_guest_oom :: "string \<Rightarrow> string option" where
  "detect_guest_oom serial_tail =
     List.find (\<lambda>line. let l = to_ascii_lowercase line in
                  contains_str ''out of memory'' l \<or> contains_str ''oom-kill:'' l) (str_lines serial_tail)"

definition capture_oom_evidence :: "'e services \<Rightarrow> config \<Rightarrow> string \<Rightarrow> 'e world \<Rightarrow> 'e world" where
  "capture_oom_evidence S c vm w =
     (case serial_log_tail S vm SERIAL_TAIL_BYTES w of
        (Inr (Some serial_tail), w1) \<Rightarrow>
          (case detect_guest_oom serial_tail of
             None \<Rightarrow> w1
           | Some _ \<Rightarrow>
               snd (on_disk (write_serial_evidence
                       (join (join (state_dir c) ''logs'') (vm @ ''.serial.log'')) serial_tail) w1))
      | (Inr None, w1) \<Rightarrow> w1
      | (Inl _, w1) \<Rightarrow> w1)"

section \<open>Racing the runner against the watchdog\<close>

definition RUN_ONCE :: "string list" where
  "RUN_ONCE = [''sudo'', ''gha-run-once'', ''/tmp/jit'']"

definition shell_argv :: "string \<Rightarrow> string list" where
  "shell_argv vm = [''shell'', vm, ''--''] @ RUN_ONCE"

text \<open>The command's end as \<open>Lima::shell\<close> reports it.\<close>

definition shell_result :: "cmd_result \<Rightarrow> int res" where
  "shell_result r =
     (case r of
        SpawnFailed e \<Rightarrow> Inl (Ctx ''spawn limactl shell'' (Msg e))
      | Exited status _ _ \<Rightarrow> Inr status
      | WaitFailed e \<Rightarrow> Inl (Ctx ''wait limactl shell'' (Msg e))
      | TimedOut \<Rightarrow> Inl (Msg ''limactl shell timed out''))"

datatype race_end = Finished cmd_result | WatchdogFired string

text \<open>
  \<open>select!\<close> over the command and \<open>watch_dispatch\<close>, biased towards the command: it wins at a
  tick, and also if it ended while the runner's state was being asked for.  A parked watchdog leaves
  only the command.  The fuel is the number of ticks.
\<close>

fun race_watchdog ::
    "nat \<Rightarrow> 'e services \<Rightarrow> gh_client \<Rightarrow> string \<Rightarrow> string \<Rightarrow> u64 \<Rightarrow> string list \<Rightarrow> nat \<Rightarrow> nat \<Rightarrow> nat \<Rightarrow> nat
     \<Rightarrow> bool \<Rightarrow> 'e world \<Rightarrow> (race_end \<times> 'e world) option"
where
  "race_watchdog 0 S g owner repo rid argv runtime deadline poll start pending w = None"
| "race_watchdog (Suc fuel) S g owner repo rid argv runtime deadline poll start pending w =
     (case shell_or_tick S argv runtime poll w of
        (Some r, w1) \<Rightarrow> Some (Finished r, w1)
      | (None, w1) \<Rightarrow>
          (case observe_runner S g owner repo rid w1 of
             (obs, w2) \<Rightarrow>
               (case shell_now S argv w2 of
                  Some r \<Rightarrow> Some (Finished r, w2)
                | None \<Rightarrow>
                    (case watch_step deadline (Watching pending) (obs, uptime S w2 - start) of
                       Parked \<Rightarrow>
                         (case shell_wait S argv runtime w2 of (r, w3) \<Rightarrow> Some (Finished r, w3))
                     | Aborted reason \<Rightarrow> Some (WatchdogFired reason, w2)
                     | Watching pending' \<Rightarrow>
                         race_watchdog fuel S g owner repo rid argv runtime deadline poll start pending' w2))))"

definition run_runner ::
    "nat \<Rightarrow> 'e services \<Rightarrow> gh_client \<Rightarrow> config \<Rightarrow> string \<Rightarrow> string \<Rightarrow> string \<Rightarrow> u64 \<Rightarrow> 'e world
     \<Rightarrow> (int res \<times> 'e world) option"
where
  "run_runner fuel S g c vm owner repo rid w =
     (let runtime = unat (job_max_runtime_secs c) in
      if dispatch_deadline_secs c = 0
      then (case lima_shell S vm RUN_ONCE runtime w of
              (r, w1) \<Rightarrow> Some (with_context ''run gha-run-once'' r, w1))
      else (case race_watchdog fuel S g owner repo rid (shell_argv vm) runtime
                   (secs (unat (dispatch_deadline_secs c))) (unat (dispatch_poll_secs c))
                   (uptime S w) False w of
              None \<Rightarrow> None
            | Some (Finished r, w1) \<Rightarrow> Some (with_context ''run gha-run-once'' (shell_result r), w1)
            | Some (WatchdogFired reason, w1) \<Rightarrow>
                Some (Inl (Msg (''dispatch watchdog aborted runner: '' @ reason)), w1)))"

section \<open>One job\<close>

definition boot_vm ::
    "'e services \<Rightarrow> config \<Rightarrow> string \<Rightarrow> jit_config_resp \<Rightarrow> 'e world \<Rightarrow> unit res \<times> 'e world" where
  "boot_vm S c vm jit =
     bind_res (\<lambda>w. apfst (with_context ''write JIT blob'')
                 (on_disk (write_jit_blob (jit_path c vm) (encoded_jit_config jit)) w))
       (\<lambda>_. bind_res (\<lambda>w. apfst (with_context ''start Lima VM'') (lima_start S vm (lima_template c) w))
       (\<lambda>_ w. apfst (with_context ''copy JIT blob into VM'') (copy_into S vm (jit_path c vm) ''/tmp/jit'' w)))"

definition check_exit :: "workflow_job \<Rightarrow> int \<Rightarrow> unit res" where
  "check_exit event status =
     (if status \<noteq> 0
      then Inl (Msg (''runner exited non-zero; repo='' @ sanitize_for_log (full_name (ev_repository event))
                     @ '' job='' @ sanitize_for_log (job_name (ev_job event))))
      else Inr ())"

definition run_in_vm ::
    "nat \<Rightarrow> 'e services \<Rightarrow> gh_client \<Rightarrow> config \<Rightarrow> workflow_job \<Rightarrow> string \<Rightarrow> jit_config_resp \<Rightarrow> string \<Rightarrow> string
     \<Rightarrow> 'e world \<Rightarrow> (unit res \<times> 'e world) option"
where
  "run_in_vm fuel S g c event vm jit owner repo w =
     (case boot_vm S c vm jit w of
        (Inl e, w1) \<Rightarrow> Some (Inl e, w1)
      | (Inr _, w1) \<Rightarrow>
          (case run_runner fuel S g c vm owner repo (jit_runner_id (jit_runner jit)) w1 of
             None \<Rightarrow> None
           | Some (Inl e, w2) \<Rightarrow> Some (Inl e, w2)
           | Some (Inr status, w2) \<Rightarrow> Some (check_exit event status, w2)))"

definition teardown ::
    "'e services \<Rightarrow> gh_client \<Rightarrow> config \<Rightarrow> string \<Rightarrow> string \<Rightarrow> string \<Rightarrow> u64 \<Rightarrow> 'e world \<Rightarrow> 'e world" where
  "teardown S g c vm owner repo rid w =
     (let w1 = snd (lima_stop S vm w);
          w2 = snd (lima_delete S vm w1);
          w3 = snd (on_disk (sys_unlink (jit_path c vm)) w2)
      in snd (delete_runner S g owner repo rid w3))"

definition run_job ::
    "nat \<Rightarrow> 'e services \<Rightarrow> gh_client \<Rightarrow> config \<Rightarrow> workflow_job \<Rightarrow> 'e world \<Rightarrow> (unit res \<times> 'e world) option" where
  "run_job fuel S g c event w =
     (let vm = vm_name_for_event event in
      case split_full_name (full_name (ev_repository event)) of
        Inl e \<Rightarrow> Some (Inl (Ctx ''repo name'' e), w)
      | Inr (owner, repo) \<Rightarrow>
          (case generate_jit_config S g owner repo vm (job_labels (ev_job event)) w of
             (Inl e, w1) \<Rightarrow> Some (Inl (Ctx ''mint JIT runner config'' e), w1)
           | (Inr jit, w1) \<Rightarrow>
               (case run_in_vm fuel S g c event vm jit owner repo w1 of
                  None \<Rightarrow> None
                | Some (inner, w2) \<Rightarrow>
                    (let w3 = capture_oom_evidence S c vm w2;
                         w4 = teardown S g c vm owner repo (jit_runner_id (jit_runner jit)) w3
                     in Some (inner, w4)))))"

section \<open>The worker task\<close>

definition completion_action_via_api ::
    "'e services \<Rightarrow> gh_client \<Rightarrow> string \<Rightarrow> u64 \<Rightarrow> 'e world \<Rightarrow> completion_action \<times> 'e world" where
  "completion_action_via_api S g owner_repo i w =
     (case split_once (CHR ''/'') owner_repo of
        None \<Rightarrow> (Done, w)
      | Some (owner, repo) \<Rightarrow>
          (case get_job_status S g owner repo i w of
             (Inr st, w1) \<Rightarrow> (completion_action (map_option js_status st), w1)
           | (Inl e, w1) \<Rightarrow> (Done, w1)))"

text \<open>\<open>format!("{e:#}")\<close>: the contexts, outermost first.\<close>

fun err_text :: "err \<Rightarrow> string" where
  "err_text (Msg m) = m"
| "err_text (Ctx c e) = c @ '': '' @ err_text e"
| "err_text (IoErr NotFound) = ''not found''"
| "err_text (IoErr AlreadyExists) = ''already exists''"
| "err_text (IoErr (OtherIo n)) = ''os error '' @ dec n"

text \<open>The task \<open>spawn_job\<close> starts; its permit goes back when it ends.\<close>

definition job_worker ::
    "nat \<Rightarrow> 'e services \<Rightarrow> gh_client \<Rightarrow> config \<Rightarrow> spool \<Rightarrow> workflow_job \<Rightarrow> path \<Rightarrow> 'e world \<Rightarrow> 'e world option"
where
  "job_worker fuel S g c s event cur_path w =
     (case run_job fuel S g c event w of
        None \<Rightarrow> None
      | Some (Inr _, w1) \<Rightarrow>
          (let w2 = (if job_completion_check c
                     then snd (completion_action_via_api S g (full_name (ev_repository event)) (job_id (ev_job event)) w1)
                     else w1);
               w3 = snd (on_disk (finalize_done s cur_path) w2)
           in Some (w3\<lparr>permits := Suc (permits w3)\<rparr>))
      | Some (Inl e, w1) \<Rightarrow>
          (let w2 = snd (on_disk (finalize_error s cur_path (err_text e)) w1)
           in Some (w2\<lparr>permits := Suc (permits w2)\<rparr>)))"

end
