(* ===== verification/Service_Frame.thy ===== *)
theory Service_Frame
  imports Runner
begin

text \<open>
  What a sequence of service calls may do: a relation on worlds that is a preorder, holds across every
  HTTP request and every update of the client's caches (\<open>http_frame\<close>) and across every
  \<open>limactl\<close> command (\<open>framed\<close>), holds across every operation built from them.
\<close>

definition http_frame :: "'e services \<Rightarrow> ('e world \<Rightarrow> 'e world \<Rightarrow> bool) \<Rightarrow> bool" where
  "http_frame S R \<longleftrightarrow>
     reflp R \<and> transp R \<and> (\<forall>rq w. R w (snd (http_send S rq w)))
     \<and> (\<forall>w x. R w (w\<lparr>cached_installation := x\<rparr>)) \<and> (\<forall>w x. R w (w\<lparr>cached_token_slot := x\<rparr>))"

definition framed :: "'e services \<Rightarrow> ('e world \<Rightarrow> 'e world \<Rightarrow> bool) \<Rightarrow> bool" where
  "framed S R \<longleftrightarrow>
     http_frame S R \<and> (\<forall>argv t w. R w (snd (limactl S argv t w)))
     \<and> (\<forall>argv t p w. R w (snd (shell_or_tick S argv t p w)))
     \<and> (\<forall>argv t w. R w (snd (shell_wait S argv t w)))"

lemma http_frameD:
  assumes "http_frame S R"
  shows http_refl: "R w w" and http_trans: "R w1 w2 \<Longrightarrow> R w2 w3 \<Longrightarrow> R w1 w3"
    and http_sent: "http_send S rq w = (x, w') \<Longrightarrow> R w w'"
    and http_inst: "R w (w\<lparr>cached_installation := i\<rparr>)" and http_slot: "R w (w\<lparr>cached_token_slot := c\<rparr>)"
  using assms unfolding http_frame_def reflp_def transp_def by (blast | metis snd_conv)+

section \<open>Requests\<close>

lemma installation_frame:
  assumes "http_frame S R" and "installation_id S g a w = (x, w')"
  shows "R w w'"
  using assms(2) http_frameD [OF assms(1)]
  by (auto simp: installation_id_def split: option.splits sum.splits prod.splits) blast+

lemma mint_token_frame:
  assumes "http_frame S R" and "mint_token S g i w = (x, w')"
  shows "R w w'"
  using assms(2) http_frameD [OF assms(1)]
  by (auto simp: mint_token_def split: sum.splits prod.splits) blast+

lemma token_frame:
  assumes "http_frame S R" and "token S g w = (x, w')"
  shows "R w w'"
proof -
  obtain y w1 where i: "installation_id S g (gh_account g) w = (y, w1)" by fastforce
  have "w' = w1 \<or> (\<exists>n. mint_token S g n w1 = (x, w'))"
    using assms(2) i by (auto simp: token_def split: sum.splits option.splits if_splits)
  with installation_frame [OF assms(1) i] mint_token_frame [OF assms(1)] http_trans [OF assms(1)]
  show ?thesis by blast
qed

lemma send_with_frame:
  "http_frame S R \<Longrightarrow> send_with S ctx verb url body tok w = (x, w') \<Longrightarrow> R w w'"
  using http_sent by (auto simp: send_with_def split: prod.splits sum.splits)

lemma invalidate_frame: "http_frame S R \<Longrightarrow> R w (invalidate t w)"
  using http_refl http_slot by (auto simp: invalidate_def split: option.split)

lemma send_authed_frame:
  assumes "http_frame S R" and "send_authed S g ctx verb url body w = (x, w')"
  shows "R w w'"
proof -
  note fr = token_frame [OF assms(1)] send_with_frame [OF assms(1)] invalidate_frame [OF assms(1)]
    http_trans [OF assms(1)]
  obtain y1 w1 where 1: "token S g w = (y1, w1)" by fastforce
  show ?thesis
  proof (cases y1)
    case (Inl e)
    with 1 assms(2) fr(1) show ?thesis by (auto simp: send_authed_def)
  next
    case (Inr tok)
    obtain y2 w2 where 2: "send_with S ctx verb url body tok w1 = (y2, w2)" by fastforce
    obtain y3 w3 where 3: "token S g (invalidate tok w2) = (y3, w3)" by fastforce
    have c: "w' = w2 \<or> w' = w3 \<or> (\<exists>tok'. send_with S ctx verb url body tok' w3 = (x, w'))"
      using assms(2) 1 2 3 Inr by (auto simp: send_authed_def split: sum.splits if_splits)
    have r2: "R w w2" using fr(4) [OF fr(1) [OF 1] fr(2) [OF 2]] .
    have r3: "R w w3" using fr(4) [OF r2 fr(4) [OF fr(3) fr(1) [OF 3]]] .
    from c show ?thesis using r2 r3 fr(4) [OF r3 fr(2)] by blast
  qed
qed

lemma gh_calls_frame:
  assumes "http_frame S R"
  shows "generate_jit_config S g owner repo vm labels w = (x1, w') \<Longrightarrow> R w w'"
    and "runner_status S g owner repo i w = (x2, w') \<Longrightarrow> R w w'"
    and "delete_runner S g owner repo i w = (x3, w') \<Longrightarrow> R w w'"
    and "get_job_status S g owner repo i w = (x4, w') \<Longrightarrow> R w w'"
  using send_authed_frame [OF assms]
  by (auto simp: generate_jit_config_def runner_status_def delete_runner_def get_job_status_def
      split: prod.splits sum.splits if_splits)

lemma observe_frame:
  assumes "http_frame S R" and "observe_runner S g owner repo i w = (x, w')"
  shows "R w w'"
  using assms(2) gh_calls_frame(2) [OF assms(1)]
  by (auto simp: observe_runner_def split: prod.splits sum.splits option.splits if_splits)

lemma completion_frame:
  assumes "http_frame S R"
  shows "R w (snd (completion_action_via_api S g full i w))"
  using gh_calls_frame(4) [OF assms] http_refl [OF assms]
  by (auto simp: completion_action_via_api_def split: option.split prod.split sum.split)

section \<open>Listings\<close>

lemma pages_frame:
  assumes "transp R" and "\<And>p w x w'. fetch p w = (x, w') \<Longrightarrow> R w w'"
    and "\<And>is w x w'. handle is w = Some (x, w') \<Longrightarrow> R w w'"
  shows "pages fuel fetch handle page out w = Some (x, w') \<Longrightarrow> R w w'"
proof (induction fuel arbitrary: page out w)
  case (Suc fuel)
  obtain y w1 where f: "fetch page w = (y, w1)" by fastforce
  note r1 = assms(2) [OF f]
  show ?case
  proof (cases y)
    case (Inl e)
    with Suc.prems f r1 show ?thesis by simp
  next
    case (Inr items)
    with Suc.prems f obtain z w2 where h: "handle items w1 = Some (z, w2)" by (auto split: option.splits)
    have r2: "R w w2" using transpD [OF assms(1) r1 assms(3) [OF h]] .
    from Suc.prems f Inr h have "w' = w2 \<or> (\<exists>xs. pages fuel fetch handle (page + 1) (out @ xs) w2 = Some (x, w'))"
      by (auto split: sum.splits if_splits)
    with r2 Suc.IH transpD [OF assms(1) r2] show ?thesis by blast
  qed
qed simp

lemma get_page_frame:
  assumes "http_frame S R" and "get_page S g ctx url decode page w = (x, w')"
  shows "R w w'"
  using assms(2) send_authed_frame [OF assms(1)] by (auto simp: get_page_def split: prod.splits sum.splits)

lemma listing_frame:
  assumes "http_frame S R"
  shows "list_runners fuel S g owner repo prefix w = Some (x1, w') \<Longrightarrow> R w w'"
    and "list_run_jobs fuel S g owner repo i w = Some (x2, w') \<Longrightarrow> R w w'"
proof -
  have t: "transp R" using assms by (simp add: http_frame_def)
  show "list_runners fuel S g owner repo prefix w = Some (x1, w') \<Longrightarrow> R w w'" unfolding list_runners_def
    by (rule pages_frame [OF t]) (auto intro: get_page_frame [OF assms] http_refl [OF assms])
  show "list_run_jobs fuel S g owner repo i w = Some (x2, w') \<Longrightarrow> R w w'" unfolding list_run_jobs_def
    by (rule pages_frame [OF t]) (auto intro: get_page_frame [OF assms] http_refl [OF assms])
qed

lemma expand_runs_frame:
  assumes "http_frame S R"
  shows "expand_runs fuel S g owner repo runs w = Some (x, w') \<Longrightarrow> R w w'"
proof (induction runs arbitrary: w x)
  case (Cons run runs)
  from Cons.prems obtain y w1 where l: "list_run_jobs fuel S g owner repo (run_id run) w = Some (y, w1)"
    by (auto split: option.splits)
  note r1 = listing_frame(2) [OF assms l]
  from Cons.prems l have "w' = w1 \<or> (\<exists>z. expand_runs fuel S g owner repo runs w1 = Some (z, w'))"
    by (auto simp: Let_def split: sum.splits option.splits)
  with r1 Cons.IH http_trans [OF assms r1] show ?case by blast
qed (simp add: http_refl [OF assms])

lemma list_runs_frame:
  assumes "http_frame S R"
  shows "list_runs_with_status fuel S g owner repo status out w = Some (x, w') \<Longrightarrow> R w w'"
proof -
  have t: "transp R" using assms by (simp add: http_frame_def)
  show "list_runs_with_status fuel S g owner repo status out w = Some (x, w') \<Longrightarrow> R w w'" unfolding list_runs_with_status_def
    by (rule pages_frame [OF t]) (auto intro: get_page_frame [OF assms] expand_runs_frame [OF assms])
qed

lemma list_statuses_frame:
  assumes "http_frame S R"
  shows "list_statuses fuel S g owner repo statuses out w = Some (x, w') \<Longrightarrow> R w w'"
proof (induction statuses arbitrary: out w)
  case (Cons status statuses)
  from Cons.prems obtain y w1 where l: "list_runs_with_status fuel S g owner repo status out w = Some (y, w1)"
    by (auto split: option.splits)
  note r1 = list_runs_frame [OF assms l]
  from Cons.prems l have "w' = w1 \<or> (\<exists>out1. list_statuses fuel S g owner repo statuses out1 w1 = Some (x, w'))"
    by (auto split: sum.splits)
  with r1 Cons.IH http_trans [OF assms r1] show ?case by blast
qed (simp add: http_refl [OF assms])

lemma list_queued_frame:
  "http_frame S R \<Longrightarrow> list_queued_jobs fuel S g owner repo w = Some (x, w') \<Longrightarrow> R w w'"
  using list_statuses_frame by (auto simp: list_queued_jobs_def simp del: list_statuses.simps split: option.splits sum.splits)

section \<open>Commands\<close>

lemma framedD:
  assumes "framed S R"
  shows framed_http: "http_frame S R" and framed_limactl: "limactl S argv t w = (x, w') \<Longrightarrow> R w w'"
    and framed_tick: "shell_or_tick S argv t p w = (y, w') \<Longrightarrow> R w w'"
    and framed_wait: "shell_wait S argv t w = (x, w') \<Longrightarrow> R w w'"
  using assms unfolding framed_def by (blast | metis snd_conv)+

lemma framed_mono:
  assumes "framed S R" and "\<And>w w'. R w w' \<Longrightarrow> Q w w'" and "reflp Q" and "transp Q"
  shows "framed S Q"
  using assms unfolding framed_def http_frame_def by simp

lemma run_frame: "framed S R \<Longrightarrow> run_with_timeout S argv t what w = (x, w') \<Longrightarrow> R w w'"
  using framed_limactl by (auto simp: run_with_timeout_def split: prod.splits cmd_result.splits)

lemma lima_calls_frame:
  assumes "framed S R"
  shows "lima_start S vm t w = (x, w') \<Longrightarrow> R w w'"
    and "copy_into S vm hp vp w = (x, w') \<Longrightarrow> R w w'"
    and "lima_shell S vm cmd n w = (y, w') \<Longrightarrow> R w w'"
    and "lima_stop S vm w = (x, w') \<Longrightarrow> R w w'"
    and "list_instances S w = (z, w') \<Longrightarrow> R w w'"
  using run_frame [OF assms] framed_limactl [OF assms]
  by (auto simp: lima_start_def copy_into_def lima_shell_def lima_stop_def list_instances_def
      list_instances_detailed_def Let_def split: prod.splits sum.splits if_splits cmd_result.splits)

lemma lima_delete_frame:
  assumes "framed S R" and "lima_delete S vm w = (x, w')"
  shows "R w w'"
proof -
  have ex: "R wa wb" if "instance_exists S vm wa = (y, wb)" for wa wb y
    using that lima_calls_frame(5) [OF assms(1)]
    by (auto simp: instance_exists_def split: prod.splits sum.splits)
  obtain y w1 where r: "run_with_timeout S [''delete'', ''--force'', vm] DELETE_TIMEOUT ''limactl delete'' w = (y, w1)"
    by fastforce
  have "w' = w1 \<or> (\<exists>z. instance_exists S vm w1 = (z, w'))"
    using assms(2) r by (auto simp: lima_delete_def split: sum.splits prod.splits if_splits)
  with ex run_frame [OF assms(1) r] http_trans [OF framed_http [OF assms(1)]] show ?thesis by blast
qed

lemma serial_frame:
  assumes "framed S R" and "serial_log_tail S vm n w = (x, w')"
  shows "R w w'"
  using assms(2) lima_calls_frame(5) [OF assms(1)]
  by (auto simp: serial_log_tail_def split: prod.splits sum.splits option.splits)

lemma race_frame:
  assumes "framed S R"
  shows "race_watchdog fuel S g owner repo rid argv rt dl poll st p w = Some (r, w') \<Longrightarrow> R w w'"
proof (induction fuel arbitrary: p w)
  case (Suc fuel)
  note tr = http_trans [OF framed_http [OF assms]]
  obtain t w1 where t: "shell_or_tick S argv rt poll w = (t, w1)" by fastforce
  obtain obs w2 where o: "observe_runner S g owner repo rid w1 = (obs, w2)" by fastforce
  obtain rr w3 where sw: "shell_wait S argv rt w2 = (rr, w3)" by fastforce
  have "w' = w1 \<or> w' = w2 \<or> w' = w3
      \<or> (\<exists>p'. race_watchdog fuel S g owner repo rid argv rt dl poll st p' w2 = Some (r, w'))"
    using Suc.prems t o sw
    by (auto simp del: watch_step.simps split: option.splits watch_state.splits)
  with Suc.IH framed_tick [OF assms t] observe_frame [OF framed_http [OF assms] o] framed_wait [OF assms sw] tr
  show ?case by blast
qed simp

lemma run_runner_frame:
  assumes "framed S R" and "run_runner fuel S g c vm owner repo rid w = Some (x, w')"
  shows "R w w'"
  using assms(2) race_frame [OF assms(1)] lima_calls_frame(3) [OF assms(1)]
  by (auto simp: run_runner_def Let_def split: if_splits prod.splits option.splits race_end.splits)

section \<open>A whole job\<close>

text \<open>With the writes of the job itself: the relation also holds across any change of the three files
  it writes or unlinks.\<close>

definition job_frame :: "'e services \<Rightarrow> config \<Rightarrow> string \<Rightarrow> ('e world \<Rightarrow> 'e world \<Rightarrow> bool) \<Rightarrow> bool" where
  "job_frame S c vm R \<longleftrightarrow>
     framed S R
     \<and> (\<forall>w b. R w (snd (on_disk (write_jit_blob (jit_path c vm) b) w)))
     \<and> (\<forall>w b. R w (snd (on_disk (write_serial_evidence
                      (join (join (state_dir c) ''logs'') (vm @ ''.serial.log'')) b) w)))
     \<and> (\<forall>w. R w (snd (on_disk (sys_unlink (jit_path c vm)) w)))"

lemma boot_frame:
  assumes "job_frame S c vm R" and "boot_vm S c vm jit w = (x, w')"
  shows "R w w'"
proof -
  from assms(1) have f: "framed S R" and b: "R w (snd (on_disk (write_jit_blob (jit_path c vm) b) w))" for w b
    by (auto simp: job_frame_def)
  note tr = http_trans [OF framed_http [OF f]]
  obtain y w1 where 1: "on_disk (write_jit_blob (jit_path c vm) (encoded_jit_config jit)) w = (y, w1)" by fastforce
  obtain z w2 where 2: "lima_start S vm (lima_template c) w1 = (z, w2)" by fastforce
  obtain u w3 where 3: "copy_into S vm (jit_path c vm) ''/tmp/jit'' w2 = (u, w3)" by fastforce
  have r1: "R w w1" using b [of w "encoded_jit_config jit"] 1 by simp
  have r2: "R w w2" using tr [OF r1 lima_calls_frame(1) [OF f 2]] .
  have r3: "R w w3" using tr [OF r2 lima_calls_frame(2) [OF f 3]] .
  have "w' = w1 \<or> w' = w2 \<or> w' = w3"
    using assms(2) 1 2 3 by (cases y; cases z) (auto simp: boot_vm_def bind_res_def)
  then show ?thesis using r1 r2 r3 by blast
qed

lemma run_in_vm_frame:
  assumes "job_frame S c vm R" and "run_in_vm fuel S g c event vm jit owner repo w = Some (x, w')"
  shows "R w w'"
proof -
  from assms(1) have f: "framed S R" by (simp add: job_frame_def)
  obtain y w1 where b: "boot_vm S c vm jit w = (y, w1)" by fastforce
  have "w' = w1 \<or> (\<exists>z. run_runner fuel S g c vm owner repo (jit_runner_id (jit_runner jit)) w1 = Some (z, w'))"
    using assms(2) b by (auto simp: run_in_vm_def split: sum.splits option.splits)
  then show ?thesis
    using boot_frame [OF assms(1) b] http_trans [OF framed_http [OF f] boot_frame [OF assms(1) b] run_runner_frame [OF f]]
    by blast
qed

lemma capture_frame:
  assumes "job_frame S c vm R"
  shows "R w (capture_oom_evidence S c vm w)"
proof -
  from assms have f: "framed S R" by (simp add: job_frame_def)
  obtain y w1 where s: "serial_log_tail S vm SERIAL_TAIL_BYTES w = (y, w1)" by fastforce
  have "R w1 (capture_oom_evidence S c vm w)"
    using s assms http_refl [OF framed_http [OF f]]
    by (auto simp: capture_oom_evidence_def job_frame_def split: sum.split option.split)
  then show ?thesis by (rule http_trans [OF framed_http [OF f] serial_frame [OF f s]])
qed

lemma teardown_frame:
  assumes "job_frame S c vm R"
  shows "R w (teardown S g c vm owner repo rid w)"
proof -
  from assms have f: "framed S R" and u: "\<And>w. R w (snd (on_disk (sys_unlink (jit_path c vm)) w))"
    by (auto simp: job_frame_def)
  note tr = http_trans [OF framed_http [OF f]]
  have "R w (snd (lima_stop S vm w))" for w using lima_calls_frame(4) [OF f surjective_pairing] .
  note s = this
  have d: "R w (snd (lima_delete S vm w))" for w using lima_delete_frame [OF f surjective_pairing] .
  have x: "R w (snd (delete_runner S g owner repo rid w))" for w
    using gh_calls_frame(3) [OF framed_http [OF f] surjective_pairing] .
  show ?thesis unfolding teardown_def Let_def by (rule tr [OF tr [OF tr [OF s d] u] x])
qed

text \<open>The stages of a job that minted a registration.\<close>

lemma run_job_stages:
  assumes "run_job fuel S g c event w = Some (r, w')"
    and "split_full_name (full_name (ev_repository event)) = Inr (owner, repo)"
    and "generate_jit_config S g owner repo (vm_name_for_event event) (job_labels (ev_job event)) w = (Inr jit, w1)"
  obtains w2 where
    "run_in_vm fuel S g c event (vm_name_for_event event) jit owner repo w1 = Some (r, w2)"
    "w' = teardown S g c (vm_name_for_event event) owner repo (jit_runner_id (jit_runner jit))
            (capture_oom_evidence S c (vm_name_for_event event) w2)"
  using assms by (auto simp: run_job_def Let_def split: option.splits)

lemma run_job_frame:
  assumes "job_frame S c (vm_name_for_event event) R" and "run_job fuel S g c event w = Some (r, w')"
  shows "R w w'"
proof (cases "split_full_name (full_name (ev_repository event))")
  case (Inl e)
  with assms(2) http_refl [of S R] assms(1) show ?thesis
    by (auto simp: run_job_def job_frame_def framed_def)
next
  case (Inr q)
  from assms(1) have f: "http_frame S R" by (simp add: job_frame_def framed_def)
  obtain owner repo where q: "q = (owner, repo)" by fastforce
  obtain y w1 where y: "generate_jit_config S g owner repo (vm_name_for_event event) (job_labels (ev_job event)) w = (y, w1)"
    by fastforce
  note R1 = gh_calls_frame(1) [OF f y]
  show ?thesis
  proof (cases y)
    case (Inl e)
    with assms(2) Inr q y R1 show ?thesis by (auto simp: run_job_def)
  next
    case jit: (Inr jit)
    from run_job_stages [OF assms(2) Inr [unfolded q] y [unfolded jit]] obtain w2 where
      w2: "run_in_vm fuel S g c event (vm_name_for_event event) jit owner repo w1 = Some (r, w2)"
      "w' = teardown S g c (vm_name_for_event event) owner repo (jit_runner_id (jit_runner jit))
              (capture_oom_evidence S c (vm_name_for_event event) w2)" by blast
    note tr = http_trans [OF f]
    show ?thesis unfolding w2(2)
      by (rule tr [OF tr [OF tr [OF R1 run_in_vm_frame [OF assms(1) w2(1)]] capture_frame [OF assms(1)]]
            teardown_frame [OF assms(1)]])
  qed
qed

end
