(* ===== verification/Reconcile_Complete.thy ===== *)
theory Reconcile_Complete
  imports Reconcile
begin

text \<open>
  The other half of the reconciler's contract (\<open>gc.rs: reconcile_inner\<close>, \<open>spool.rs:
  write_synthetic_claim\<close>): on a sound file system a pass over a repository's queue covers every job
  it may mint, as long as permits last and nobody pauses the daemon.
\<close>

section \<open>A synthetic claim that succeeds\<close>

abbreviation claim_path :: "spool \<Rightarrow> job_status \<Rightarrow> path" where
  "claim_path s job \<equiv> cur_path_of s (canonical_name (js_id job))"

abbreviation temp_path :: "spool \<Rightarrow> u32 \<Rightarrow> fsys \<Rightarrow> job_status \<Rightarrow> path" where
  "temp_path s pid fs job \<equiv> cur_path_of s (tmp_claim_name job pid (clock fs))"

lemma write_synthetic_works:
  assumes "healthy fs" and "\<not> has_nul (root s)" and "\<not> present fs (claim_path s job)" and "\<not> present fs (temp_path s pid fs job)"
    and "synthetic_bytes C job repo secret = Inr b"
  obtains fs' where "write_synthetic_claim C pid s job repo secret fs = (Inr (Some (claim_path s job)), fs')"
    "healthy fs'" "clock fs' = clock fs" "present fs' (claim_path s job)"
    "\<And>q. q \<noteq> claim_path s job \<Longrightarrow> present fs' q = present fs q"
proof -
  have nf: "no_faults fs" using assms(1) by (simp add: healthy_def)
  have neq: "temp_path s pid fs job \<noteq> claim_path s job" by simp
  have nex: "\<not> try_exists_or_false (claim_path s job) fs" using assms(3) try_exists_missing by (auto simp: present_def)
  obtain i where i: "write_private_file (temp_path s pid fs job) b fs = (Inr (), put (temp_path s pid fs job) i fs)"
    using nf assms(4)
    by (auto simp: write_private_file_def sys_create_new_def sys_write_all_def no_faults_def present_def put_def get_def)
  let ?f1 = "put (temp_path s pid fs job) i fs"
  have r: "rename_no_clobber (temp_path s pid fs job) (claim_path s job) ?f1 = (Inr (), put (claim_path s job) i (del (temp_path s pid fs job) ?f1))"
    by (rule rename_no_clobber_works)
       (use assms(2,3) neq nf no_nul_tmp no_nul_canonical in \<open>simp_all add: no_faults_def present_def\<close>)
  let ?fs' = "stamp_mtime_now (claim_path s job) (put (claim_path s job) i (del (temp_path s pid fs job) ?f1))"
  have e: "write_synthetic_claim C pid s job repo secret fs = (Inr (Some (claim_path s job)), ?fs')"
    using nex assms(5) i r by (simp add: write_synthetic_claim_def Let_def)
  show thesis
  proof (rule that [OF e])
    show "healthy ?fs'" using write_synthetic_healthy [OF assms(1), of C pid s job repo secret] by (simp add: e)
    show "present ?fs' q = present fs q" if "q \<noteq> claim_path s job" for q
      using that assms(4) by (simp add: present_def)
  qed (simp_all add: present_def)
qed

section \<open>One repository\<close>

definition preempt_quiet :: "'e services \<Rightarrow> bool" where
  "preempt_quiet S \<longleftrightarrow>
     (\<forall>w. permits (preempt S w) = permits w \<and> spawned (preempt S w) = spawned w
        \<and> disk (preempt S w) = disk w \<and> paused (preempt S w) = paused w)"

text \<open>The pass can write the claim of this job.\<close>

definition writable_claim :: "crates \<Rightarrow> u32 \<Rightarrow> spool \<Rightarrow> bytes \<Rightarrow> string \<Rightarrow> fsys \<Rightarrow> job_status \<Rightarrow> bool" where
  "writable_claim C pid s secret repo fs j \<longleftrightarrow>
     (\<exists>b. synthetic_bytes C j repo secret = Inr b)
     \<and> \<not> present fs (temp_path s pid fs j)"

definition claimed :: "spool \<Rightarrow> fsys \<Rightarrow> job_status \<Rightarrow> bool" where
  "claimed s fs j \<longleftrightarrow> present fs (claim_path s j)"

lemma mint_covers:
  assumes "healthy (disk w)" and "\<not> has_nul (root s)" and "writable_claim (the_crates S) pid s secret repo (disk w) job"
  obtains w' where "mint_for_job S pid s secret repo job w = w'" "healthy (disk w')" "clock (disk w') = clock (disk w)"
    "paused w' = paused w" "claimed s (disk w') job"
    "\<And>q. q \<noteq> claim_path s job \<Longrightarrow> present (disk w') q = present (disk w) q"
    "spawned w' = spawned w @ (if claimed s (disk w) job then []
        else [(build_event repo job, claim_path s job)])"
    "permits w' = (if claimed s (disk w) job then Suc (permits w) else permits w)"
proof (cases "claimed s (disk w) job")
  case True
  with try_exists_healthy [OF assms(1)] have
    "write_synthetic_claim (the_crates S) pid s job repo secret (disk w) = (Inr None, disk w)"
    by (simp add: write_synthetic_claim_def claimed_def)
  then have "mint_for_job S pid s secret repo job w = w\<lparr>permits := Suc (permits w)\<rparr>"
    by (simp add: mint_for_job_def on_disk_def)
  with assms(1) True show ?thesis by (intro that [of "w\<lparr>permits := Suc (permits w)\<rparr>"]) simp_all
next
  case False
  from assms(3) obtain b where b: "synthetic_bytes (the_crates S) job repo secret = Inr b"
    "\<not> present (disk w) (temp_path s pid (disk w) job)"
    by (auto simp: writable_claim_def)
  from write_synthetic_works [where pid = pid, OF assms(1,2) False [unfolded claimed_def] b(2,1)] obtain fs' where
    f: "write_synthetic_claim (the_crates S) pid s job repo secret (disk w)
         = (Inr (Some (claim_path s job)), fs')"
    "healthy fs'" "clock fs' = clock (disk w)" "present fs' (claim_path s job)"
    "\<And>q. q \<noteq> claim_path s job \<Longrightarrow> present fs' q = present (disk w) q" by blast
  then have "mint_for_job S pid s secret repo job w
      = w\<lparr>disk := fs', spawned := spawned w @ [(build_event repo job, claim_path s job)]\<rparr>"
    by (simp add: mint_for_job_def on_disk_def)
  with f False show ?thesis
    by (intro that [of "w\<lparr>disk := fs', spawned := spawned w @ [(build_event repo job, claim_path s job)]\<rparr>"]) (simp_all add: claimed_def)
qed

lemma reconcile_jobs_covers:
  assumes "preempt_quiet S" and "\<not> has_nul (root s)"
  shows "healthy (disk w) \<Longrightarrow> \<not> paused w \<Longrightarrow> distinct (map js_id jobs) \<Longrightarrow>
    (\<And>j. j \<in> set jobs \<Longrightarrow> mintable c advertised live idle j \<Longrightarrow> writable_claim (the_crates S) pid s secret repo (disk w) j) \<Longrightarrow>
    length (filter (mintable c advertised live idle) jobs) \<le> permits w \<Longrightarrow>
    \<exists>w'. reconcile_jobs S c pid s secret advertised repo live idle jobs w = (False, w')
      \<and> spawned w' = spawned w @ map (\<lambda>j. (build_event repo j, claim_path s j))
           (filter (\<lambda>j. mintable c advertised live idle j \<and> \<not> claimed s (disk w) j) jobs)
      \<and> (\<forall>q. present (disk w) q \<longrightarrow> present (disk w') q)
      \<and> (\<forall>j \<in> set jobs. mintable c advertised live idle j \<longrightarrow> claimed s (disk w') j)"
proof (induction jobs arbitrary: w)
  case (Cons job jobs)
  show ?case
  proof (cases "mintable c advertised live idle job")
    case False
    then have "reconcile_jobs S c pid s secret advertised repo live idle (job # jobs) w
        = reconcile_jobs S c pid s secret advertised repo live idle jobs w"
      using Cons.prems(2) by (auto simp: mintable_def should_mint_def label_verdict_cases)
    with False Cons.IH [OF Cons.prems(1,2)] Cons.prems(3-5) show ?thesis by auto
  next
    case True
    then have p: "permits w \<noteq> 0" using Cons.prems(5) by auto
    let ?w1 = "preempt S (w\<lparr>permits := permits w - 1\<rparr>)"
    have w1: "permits ?w1 = permits w - 1" "spawned ?w1 = spawned w" "disk ?w1 = disk w" "paused ?w1 = paused w"
      using assms(1) by (simp_all add: preempt_quiet_def)
    have wr: "writable_claim (the_crates S) pid s secret repo (disk ?w1) job"
      using Cons.prems(4) [of job] True w1(3) by simp
    obtain w2 where w2: "mint_for_job S pid s secret repo job ?w1 = w2" "healthy (disk w2)"
      "clock (disk w2) = clock (disk w)" "paused w2 = paused w" "claimed s (disk w2) job"
      "\<And>q. q \<noteq> claim_path s job \<Longrightarrow> present (disk w2) q = present (disk w) q"
      "spawned w2 = spawned w @ (if claimed s (disk w) job then [] else [(build_event repo job, claim_path s job)])"
      "permits w2 = (if claimed s (disk w) job then Suc (permits w - 1) else permits w - 1)"
      using mint_covers [OF _ assms(2) wr] Cons.prems(1) unfolding w1 by metis
    have step: "reconcile_jobs S c pid s secret advertised repo live idle (job # jobs) w
        = reconcile_jobs S c pid s secret advertised repo live idle jobs w2"
      using True p Cons.prems(2) w1(4) w2(1) by (simp add: mintable_def should_mint_def label_verdict_cases Let_def)
    have same: "claimed s (disk w2) j = claimed s (disk w) j" if "j \<in> set jobs" for j
      using w2(6) [of "claim_path s j"] Cons.prems(3) that by (auto simp: claimed_def image_iff)
    have "\<exists>w'. reconcile_jobs S c pid s secret advertised repo live idle jobs w2 = (False, w')
      \<and> spawned w' = spawned w2 @ map (\<lambda>j. (build_event repo j, claim_path s j))
           (filter (\<lambda>j. mintable c advertised live idle j \<and> \<not> claimed s (disk w2) j) jobs)
      \<and> (\<forall>q. present (disk w2) q \<longrightarrow> present (disk w') q)
      \<and> (\<forall>j \<in> set jobs. mintable c advertised live idle j \<longrightarrow> claimed s (disk w') j)"
    proof (rule Cons.IH [OF w2(2)])
      fix j assume "j \<in> set jobs" "mintable c advertised live idle j"
      then show "writable_claim (the_crates S) pid s secret repo (disk w2) j"
        using Cons.prems(4) [of j] w2(3,6) by (simp add: writable_claim_def)
    qed (use Cons.prems(2,3,5) True w2(4,8) p in \<open>auto\<close>)
    then obtain w' where w': "reconcile_jobs S c pid s secret advertised repo live idle jobs w2 = (False, w')"
      "spawned w' = spawned w2 @ map (\<lambda>j. (build_event repo j, claim_path s j))
           (filter (\<lambda>j. mintable c advertised live idle j \<and> \<not> claimed s (disk w2) j) jobs)"
      "\<And>q. present (disk w2) q \<Longrightarrow> present (disk w') q"
      "\<And>j. j \<in> set jobs \<Longrightarrow> mintable c advertised live idle j \<Longrightarrow> claimed s (disk w') j" by blast
    have "filter (\<lambda>j. mintable c advertised live idle j \<and> \<not> claimed s (disk w2) j) jobs
        = filter (\<lambda>j. mintable c advertised live idle j \<and> \<not> claimed s (disk w) j) jobs"
      by (rule filter_cong) (use same in auto)
    then have "spawned w' = spawned w @ map (\<lambda>j. (build_event repo j, claim_path s j))
           (filter (\<lambda>j. mintable c advertised live idle j \<and> \<not> claimed s (disk w) j) (job # jobs))"
      using w'(2) w2(7) True by simp
    moreover have "present (disk w') q" if "present (disk w) q" for q
      using that w2(5,6) w'(3) unfolding claimed_def by metis
    moreover have "claimed s (disk w') job" using w2(5) w'(3) by (simp add: claimed_def)
    ultimately show ?thesis using step w'(1,4) by auto
  qed
qed simp

section \<open>Property\<close>

text \<open>C17: The reconciler misses no queued job: when the queue of a repository was listed, the file system is
  sound, the claims can be written, there are permits enough and nobody pauses the daemon, the pass over it
  runs to its end and spawns exactly the listed jobs that the label policy accepts, that no live claim and
  no idle runner covers and that nobody else has claimed, in the order of the list; afterwards each
  mintable job has its claim, and no entry of the disk is gone.\<close>

theorem reconcile_covers_the_queue:
  assumes "preempt_quiet S" and "\<not> has_nul (root s)" and "healthy (disk w)" and "\<not> paused w"
    and "list_queued_jobs fuel S g owner name w0 = Some (Inr jobs, w)"
    and "\<And>j. j \<in> set jobs \<Longrightarrow> mintable c advertised live idle j \<Longrightarrow>
      (\<exists>b. synthetic_bytes (the_crates S) j repo secret = Inr b)
      \<and> \<not> present (disk w) (cur_path_of s (tmp_claim_name j pid (clock (disk w))))"
    and "length (filter (mintable c advertised live idle) jobs) \<le> permits w"
  shows "\<exists>w'. reconcile_jobs S c pid s secret advertised repo live idle jobs w = (False, w')
       \<and> spawned w' = spawned w @ map (\<lambda>j. (build_event repo j, cur_path_of s (canonical_name (js_id j))))
            (filter (\<lambda>j. mintable c advertised live idle j
               \<and> \<not> present (disk w) (cur_path_of s (canonical_name (js_id j)))) jobs)
       \<and> (\<forall>q. present (disk w) q \<longrightarrow> present (disk w') q)
       \<and> (\<forall>j \<in> set jobs. mintable c advertised live idle j \<longrightarrow>
            present (disk w') (cur_path_of s (canonical_name (js_id j))))"
proof -
  have "distinct (map js_id jobs)" using sorted_queued [OF assms(5)] by blast
  from reconcile_jobs_covers [OF assms(1-4) this, where c = c and advertised = advertised and live = live
      and idle = idle and pid = pid and secret = secret and repo = repo] assms(6,7)
  show ?thesis by (simp add: writable_claim_def claimed_def)
qed

text \<open>Two queued jobs, four permits, an empty spool: both are spawned.\<close>

theorem reconcile_covers_the_queue_witness:
  "\<exists>w'. reconcile_jobs listing_services toy_config 1 demo_spool ''key'' {''lima-nix''} ''o/r'' {} {}
       [(toy_job_of 3 ''queued'')\<lparr>js_repo_id := 11\<rparr>, (toy_job_of 7 ''queued'')\<lparr>js_repo_id := 11\<rparr>] good_world = (False, w')
     \<and> map snd (spawned w') = [cur_path_of demo_spool (canonical_name 3), cur_path_of demo_spool (canonical_name 7)]"
proof -
  let ?jobs = "[(toy_job_of 3 ''queued'')\<lparr>js_repo_id := 11\<rparr>, (toy_job_of 7 ''queued'')\<lparr>js_repo_id := 11\<rparr>]"
  have q: "preempt_quiet listing_services"
    by (simp add: preempt_quiet_def listing_services_def http_services_def toy_services_def)
  have n: "\<not> has_nul (root demo_spool)" by code_simp
  have h: "healthy (disk good_world)" "\<not> paused good_world" "spawned good_world = []" "permits good_world = 4"
    "\<And>p. \<not> present (disk good_world) p"
    by (simp_all add: good_world_def stale_world_def toy_world_def healthy_def no_faults_def regular_only_def
        get_def present_def)
  have b: "\<exists>b. synthetic_bytes (the_crates listing_services) j ''o/r'' ''key'' = Inr b" for j
    by (simp add: synthetic_bytes_def listing_services_def http_services_def toy_services_def)
  have m: "mintable toy_config {''lima-nix''} {} {} j" if "js_labels j = [''lima-nix'']" for j
    using that by (simp add: mintable_def labels_acceptable_def toy_config_def)
  have l: "length (filter (mintable toy_config {''lima-nix''} {} {}) ?jobs) \<le> permits good_world" by (simp add: h(4))
  from reconcile_covers_the_queue [where pid = 1, OF q n h(1,2) list_queued_good _ l, of "''o/r''" "''key''"] b h(5)
  obtain w' where "reconcile_jobs listing_services toy_config 1 demo_spool ''key'' {''lima-nix''} ''o/r'' {} {} ?jobs good_world = (False, w')"
    "spawned w' = map (\<lambda>j. (build_event ''o/r'' j, cur_path_of demo_spool (canonical_name (js_id j))))
       (filter (\<lambda>j. mintable toy_config {''lima-nix''} {} {} j) ?jobs)"
    by (auto simp: h(3))
  then show ?thesis by (simp add: m toy_job_of_def)
qed

end
