(* ===== verification/Supervisor_Mint.thy ===== *)
theory Supervisor_Mint
  imports Supervisor_Claims Service_Frame Reconcile_Complete
begin

text \<open>
  A pass of the reconciler (\<open>gc.rs: reconcile\<close>, over the world) is a run of the daemon's machine, whose
  \<open>reconcile_*\<close> rules say the same one wait at a time: what the machine's invariants say holds of the pass.
\<close>

section \<open>The two states\<close>

text \<open>\<open>base\<close> are the jobs that ran before the pass; the machine has the latest job first.\<close>

definition mirrors :: "(workflow_job \<times> path) list \<Rightarrow> sup \<Rightarrow> 'e world \<Rightarrow> bool" where
  "mirrors base s w \<longleftrightarrow>
     open_for_steps s \<and> sup_fs s = disk w \<and> pause_flag s = paused w \<and> free s = permits w \<and> waiters s = []
     \<and> reconcile_at s = RcIdle \<and> running s = rev (spawned w) @ base"

text \<open>A step of the reconciler, or someone using the control endpoint.\<close>

definition mint_step :: "sup_params \<Rightarrow> sup \<Rightarrow> sup \<Rightarrow> bool" where
  "mint_step P s s' \<longleftrightarrow> own_step P s s' \<or> open_for_steps s \<and> (\<exists>b. s' = s\<lparr>pause_flag := b\<rparr>)"

lemma own_is_mint: "own_step P s s' \<Longrightarrow> mint_step P s s'"
  by (simp add: mint_step_def)

lemma mint_steps_undisturbed: "(mint_step P)\<^sup>*\<^sup>* s s' \<Longrightarrow> undisturbed P s \<Longrightarrow> undisturbed P s'"
proof (induction rule: rtranclp_induct)
  case (step t u)
  then have u: "undisturbed P t" by blast
  then have "healthy (sup_fs t)" using claims.gets_to_inv [OF u] by (simp add: claims_inv_def)
  with step(2) have "undisturbed_step P t u"
    by (auto simp: mint_step_def undisturbed_step_def claims_kept_def intro: env_step.control)
  with u show ?case by (rule gets_to_step)
qed

section \<open>One job\<close>

lemma release_unwaited: "waiters s = [] \<Longrightarrow> release s = s\<lparr>free := Suc (free s)\<rparr>"
  by (simp add: release_def)

text \<open>Up to the permit and the second look at the pause flag.\<close>

lemma mint_takes_permit:
  assumes "mirrors base s w" and "\<not> paused w" and "permits w \<noteq> 0"
    and "classify_job_labels (js_labels job) (runner_label (pr_config P)) (runner_labels_set (pr_config P)) = Accept"
    and "should_mint (vm_name (js_id job)) live idle"
  shows "(mint_step P)\<^sup>*\<^sup>* s (s\<lparr>free := permits w - 1, reconcile_at := RcHolding job repo, pause_flag := b\<rparr>)"
proof -
  let ?s1 = "s\<lparr>reconcile_at := RcCandidate job repo\<rparr>"
  let ?s2 = "?s1\<lparr>free := free ?s1 - 1, reconcile_at := RcHolding job repo\<rparr>"
  let ?s3 = "?s2\<lparr>pause_flag := b\<rparr>"
  have m: "open_for_steps s" "reconcile_at s = RcIdle" "\<not> pause_flag s" "0 < free s" "free s = permits w"
    using assms(1-3) by (simp_all add: mirrors_def)
  have "own_step P s ?s1" by (rule own_step.reconcile_pick [OF m(1-3) assms(4,5)])
  moreover have "own_step P ?s1 ?s2" by (rule own_step.reconcile_acquire) (use m in \<open>simp_all add: open_for_steps_def\<close>)
  moreover have "mint_step P ?s2 ?s3" unfolding mint_step_def
    using m(1) by (intro disjI2 conjI exI [of _ b]) (simp_all add: open_for_steps_def)
  ultimately have "(mint_step P)\<^sup>*\<^sup>* s ?s3"
    by (meson own_is_mint r_into_rtranclp rtranclp.rtrancl_into_rtrancl)
  with m(5) show ?thesis by simp
qed

lemma mint_gives_back:
  assumes "mirrors base s w" and "permits w \<noteq> 0" and "w' = w1\<lparr>permits := permits w\<rparr>"
    and "disk w1 = disk w" and "spawned w1 = spawned w" and "paused w1"
  shows "\<exists>s'. own_step P (s\<lparr>free := permits w - 1, reconcile_at := RcHolding job repo, pause_flag := True\<rparr>) s' \<and> mirrors base s' w'
     \<and> dispatch_at s' = dispatch_at s \<and> shutdown_at s' = shutdown_at s"
proof -
  let ?h = "s\<lparr>free := permits w - 1, reconcile_at := RcHolding job repo, pause_flag := True\<rparr>"
  have "own_step P ?h (release (?h\<lparr>reconcile_at := RcIdle\<rparr>))"
    by (rule own_step.reconcile_paused) (use assms(1) in \<open>simp_all add: mirrors_def open_for_steps_def\<close>)
  with assms show ?thesis
    by (intro exI [of _ "release (?h\<lparr>reconcile_at := RcIdle\<rparr>)"]) (simp add: release_unwaited mirrors_def open_for_steps_def)
qed

lemma mint_writes:
  assumes "mirrors base s w" and "permits w \<noteq> 0"
    and "disk w1 = disk w" and "spawned w1 = spawned w" and "permits w1 = permits w - 1" and "\<not> paused w1"
    and "the_crates S = pr_crates P"
  shows "\<exists>s'. (mint_step P)\<^sup>*\<^sup>* (s\<lparr>free := permits w - 1, reconcile_at := RcHolding job repo, pause_flag := False\<rparr>) s'
     \<and> mirrors base s' (mint_for_job S (pr_pid P) (pr_spool P) (pr_secret P) repo job w1)
     \<and> dispatch_at s' = dispatch_at s \<and> shutdown_at s' = shutdown_at s"
proof -
  let ?h = "s\<lparr>free := permits w - 1, reconcile_at := RcHolding job repo, pause_flag := False\<rparr>"
  let ?t = "?h\<lparr>reconcile_at := RcMinting job repo\<rparr>"
  obtain r fs where r: "write_synthetic_claim (pr_crates P) (pr_pid P) (pr_spool P) job repo (pr_secret P) (disk w) = (r, fs)"
    by fastforce
  have m: "open_for_steps s" "sup_fs s = disk w" "waiters s = []" "running s = rev (spawned w) @ base" "open_for_steps ?t"
    using assms(1) by (simp_all add: mirrors_def open_for_steps_def)
  have h: "own_step P ?h ?t" by (rule own_step.reconcile_checked) (use m in \<open>simp_all add: open_for_steps_def\<close>)
  have "\<exists>s'. own_step P ?t s' \<and> mirrors base s' (mint_for_job S (pr_pid P) (pr_spool P) (pr_secret P) repo job w1)
     \<and> dispatch_at s' = dispatch_at s \<and> shutdown_at s' = shutdown_at s"
  proof (cases "\<exists>p. r = Inr (Some p)")
    case True
    then obtain p where p: "r = Inr (Some p)" by blast
    have "own_step P ?t (start_job (build_event repo job) p (?t\<lparr>sup_fs := fs, reconcile_at := RcIdle\<rparr>))"
      by (rule own_step.reconcile_minted [OF m(5)]) (use m r p in simp_all)
    with m r p assms(2-) show ?thesis
      by (intro exI [of _ "start_job (build_event repo job) p (?t\<lparr>sup_fs := fs, reconcile_at := RcIdle\<rparr>)"])
         (simp add: mirrors_def start_job_def open_for_steps_def mint_for_job_def on_disk_def)
  next
    case False
    have "own_step P ?t (release (?t\<lparr>sup_fs := fs, reconcile_at := RcIdle\<rparr>))"
      by (rule own_step.reconcile_not_minted [OF m(5) _ _ False]) (use m r in simp_all)
    with m r False assms(2-) show ?thesis
      by (intro exI [of _ "release (?t\<lparr>sup_fs := fs, reconcile_at := RcIdle\<rparr>)"])
         (auto simp: mirrors_def release_unwaited open_for_steps_def mint_for_job_def on_disk_def split: sum.split option.split)
  qed
  with h show ?thesis by (meson own_is_mint r_into_rtranclp converse_rtranclp_into_rtranclp)
qed

section \<open>The loop\<close>

definition mint_run :: "sup_params \<Rightarrow> (workflow_job \<times> path) list \<Rightarrow> sup \<Rightarrow> 'e world \<Rightarrow> sup \<Rightarrow> bool" where
  "mint_run P base s w s' \<longleftrightarrow> (mint_step P)\<^sup>*\<^sup>* s s' \<and> mirrors base s' w
     \<and> dispatch_at s' = dispatch_at s \<and> shutdown_at s' = shutdown_at s"

lemma mint_run_trans: "mint_run P base s v t \<Longrightarrow> mint_run P base t w u \<Longrightarrow> mint_run P base s w u"
  unfolding mint_run_def by (metis rtranclp_trans)

lemma reconcile_jobs_run:
  assumes pre: "preempt_only_pauses S" and crates: "the_crates S = pr_crates P"
  shows "mirrors base s w \<Longrightarrow>
    reconcile_jobs S (pr_config P) (pr_pid P) (pr_spool P) (pr_secret P) (runner_labels_set (pr_config P)) repo live idle queue w
      = (stop, w') \<Longrightarrow> (\<exists>s'. mint_run P base s w' s') \<and> (stop \<longrightarrow> paused w' \<or> permits w' = 0)"
proof (induction queue arbitrary: s w)
  case Nil
  then show ?case by (auto simp: mint_run_def)
next
  case (Cons job queue)
  let ?w1 = "preempt S (w\<lparr>permits := permits w - 1\<rparr>)"
  let ?accept = "classify_job_labels (js_labels job) (runner_label (pr_config P)) (runner_labels_set (pr_config P)) = Accept"
  let ?h = "\<lambda>b. s\<lparr>free := permits w - 1, reconcile_at := RcHolding job repo, pause_flag := b\<rparr>"
  from pre have w1: "disk ?w1 = disk w" "spawned ?w1 = spawned w" "permits ?w1 = permits w - 1"
    by (simp_all add: preempt_only_pauses_def)
  have stay: "mint_run P base s w s" using Cons.prems(1) by (simp add: mint_run_def)
  consider (stops) "paused w \<or> permits w = 0 \<and> ?accept \<and> should_mint (vm_name (js_id job)) live idle"
    | (skips) "\<not> paused w" "\<not> (?accept \<and> should_mint (vm_name (js_id job)) live idle)"
    | (takes) "\<not> paused w" "permits w \<noteq> 0" "?accept" "should_mint (vm_name (js_id job)) live idle" by blast
  then show ?case
  proof cases
    case stops
    with Cons.prems(2) have "stop" "w' = w" by (auto split: if_splits)
    with stops stay show ?thesis by auto
  next
    case skips
    with Cons.prems(2) have "reconcile_jobs S (pr_config P) (pr_pid P) (pr_spool P) (pr_secret P)
        (runner_labels_set (pr_config P)) repo live idle queue w = (stop, w')" by (auto split: if_splits)
    from Cons.IH [OF Cons.prems(1) this] show ?thesis .
  next
    case takes
    note held = mint_takes_permit [OF Cons.prems(1) takes]
    show ?thesis
    proof (cases "paused ?w1")
      case True
      with takes Cons.prems(2) w1(3) have e: "stop" "w' = ?w1\<lparr>permits := permits w\<rparr>" by (auto simp: Let_def)
      from mint_gives_back [OF Cons.prems(1) takes(2) e(2) w1(1,2) True, of P job repo] held [where repo = repo and b = True] e True
      show ?thesis unfolding mint_run_def by (auto intro: own_is_mint rtranclp.rtrancl_into_rtrancl)
    next
      case False
      let ?v = "mint_for_job S (pr_pid P) (pr_spool P) (pr_secret P) repo job ?w1"
      from mint_writes [OF Cons.prems(1) takes(2) w1(1-3) False crates, of job repo] held [where repo = repo and b = False]
      obtain t where t: "mint_run P base s ?v t" unfolding mint_run_def by (blast intro: rtranclp_trans)
      from takes False Cons.prems(2) have "reconcile_jobs S (pr_config P) (pr_pid P) (pr_spool P) (pr_secret P)
          (runner_labels_set (pr_config P)) repo live idle queue ?v = (stop, w')" by (auto simp: Let_def)
      from Cons.IH [OF _ this] t mint_run_trans [OF t] show ?thesis unfolding mint_run_def by metis
    qed
  qed
qed

section \<open>The pass\<close>

text \<open>While a request is under way other tasks do no more than pause and resume.\<close>

definition only_pauses :: "'e world \<Rightarrow> 'e world \<Rightarrow> bool" where
  "only_pauses w w' \<longleftrightarrow> disk w' = disk w \<and> permits w' = permits w \<and> spawned w' = spawned w"

lemma request_run:
  assumes "mirrors base s w" and "only_pauses w w'"
  shows "mint_run P base s w' (s\<lparr>pause_flag := paused w'\<rparr>)"
proof -
  have "mint_step P s (s\<lparr>pause_flag := paused w'\<rparr>)" using assms(1) by (auto simp: mint_step_def mirrors_def)
  with assms show ?thesis by (simp add: mint_run_def mirrors_def only_pauses_def open_for_steps_def r_into_rtranclp)
qed

lemma mint_run_mirrors: "mint_run P base s w t \<Longrightarrow> mirrors base t w"
  by (simp add: mint_run_def)

lemma reconcile_repos_run:
  assumes pre: "preempt_only_pauses S" and crates: "the_crates S = pr_crates P" and frame: "http_frame S only_pauses"
  shows "mirrors base s w \<Longrightarrow>
    reconcile_repos fuel S g (pr_config P) (pr_pid P) (pr_spool P) (pr_secret P) (runner_labels_set (pr_config P)) live repos w
      = Some w' \<Longrightarrow> \<exists>s'. mint_run P base s w' s'"
proof (induction repos arbitrary: s w)
  case Nil
  then show ?case by (auto simp: mint_run_def)
next
  case (Cons repo_full repos)
  have stay: "mint_run P base s w s" using Cons.prems(1) by (simp add: mint_run_def)
  let ?rest = "\<lambda>v. reconcile_repos fuel S g (pr_config P) (pr_pid P) (pr_spool P) (pr_secret P) (runner_labels_set (pr_config P)) live repos v
      = Some w'"
  have go: "\<exists>s'. mint_run P base s w' s'" if "mint_run P base s v t" "?rest v" for v t
    using Cons.IH [OF mint_run_mirrors [OF that(1)] that(2)] mint_run_trans [OF that(1)] by blast
  show ?case
  proof (cases "paused w \<or> split_once (CHR ''/'') repo_full = None")
    case True
    with Cons.prems(2) stay go [OF stay] show ?thesis by (auto split: if_splits)
  next
    case False
    then obtain owner repo where r: "\<not> paused w" "split_once (CHR ''/'') repo_full = Some (owner, repo)" by auto
    with Cons.prems(2) obtain x w1 where l: "list_runners fuel S g owner repo VM_NAME_PREFIX w = Some (x, w1)"
      by (auto split: option.splits)
    note m1 = request_run [OF Cons.prems(1) listing_frame(1) [OF frame l], of P]
    show ?thesis
    proof (cases x)
      case (Inl e)
      with Cons.prems(2) r l go [OF m1] show ?thesis by simp
    next
      case (Inr rs)
      with Cons.prems(2) r l obtain y w2 where q: "list_queued_jobs fuel S g owner repo w1 = Some (y, w2)"
        by (auto split: option.splits)
      note m2 = mint_run_trans [OF m1 request_run [OF mint_run_mirrors [OF m1] list_queued_frame [OF frame q]]]
      show ?thesis
      proof (cases y)
        case (Inl e)
        with Cons.prems(2) r l q Inr go [OF m2] show ?thesis by simp
      next
        case (Inr queued)
        obtain stop w3 where j: "reconcile_jobs S (pr_config P) (pr_pid P) (pr_spool P) (pr_secret P)
            (runner_labels_set (pr_config P)) repo_full live (idle_names rs) queued w2 = (stop, w3)" by fastforce
        from reconcile_jobs_run [OF pre crates mint_run_mirrors [OF m2] j] mint_run_trans [OF m2]
        obtain t where m3: "mint_run P base s w3 t" by blast
        from Cons.prems(2) r l q j \<open>x = Inr rs\<close> Inr have "w' = w3 \<or> ?rest w3" by (auto split: bool.splits)
        with m3 go [OF m3] show ?thesis by blast
      qed
    qed
  qed
qed

lemma reconcile_run:
  assumes "preempt_only_pauses S" and "the_crates S = pr_crates P" and "http_frame S only_pauses" and "mirrors base s w"
    and "reconcile fuel S g (pr_config P) (pr_pid P) (pr_spool P) (pr_secret P) (runner_labels_set (pr_config P)) w = Some w'"
  shows "\<exists>s'. mint_run P base s w' s'"
proof (cases "live_vm_names_from_cur (join (spool_dir (pr_config P)) ''cur'') (disk w)")
  case (Inl e)
  with assms(4,5) have "mint_run P base s w' s" by (simp add: reconcile_def reconcile_inner_def mint_run_def)
  then show ?thesis by blast
next
  case (Inr live)
  with assms(5) show ?thesis
    by (auto simp: reconcile_def reconcile_inner_def intro: reconcile_repos_run [OF assms(1-4)])
qed

section \<open>Property\<close>

text \<open>C16: The reconciler refines the daemon's machine: as other threads do no more than flip the pause flag while
  it waits, a whole pass over all repositories is a run of the machine's reconciler steps that ends with the
  same disk, flag, free permits and running jobs and leaves the dispatch loop and the shutdown where they
  were; and so every job it spawns holds its claim and shares it with no other job, spawned or running.\<close>

theorem reconcile_pass_is_a_run:
  assumes "preempt_only_pauses S" and "the_crates S = pr_crates P" and "http_frame S only_pauses" and "mirrors base s w"
    and "reconcile fuel S g (pr_config P) (pr_pid P) (pr_spool P) (pr_secret P) (runner_labels_set (pr_config P)) w = Some w'"
  shows "(\<exists>s'. (mint_step P)\<^sup>*\<^sup>* s s' \<and> mirrors base s' w' \<and> dispatch_at s' = dispatch_at s \<and> shutdown_at s' = shutdown_at s)
       \<and> (undisturbed P s \<longrightarrow> distinct (map snd (spawned w' @ base))
            \<and> (\<forall>x \<in> set (spawned w' @ base). present (disk w') (snd x)))"
proof -
  from reconcile_run [OF assms] obtain s' where s': "mint_run P base s w' s'" by blast
  have "distinct (map snd (running s')) \<and> (\<forall>x \<in> set (running s'). present (sup_fs s') (snd x))" if "undisturbed P s"
  proof -
    have inv: "claims_inv P s'" using s'(1) mint_steps_undisturbed [OF _ that] claims.gets_to_inv unfolding mint_run_def by blast
    have "map snd (running s') = map (\<lambda>x. job_claim P (fst x)) (running s')"
      using inv by (simp add: claims_inv_def held_def)
    moreover have "distinct (map (\<lambda>x. job_claim P (fst x)) (running s'))"
      using inv by (simp add: claims_inv_def distinct_map inj_on_def job_claim_inj)
    ultimately show ?thesis using inv unfolding claims_inv_def held_def by metis
  qed
  moreover have "running s' = rev (spawned w') @ base" "sup_fs s' = disk w'" using s'(1) by (simp_all add: mint_run_def mirrors_def)
  ultimately have "undisturbed P s \<longrightarrow> distinct (map snd (spawned w' @ base))
            \<and> (\<forall>x \<in> set (spawned w' @ base). present (disk w') (snd x))" by (simp add: rev_map [symmetric])
  with s' show ?thesis unfolding mint_run_def by blast
qed

definition toy_mint_services :: "string list services" where
  "toy_mint_services = toy_services\<lparr>the_crates := toy_crates\<rparr>"

definition toy_mint_world :: "string list world" where
  "toy_mint_world = (toy_world [])\<lparr>disk := toy_delivery\<rparr>"

text \<open>Two queued jobs of one repository, on an idle daemon.\<close>

definition mint_params :: sup_params where
  "mint_params = toy_params\<lparr>pr_crates := the_crates listing_services\<rparr>"

definition mint_sup :: sup where
  "mint_sup = toy_sup\<lparr>sup_fs := disk good_world\<rparr>"

lemma mint_runs:
  "\<exists>w'. reconcile 1 listing_services toy_gh toy_config 1 demo_spool ''key'' (runner_labels_set toy_config) good_world = Some w'
     \<and> map snd (spawned w') = [cur_path_of demo_spool (canonical_name 3), cur_path_of demo_spool (canonical_name 7)]"
proof -
  let ?adv = "runner_labels_set toy_config"
  let ?jobs = "[(toy_job_of 3 ''queued'')\<lparr>js_repo_id := 11\<rparr>, (toy_job_of 7 ''queued'')\<lparr>js_repo_id := 11\<rparr>]"
  let ?idle = "\<lparr>runner_id = 1, runner_name = ''gha-1'', runner_state = ''online'', runner_busy = False\<rparr>"
  have w: "healthy (disk good_world)" "\<not> paused good_world" "spawned good_world = []" "permits good_world = 4"
    "\<And>p. \<not> present (disk good_world) p"
    by (simp_all add: good_world_def stale_world_def toy_world_def healthy_def no_faults_def regular_only_def get_def present_def)
  have v: "live_vm_names_from_cur (join (spool_dir toy_config) ''cur'') (disk good_world) = Inr {}"
    by (simp add: live_vm_names_from_cur_def live_vm_map_from_cur_def sys_read_dir_def children_def good_world_def stale_world_def toy_world_def)
  have l: "list_runners 1 listing_services toy_gh ''o'' ''r'' VM_NAME_PREFIX good_world = Some (Inr [?idle], good_world)"
    by (simp add: list_runners_def get_page_good One_nat_def VM_NAME_PREFIX_def starts_with_def
        listing_services_def [THEN arg_cong [where f = the_crates]])
  have m: "mintable toy_config ?adv {} (idle_names [?idle]) j" if "j \<in> set ?jobs" for j
  proof -
    have "vm_name 3 \<noteq> ''gha-1'' \<and> vm_name 7 \<noteq> ''gha-1''" by code_simp
    with that show ?thesis
      by (auto simp: mintable_def labels_acceptable_def toy_config_def runner_labels_set_def toy_job_of_def idle_names_def
          default_runner_labels_def)
  qed
  then have f: "filter (\<lambda>j. mintable toy_config ?adv {} (idle_names [?idle]) j \<and> \<not> claimed demo_spool (disk good_world) j) ?jobs = ?jobs"
    "length (filter (mintable toy_config ?adv {} (idle_names [?idle])) ?jobs) \<le> permits good_world"
    using w(4,5) by (simp_all add: claimed_def)
  have q: "preempt_quiet listing_services" "\<not> has_nul (root demo_spool)" "distinct (map js_id ?jobs)"
    by (simp add: preempt_quiet_def listing_services_def http_services_def toy_services_def, code_simp, simp add: toy_job_of_def)
  have b: "writable_claim (the_crates listing_services) 1 demo_spool ''key'' ''o/r'' (disk good_world) j" for j
    using w(5) by (simp add: writable_claim_def synthetic_bytes_def listing_services_def http_services_def toy_services_def)
  from reconcile_jobs_covers [OF q(1,2) w(1,2) q(3) b f(2)] obtain w' where
    j: "reconcile_jobs listing_services toy_config 1 demo_spool ''key'' ?adv ''o/r'' {} (idle_names [?idle]) ?jobs good_world = (False, w')"
    "spawned w' = map (\<lambda>j. (build_event ''o/r'' j, cur_path_of demo_spool (canonical_name (js_id j)))) ?jobs"
    unfolding f(1) w(3) by auto
  have "split_once (CHR ''/'') ''o/r'' = Some (''o'', ''r'')" by code_simp
  then have "reconcile_repos 1 listing_services toy_gh toy_config 1 demo_spool ''key'' ?adv {} [''o/r''] good_world = Some w'"
    using w(2) l list_queued_good j(1) by simp
  moreover have "allowed_repos toy_config = [''o/r'']" by (simp add: toy_config_def)
  ultimately have "reconcile 1 listing_services toy_gh toy_config 1 demo_spool ''key'' ?adv good_world = Some w'"
    unfolding reconcile_def reconcile_inner_def v by simp
  with j(2) show ?thesis by (simp add: toy_job_of_def)
qed

theorem reconcile_pass_is_a_run_witness:
  "\<exists>w'. reconcile 1 listing_services toy_gh toy_config 1 demo_spool ''key'' (runner_labels_set toy_config) good_world = Some w'
     \<and> map snd (spawned w') = [cur_path_of demo_spool (canonical_name 3), cur_path_of demo_spool (canonical_name 7)]
     \<and> (\<forall>x \<in> set (spawned w'). present (disk w') (snd x))"
proof -
  obtain w' where w': "reconcile 1 listing_services toy_gh toy_config 1 demo_spool ''key'' (runner_labels_set toy_config) good_world = Some w'"
    "map snd (spawned w') = [cur_path_of demo_spool (canonical_name 3), cur_path_of demo_spool (canonical_name 7)]"
    using mint_runs by (elim exE conjE) (rule that)
  have p: "preempt_only_pauses listing_services" "the_crates listing_services = pr_crates mint_params"
    by (simp add: preempt_only_pauses_def listing_services_def http_services_def toy_services_def, simp add: mint_params_def)
  have fr: "http_frame listing_services only_pauses"
  proof -
    have "reflp only_pauses" "transp only_pauses" by (simp add: reflp_def only_pauses_def, simp add: transp_def only_pauses_def)
    moreover have "http_send listing_services = toy_http" by (simp add: listing_services_def http_services_def)
    ultimately show ?thesis by (simp add: http_frame_def only_pauses_def toy_http_def)
  qed
  have m: "mirrors [] mint_sup good_world"
    by (simp add: mirrors_def mint_sup_def toy_sup_def good_world_def stale_world_def toy_world_def open_for_steps_def)
  have c: "pr_config mint_params = toy_config" "pr_pid mint_params = 1" "pr_spool mint_params = demo_spool" "pr_secret mint_params = ''key''"
    by (simp_all add: mint_params_def toy_params_def)
  have "undisturbed_start mint_params mint_sup"
    by (simp add: undisturbed_start_def initial_def mint_sup_def toy_sup_def c toy_config_def healthy_def no_faults_def regular_only_def
        get_def good_world_def stale_world_def toy_world_def)
  then have "undisturbed mint_params mint_sup" by (rule gets_to_start)
  with reconcile_pass_is_a_run [OF p fr m, unfolded c, OF w'(1)] w' show ?thesis by auto
qed

end
