(* ===== verification/Spool_Watch.thy ===== *)
theory Spool_Watch
  imports Spool_Properties
begin

text \<open>
  The watcher of \<open>new/\<close> (\<open>spool.rs\<close>: \<open>watch\<close>): a scan at the start, and one more after every
  tick of ten seconds and every burst of file-system events, until the receiver or the event source
  is gone.  Each event comes with the directory as the scan finds it and with how many names the
  receiver still takes before it closes (\<open>None\<close>: it stays open).
\<close>

datatype watch_event = Tick | FsEvent | EventsClosed | ReceiverClosed

definition rescan :: "path \<Rightarrow> nat option \<Rightarrow> fsys \<Rightarrow> string list" where
  "rescan d room fs = fst (enumerate_new d room fs)"

fun watch_loop :: "path \<Rightarrow> (watch_event \<times> fsys \<times> nat option) list \<Rightarrow> string list \<times> unit res option" where
  "watch_loop d [] = ([], None)"
| "watch_loop d ((Tick, fs, room) # es) =
     (case watch_loop d es of (out, r) \<Rightarrow> (rescan d room fs @ out, r))"
| "watch_loop d ((FsEvent, fs, room) # es) =
     (case watch_loop d es of (out, r) \<Rightarrow> (rescan d room fs @ out, r))"
| "watch_loop d ((EventsClosed, _) # es) = ([], Some (Inr ()))"
| "watch_loop d ((ReceiverClosed, _) # es) = ([], Some (Inr ()))"

text \<open>\<open>installed\<close> is the start of the file-system watcher; no result means it is still watching.\<close>

definition watch ::
    "path \<Rightarrow> nat option \<Rightarrow> fsys \<Rightarrow> string + unit \<Rightarrow> (watch_event \<times> fsys \<times> nat option) list
     \<Rightarrow> string list \<times> unit res option"
where
  "watch d room fs installed es =
     (case enumerate_new d room fs of
        (out, Inl e) \<Rightarrow> (out, Some (Inl e))
      | (out, Inr _) \<Rightarrow>
          (case installed of
             Inl e \<Rightarrow> (out, Some (Inl (Msg e)))
           | Inr _ \<Rightarrow> (case watch_loop d es of (out', r) \<Rightarrow> (out @ out', r))))"

section \<open>Nothing is missed\<close>

definition is_scan :: "watch_event \<Rightarrow> bool" where
  "is_scan e \<longleftrightarrow> e = Tick \<or> e = FsEvent"

text \<open>A complete scan: the directory can be listed to its end and the receiver stays.\<close>

definition complete_scan :: "path \<Rightarrow> fsys \<Rightarrow> nat option \<Rightarrow> bool" where
  "complete_scan d fs room \<longleftrightarrow> room = None \<and> fault fs OpReadDir d = None \<and> fault fs OpNextEntry d = None"

lemma sent_are_sendable: "n \<in> set (fst (send_entries d fs room ns)) \<Longrightarrow> n \<in> set ns \<and> sendable d fs n"
  by (induction d fs room ns rule: send_entries.induct) (auto simp: Let_def split: if_splits)

lemma scan_sound: "n \<in> set (fst (enumerate_new d room fs)) \<Longrightarrow> sendable d fs n"
proof (cases "sys_read_dir d fs")
  case (Inr q)
  assume "n \<in> set (fst (enumerate_new d room fs))"
  with Inr have "n \<in> set (fst (send_entries d fs room (fst q)))"
    by (simp add: enumerate_new_def case_prod_beta split: bool.splits)
  then show ?thesis using sent_are_sendable by blast
qed (simp add: enumerate_new_def)

lemma scan_complete:
  assumes "complete_scan d fs room" and "sendable d fs n"
  shows "n \<in> set (fst (enumerate_new d room fs))"
proof -
  from assms(2) have "get fs (join d n) \<noteq> None" by (auto simp: sendable_iff)
  then have "n \<in> set (children d fs)" by (simp add: set_children)
  with assms show ?thesis
    by (simp add: enumerate_new_def sys_read_dir_def complete_scan_def send_entries_open)
qed

lemma watch_loop_running:
  assumes "watch_loop d es = (out, None)"
  shows "\<forall>e \<in> set es. is_scan (fst e)"
    and "(e, fs, room) \<in> set es \<Longrightarrow> set (fst (enumerate_new d room fs)) \<subseteq> set out"
    and "set out = (\<Union>(e, fs, room) \<in> set es. set (fst (enumerate_new d room fs)))"
proof -
  have "(\<forall>e \<in> set es. is_scan (fst e)) \<and> set out = (\<Union>(e, fs, room) \<in> set es. set (fst (enumerate_new d room fs)))"
    using assms
    by (induction d es arbitrary: out rule: watch_loop.induct)
       (auto simp: is_scan_def rescan_def split: prod.splits)
  then show "\<forall>e \<in> set es. is_scan (fst e)"
    and "(e, fs, room) \<in> set es \<Longrightarrow> set (fst (enumerate_new d room fs)) \<subseteq> set out"
    and "set out = (\<Union>(e, fs, room) \<in> set es. set (fst (enumerate_new d room fs)))" by blast+
qed

lemma watch_loop_end: "watch_loop d es = (out, Some r) \<Longrightarrow> r = Inr () \<and> (\<exists>e \<in> set es. \<not> is_scan (fst e))"
  by (induction d es arbitrary: out rule: watch_loop.induct) (auto simp: is_scan_def split: prod.splits)

lemma watch_cases:
  assumes "watch d room fs installed es = (out, r)"
  obtains (scan) e where "enumerate_new d room fs = (out, Inl e)" "r = Some (Inl e)"
  | (install) m where "installed = Inl m" "r = Some (Inl (Msg m))"
  | (running) out' where "out = fst (enumerate_new d room fs) @ out'" "watch_loop d es = (out', r)"
proof (cases "enumerate_new d room fs")
  case (Pair o1 q)
  with assms show ?thesis using that
    by (cases q; cases installed; cases "watch_loop d es") (auto simp: watch_def)
qed

text \<open>What the scans of a run sent lies between what the complete ones had to find and what any could find.\<close>

lemma scans_between:
  assumes "T = (\<Union>(e, fs, room) \<in> S. g fs room)"
    and "\<And>n fs room. n \<in> g fs room \<Longrightarrow> h fs n"
    and "\<And>n fs room. c fs room \<Longrightarrow> h fs n \<Longrightarrow> n \<in> g fs room"
  shows "(\<forall>(e, fs, room) \<in> S. c fs room \<longrightarrow> {n. h fs n} \<subseteq> T) \<and> T \<subseteq> (\<Union>(e, fs, room) \<in> S. {n. h fs n})"
  using assms(2,3) unfolding assms(1) by fast



end
