(* ===== verification/Supervisor_Delivery.thy ===== *)
theory Supervisor_Delivery
  imports Supervisor_Claims Spool_Watch
begin

text \<open>
  The life of a delivery across the spool and the dispatch loop (\<open>supervisor.rs: run\<close>,
  \<open>spool.rs\<close>): on a sound file system a name that was spooled stays in one of \<open>new/\<close>,
  \<open>cur/\<close>, \<open>done/\<close>, \<open>error/\<close>, never goes back from being claimed, and a name that reached an
  unpaused dispatch loop is claimed.
\<close>

section \<open>Names on the disk\<close>

definition accounted :: "spool \<Rightarrow> fsys \<Rightarrow> string \<Rightarrow> bool" where
  "accounted s fs n \<longleftrightarrow> present fs (new_path s n) \<or> spent s fs n"

text \<open>No step of these loses a name or gives a claimed one back.\<close>

definition names_kept :: "spool \<Rightarrow> fsys \<Rightarrow> fsys \<Rightarrow> bool" where
  "names_kept s fs fs' \<longleftrightarrow> (\<forall>n. (accounted s fs n \<longrightarrow> accounted s fs' n) \<and> (spent s fs n \<longrightarrow> spent s fs' n))"

lemma names_kept_refl [simp]: "names_kept s fs fs"
  by (simp add: names_kept_def)

lemma names_kept_trans: "names_kept s f g \<Longrightarrow> names_kept s g h \<Longrightarrow> names_kept s f h"
  by (auto simp: names_kept_def)

lemma names_keptI:
  assumes "\<And>n. spent s fs n \<Longrightarrow> spent s fs' n"
    and "\<And>n. present fs (new_path s n) \<Longrightarrow> accounted s fs' n"
  shows "names_kept s fs fs'"
  using assms by (auto simp: names_kept_def accounted_def)

lemma present_names_kept: "(\<And>q. present fs q \<Longrightarrow> present fs' q) \<Longrightarrow> names_kept s fs fs'"
  by (rule names_keptI) (auto simp: accounted_def spent_def marked_def)

lemma check_names_kept:
  assumes "healthy fs"
  shows "names_kept s fs (claim_check s m fs)"
proof (rule names_keptI)
  show "spent s (claim_check s m fs) n" if "spent s fs n" for n
    using spent_spool_step [OF assms that, of "Check m"] by simp
next
  fix n assume p: "present fs (new_path s n)"
  show "accounted s (claim_check s m fs) n"
  proof (cases "n = m \<and> is_archived s m fs")
    case True
    then have "spent s fs n" using is_archived_healthy [OF assms] by (simp add: spent_def)
    then show ?thesis using spent_spool_step [OF assms, of s n "Check m"] by (simp add: accounted_def)
  next
    case False
    then show ?thesis using p by (auto simp: accounted_def claim_check_def present_unlink_other)
  qed
qed

text \<open>The take: either the claim is there, or one was, or the name is archived, or nothing happened.\<close>

lemma claim_take_outcome:
  assumes "healthy fs"
  shows "spent s (snd (claim_take s m fs)) m
       \<or> snd (claim_take s m fs) = stamp_mtime_now (new_path s m) fs
         \<and> (\<not> present fs (new_path s m) \<or> has_nul (new_path s m) \<or> has_nul (cur_path_of s m))"
proof -
  let ?f = "stamp_mtime_now (new_path s m) fs"
  have nf: "fault fs = (\<lambda>_ _. None)" using assms by (simp add: healthy_def no_faults_def)
  obtain r fs2 where r: "rename_no_clobber (new_path s m) (cur_path_of s m) ?f = (r, fs2)" by fastforce
  have h2: "healthy (snd (claim_take s m fs))" using healthy_step [OF assms, of s "Take m"] by simp
  show ?thesis
  proof (cases r)
    case (Inr u)
    with r obtain i where i: "fs2 = put (cur_path_of s m) i (del (new_path s m) ?f)" by (auto elim: rename_no_clobber_ok)
    show ?thesis
    proof (cases "is_archived s m fs2")
      case True
      then have "marked s m fs2" by (rule is_archived_marked)
      then have "marked s m (snd (sys_unlink (cur_path_of s m) fs2))" by (simp add: marked_def present_unlink_other)
      with True r Inr show ?thesis by (simp add: claim_take_def Let_def spent_def)
    next
      case False
      with r Inr i show ?thesis by (simp add: claim_take_def Let_def spent_def present_def)
    qed
  next
    case (Inl e)
    with r have f: "fs2 = ?f" by (simp add: rename_no_clobber_err)
    show ?thesis
    proof (cases "e = AlreadyExists")
      case True
      with r Inl rename_no_clobber_exists [of "new_path s m" "cur_path_of s m" ?f fs2] nf
      have "present ?f (cur_path_of s m)" by (simp add: present_def)
      with True r Inl f show ?thesis by (simp add: claim_take_def Let_def spent_def present_unlink_other)
    next
      case False
      with r Inl f nf show ?thesis
        by (cases e) (auto simp: claim_take_def Let_def rename_no_clobber_def sys_rename_excl_def present_def
            split: if_splits option.splits)
    qed
  qed
qed

lemma take_names_kept:
  assumes "healthy fs"
  shows "names_kept s fs (snd (claim_take s m fs))"
proof (rule names_keptI)
  show "spent s (snd (claim_take s m fs)) n" if "spent s fs n" for n
    using spent_spool_step [OF assms that, of "Take m"] by simp
next
  fix n assume p: "present fs (new_path s n)"
  show "accounted s (snd (claim_take s m fs)) n"
  proof (cases "n = m")
    case True
    with claim_take_outcome [OF assms, of s m] p show ?thesis by (auto simp: accounted_def)
  next
    case False
    with claim_take_keeps [OF p, of s m] show ?thesis by (simp add: accounted_def)
  qed
qed

lemma try_claim_names_kept:
  assumes "healthy fs" and "try_claim s m fs = (r, fs')"
  shows "names_kept s fs fs'"
proof -
  have "fs' = (if is_archived s m fs then claim_check s m fs else snd (claim_take s m (claim_check s m fs)))"
    using assms(2) by (auto simp: try_claim_def try_claim_inner_halves split: if_splits)
  moreover have "healthy (claim_check s m fs)" using healthy_step [OF assms(1), of s "Check m"] by simp
  ultimately show ?thesis using check_names_kept [OF assms(1)] take_names_kept names_kept_trans by metis
qed

lemma try_claim_spends:
  assumes "healthy fs" and "try_claim s m fs = (r, fs')" and "present fs (new_path s m) \<or> spent s fs m"
    and "\<not> has_nul (new_path s m)" and "\<not> has_nul (cur_path_of s m)"
  shows "spent s fs' m"
proof (cases "is_archived s m fs")
  case True
  then have "spent s fs m" by (simp add: spent_def is_archived_marked)
  with try_claim_names_kept [OF assms(1,2)] show ?thesis by (simp add: names_kept_def)
next
  case False
  then have e: "fs' = snd (claim_take s m fs)"
    using assms(2) by (simp add: try_claim_def try_claim_inner_halves claim_check_def prod_eq_iff)
  from assms(3) show ?thesis
  proof
    assume "present fs (new_path s m)"
    with claim_take_outcome [OF assms(1), of s m] assms(4,5) e show ?thesis by auto
  next
    assume "spent s fs m"
    with take_names_kept [OF assms(1)] e show ?thesis by (simp add: names_kept_def)
  qed
qed

lemma finalize_names_kept:
  assumes "healthy fs"
  shows "names_kept s fs (snd (finalize_done s (cur_path_of s m) fs))"
    and "names_kept s fs (snd (finalize_error s (cur_path_of s m) why fs))"
  by (rule names_keptI; use finalize_spent_step [OF assms] finalize_keeps_other [OF assms] in \<open>simp add: accounted_def\<close>)+

section \<open>Steps of the daemon\<close>

lemma prepare_names_kept:
  assumes "healthy fs" and "prepare C s m cfg secret allowed adv fs = (r, fs')"
  shows "names_kept s fs fs'"
  using prepare_claim [OF assms(2)] try_claim_names_kept [OF assms(1)] by auto

text \<open>What \<open>prepare\<close> turns away is archived under the name it was claimed with.\<close>

lemma turned_away_names_kept:
  assumes "healthy fs" and "prepare C s m cfg secret allowed adv fs = (r, fs')" and "r = Drop p x \<or> r = Reject p x"
  shows "names_kept s fs (snd (finalize_done s p fs'))" and "names_kept s fs (snd (finalize_error s p why fs'))"
proof -
  note h = prepare_disk(1) [OF assms(1,2)] and k = prepare_names_kept [OF assms(1,2)]
  have p: "p = cur_path_of s m" using prepare_disk(3) [OF assms(1,2)] assms(3) by blast
  show "names_kept s fs (snd (finalize_done s p fs'))" "names_kept s fs (snd (finalize_error s p why fs'))"
    unfolding p using finalize_names_kept [OF h] names_kept_trans [OF k] by blast+
qed

lemma write_synthetic_names_kept:
  assumes "write_synthetic_claim C pid s job fname secret fs = (r, fs')"
  shows "names_kept s fs fs'"
proof (rule present_names_kept)
  show "present fs' q" if "present fs q" for q
    using write_synthetic_keeps [OF that, of C pid s job fname secret] assms by simp
qed

lemma own_step_names_kept:
  assumes "own_step P s s'" and "claims_inv P s"
  shows "names_kept (pr_spool P) (sup_fs s) (sup_fs s')"
proof -
  have h: "healthy (sup_fs s)" using assms(2) by (simp add: claims_inv_def)
  have p: "p = job_claim P event" if "running s = before @ (event, p) # after" for before event p after
    using assms(2) that by (auto simp: claims_inv_def held_def)
  from assms(1) show ?thesis
  proof cases
    case (dispatch_run name p d event fs)
    then show ?thesis using prepare_names_kept [OF h dispatch_run(4) [unfolded prepare_entry_def]] by simp
  next
    case (dispatch_drop name p x fs)
    then show ?thesis using turned_away_names_kept(1) [OF h dispatch_drop(4) [unfolded prepare_entry_def]] by simp
  next
    case (dispatch_reject name p x fs why)
    then show ?thesis using turned_away_names_kept(2) [OF h dispatch_reject(4) [unfolded prepare_entry_def]] by simp
  next
    case (dispatch_skip name fs)
    then show ?thesis using prepare_names_kept [OF h dispatch_skip(4) [unfolded prepare_entry_def]] by simp
  next
    case (reconcile_minted job repo p fs)
    then show ?thesis using write_synthetic_names_kept by auto
  next
    case (reconcile_not_minted job repo r fs)
    then show ?thesis using write_synthetic_names_kept by auto
  next
    case (job_done before event p after)
    then show ?thesis using finalize_names_kept(1) [OF h] p [OF job_done(3)] by (simp add: job_claim_def)
  next
    case (job_failed before event p after why)
    then show ?thesis using finalize_names_kept(2) [OF h] p [OF job_failed(3)] by (simp add: job_claim_def)
  qed simp_all
qed

lemma own_steps_names_kept:
  "(own_step P)\<^sup>*\<^sup>* s s' \<Longrightarrow> claims_inv P s \<Longrightarrow> claims_inv P s' \<and> names_kept (pr_spool P) (sup_fs s) (sup_fs s')"
  by (induction rule: rtranclp_induct) (auto intro: own_step_claims own_step_names_kept names_kept_trans)

section \<open>A name in the dispatch loop\<close>

definition in_hand :: "string \<Rightarrow> dispatch_pc \<Rightarrow> bool" where
  "in_hand n pc \<longleftrightarrow> pc = AwaitUnpaused n \<or> pc = AwaitPermit n \<or> pc = Holding n \<or> pc = Preparing n"

text \<open>A serving, unpaused daemon.\<close>

definition ready :: "sup_params \<Rightarrow> sup \<Rightarrow> bool" where
  "ready P s \<longleftrightarrow> claims_inv P s \<and> sup_inv (max_concurrency (pr_config P)) 0 s \<and> shutdown_at s = Serving \<and> \<not> pause_flag s"

text \<open>The spooler writes canonical names only; the rename refuses a path with a NUL.\<close>

definition claimable :: "sup_params \<Rightarrow> string \<Rightarrow> bool" where
  "claimable P n \<longleftrightarrow> (\<exists>i. n = canonical_name i) \<and> \<not> has_nul (root (pr_spool P))"

definition taken_up :: "sup_params \<Rightarrow> string \<Rightarrow> sup \<Rightarrow> sup \<Rightarrow> bool" where
  "taken_up P n s t \<longleftrightarrow> (own_step P)\<^sup>*\<^sup>* s t \<and> dispatch_at t = AwaitName
     \<and> (accounted (pr_spool P) (sup_fs s) n \<and> claimable P n \<longrightarrow> spent (pr_spool P) (sup_fs t) n)"

lemma own_step_pause_flag: "own_step P s s' \<Longrightarrow> pause_flag s' = pause_flag s"
  by (erule own_stepE) (simp_all add: acquire_one_def start_job_def release_drain)

lemma ready_step:
  assumes "ready P s" and "own_step P s s'"
  shows "ready P s'"
  using assms own_step_claims [OF assms(2)] own_step_inv [OF assms(2)] own_step_pause_flag [OF assms(2)]
    serving_own_step [OF assms(2)]
  by (auto simp: ready_def sup_inv_def)

lemma ready_steps: "(own_step P)\<^sup>*\<^sup>* s s' \<Longrightarrow> ready P s \<Longrightarrow> ready P s'"
  by (induction rule: rtranclp_induct) (auto intro: ready_step)

lemma taken_up_later:
  assumes "(own_step P)\<^sup>*\<^sup>* s t" and "ready P s" and "taken_up P n t u"
  shows "taken_up P n s u"
proof -
  have "claims_inv P s" using assms(2) by (simp add: ready_def)
  with own_steps_names_kept [OF assms(1)] have "accounted (pr_spool P) (sup_fs s) n \<longrightarrow> accounted (pr_spool P) (sup_fs t) n"
    by (simp add: names_kept_def)
  with assms(1,3) show ?thesis unfolding taken_up_def by (blast intro: rtranclp_trans)
qed

lemma taken_up_next: "own_step P s t \<Longrightarrow> ready P s \<Longrightarrow> taken_up P n t u \<Longrightarrow> taken_up P n s u"
  by (rule taken_up_later) (rule r_into_rtranclp)

lemma preparing_takes:
  assumes "ready P s" and "dispatch_at s = Preparing n"
  shows "\<exists>t. taken_up P n s t"
proof -
  let ?s = "pr_spool P"
  have o: "open_for_steps s" using assms(1) by (simp add: ready_def open_for_steps_def)
  have h: "healthy (sup_fs s)" using assms(1) by (simp add: ready_def claims_inv_def)
  obtain r fs where r: "prepare_entry P n (sup_fs s) = (r, fs)" by fastforce
  note pr = r [unfolded prepare_entry_def]
  have sp: "spent ?s fs n" if acc: "accounted ?s (sup_fs s) n" and cl: "claimable P n"
  proof -
    obtain i where i: "n = canonical_name i" "\<not> has_nul (root ?s)" using cl by (auto simp: claimable_def)
    obtain c fc where c: "try_claim ?s n (sup_fs s) = (c, fc)" by fastforce
    have "fs = fc"
      using pr c i(1) by (auto simp: prepare_def Let_def split: if_splits sum.splits option.splits entry_verdict.splits)
    with try_claim_spends [OF h c] acc no_nul_canonical [OF i(2)] i(1) show ?thesis by (simp add: accounted_def)
  qed
  note h' = prepare_disk(1) [OF h pr]
  have d: "dispatch_at (release (t\<lparr>dispatch_at := AwaitName\<rparr>)) = AwaitName" for t
    using release_drain(5) [of "t\<lparr>dispatch_at := AwaitName\<rparr>"] by (auto simp: granted_def)
  show ?thesis
  proof (cases r)
    case (Run p dl event)
    with own_step.dispatch_run [OF o assms(2)] r sp show ?thesis
      by (intro exI [of _ "start_job event p (s\<lparr>sup_fs := fs, dispatch_at := AwaitName\<rparr>)"])
         (simp add: taken_up_def start_job_def r_into_rtranclp)
  next
    case (Drop p x)
    with prepare_disk(3) [OF h pr] have "p = cur_path_of ?s n" by blast
    with finalize_spent_step(1) [OF h'] sp own_step.dispatch_drop [OF o assms(2)] r Drop d show ?thesis
      by (intro exI [of _ "release (s\<lparr>sup_fs := snd (finalize_done ?s p fs), dispatch_at := AwaitName\<rparr>)"])
         (simp add: taken_up_def r_into_rtranclp)
  next
    case (Reject p x)
    with prepare_disk(3) [OF h pr] have "p = cur_path_of ?s n" by blast
    with finalize_spent_step(2) [OF h'] sp own_step.dispatch_reject [OF o assms(2)] r Reject d show ?thesis
      by (intro exI [of _ "release (s\<lparr>sup_fs := snd (finalize_error ?s p [] fs), dispatch_at := AwaitName\<rparr>)"])
         (simp add: taken_up_def r_into_rtranclp)
  next
    case Skip
    with own_step.dispatch_skip [OF o assms(2)] r sp d show ?thesis
      by (intro exI [of _ "release (s\<lparr>sup_fs := fs, dispatch_at := AwaitName\<rparr>)"]) (simp add: taken_up_def r_into_rtranclp)
  qed
qed

text \<open>The next permit that comes back is the waiting dispatch loop's, and one does come back.\<close>

lemma release_grants:
  assumes "ready P s" and "dispatch_at s = AwaitPermit m"
  shows "waiters s = [DispatchWaiter]"
proof -
  from assms have w: "DispatchWaiter \<in> set (waiters s)" "\<forall>k. DrainWaiter k \<notin> set (waiters s)"
    "distinct (map (\<lambda>w. w = DispatchWaiter) (waiters s))" by (auto simp: ready_def sup_inv_def)
  from w show ?thesis by (cases rule: waiters_cases [OF w(3)]) auto
qed

lemma job_end_grants:
  assumes "ready P s" and "dispatch_at s = AwaitPermit m" and "running s \<noteq> []"
  shows "\<exists>t. own_step P s t \<and> dispatch_at t = Holding m"
proof -
  from assms(3) obtain ev p rest where "running s = [] @ (ev, p) # rest" by (cases "running s") auto
  moreover have "open_for_steps s" using assms(1) by (simp add: ready_def open_for_steps_def)
  ultimately show ?thesis using own_step.job_done [of s "[]" ev p rest P] release_grants [OF assms(1,2)] assms(2)
    by (intro exI [of _ "release (s\<lparr>running := [] @ rest, sup_fs := snd (finalize_done (pr_spool P) p (sup_fs s))\<rparr>)"])
       (simp add: release_def granted_def)
qed

lemma minting_grants:
  assumes "ready P s" and "dispatch_at s = AwaitPermit m" and "reconcile_at s = RcMinting job repo"
  shows "\<exists>t. (own_step P)\<^sup>*\<^sup>* s t \<and> dispatch_at t = Holding m"
proof -
  obtain r fs where r: "write_synthetic_claim (pr_crates P) (pr_pid P) (pr_spool P) job repo (pr_secret P) (sup_fs s) = (r, fs)"
    by fastforce
  have o: "open_for_steps s" using assms(1) by (simp add: ready_def open_for_steps_def)
  show ?thesis
  proof (cases "\<exists>p. r = Inr (Some p)")
    case True
    with r obtain p where st: "own_step P s (start_job (build_event repo job) p (s\<lparr>sup_fs := fs, reconcile_at := RcIdle\<rparr>))"
      using own_step.reconcile_minted [OF o assms(3)] by metis
    from job_end_grants [OF ready_step [OF assms(1) st]] assms(2) obtain t where
      "own_step P (start_job (build_event repo job) p (s\<lparr>sup_fs := fs, reconcile_at := RcIdle\<rparr>)) t" "dispatch_at t = Holding m"
      by (auto simp: start_job_def)
    with st show ?thesis by (meson r_into_rtranclp converse_rtranclp_into_rtranclp)
  next
    case False
    from own_step.reconcile_not_minted [OF o assms(3) r False] release_grants [OF assms(1,2)] assms(2) show ?thesis
      by (intro exI [of _ "release (s\<lparr>sup_fs := fs, reconcile_at := RcIdle\<rparr>)"]) (simp add: release_def granted_def r_into_rtranclp)
  qed
qed

lemma permit_comes:
  assumes "ready P s" and "dispatch_at s = AwaitPermit m" and "0 < max_concurrency (pr_config P)"
  shows "\<exists>t. (own_step P)\<^sup>*\<^sup>* s t \<and> dispatch_at t = Holding m"
proof -
  have o: "open_for_steps s" "\<not> pause_flag s" using assms(1) by (simp_all add: ready_def open_for_steps_def)
  have "free s = 0" using release_grants [OF assms(1,2)] assms(1) by (simp add: ready_def sup_inv_def)
  moreover have "drain_holds (max_concurrency (pr_config P)) (shutdown_at s) (waiters s) = 0"
    using release_grants [OF assms(1,2)] assms(1) by (simp add: ready_def)
  ultimately have "0 < jobs s + reconcile_holds (reconcile_at s)"
    using assms by (auto simp add: ready_def sup_inv_def dispatch_holds_def)
  then consider "running s \<noteq> []" | job repo where "reconcile_at s = RcHolding job repo" | job repo where "reconcile_at s = RcMinting job repo"
    by (cases "reconcile_at s") (auto simp: jobs_def reconcile_holds_def)
  then show ?thesis
  proof cases
    case 1
    with job_end_grants [OF assms(1,2)] show ?thesis by blast
  next
    case (2 job repo)
    note st = own_step.reconcile_checked [OF o(1) 2 o(2), of P]
    from minting_grants [OF ready_step [OF assms(1) st], of m job repo] assms(2) st show ?thesis
      by (auto intro: converse_rtranclp_into_rtranclp)
  next
    case (3 job repo)
    with minting_grants [OF assms(1,2)] show ?thesis by blast
  qed
qed

lemma held_permit_takes:
  assumes "ready P s" and "dispatch_at s = Holding n"
  shows "\<exists>t. taken_up P n s t"
proof -
  have "open_for_steps s" "\<not> pause_flag s" using assms(1) by (simp_all add: ready_def open_for_steps_def)
  note st = own_step.dispatch_checked [OF this(1) assms(2) this(2), of P]
  from preparing_takes [OF ready_step [OF assms(1) st]] taken_up_next [OF st assms(1)]
  show ?thesis by auto
qed

lemma awaited_permit_takes:
  assumes "ready P s" and "dispatch_at s = AwaitPermit n" and "0 < max_concurrency (pr_config P)"
  shows "\<exists>t. taken_up P n s t"
proof -
  obtain t where t: "(own_step P)\<^sup>*\<^sup>* s t" "dispatch_at t = Holding n" using permit_comes [OF assms] by blast
  from held_permit_takes [OF ready_steps [OF t(1) assms(1)] t(2)] taken_up_later [OF t(1) assms(1)] show ?thesis by blast
qed

lemma name_is_taken:
  assumes "ready P s" and "in_hand n (dispatch_at s)" and "0 < max_concurrency (pr_config P)"
  shows "\<exists>t. taken_up P n s t"
proof -
  from assms(2) consider "dispatch_at s = AwaitUnpaused n" | "dispatch_at s = AwaitPermit n" | "dispatch_at s = Holding n"
    | "dispatch_at s = Preparing n" unfolding in_hand_def by blast
  then show ?thesis
  proof cases
    case 1
    have "open_for_steps s" "\<not> pause_flag s" using assms(1) by (simp_all add: ready_def open_for_steps_def)
    note st = own_step.dispatch_unpaused [OF this(1) 1 this(2), of P]
    have "dispatch_at (acquire_one n s) = Holding n \<or> dispatch_at (acquire_one n s) = AwaitPermit n"
      by (simp add: acquire_one_def)
    with held_permit_takes [OF ready_step [OF assms(1) st]] awaited_permit_takes [OF ready_step [OF assms(1) st] _ assms(3)]
      taken_up_next [OF st assms(1)] show ?thesis by blast
  qed (use preparing_takes held_permit_takes awaited_permit_takes assms in blast)+
qed

section \<open>A scan\<close>

text \<open>The channel hands over one name after the other, each time the loop is back.\<close>

inductive works_off :: "sup_params \<Rightarrow> string list \<Rightarrow> sup \<Rightarrow> sup \<Rightarrow> bool" for P :: sup_params where
  all_done: "works_off P [] s s"
| next_name: "dispatch_at s = AwaitName \<Longrightarrow> env_step P s (s\<lparr>dispatch_at := AwaitUnpaused n\<rparr>) \<Longrightarrow>
    (own_step P)\<^sup>*\<^sup>* (s\<lparr>dispatch_at := AwaitUnpaused n\<rparr>) t \<Longrightarrow> works_off P ns t u \<Longrightarrow> works_off P (n # ns) s u"

lemma scan_worked_off:
  assumes "ready P s" and "dispatch_at s = AwaitName" and "0 < max_concurrency (pr_config P)"
  shows "\<exists>u. works_off P ns s u \<and> names_kept (pr_spool P) (sup_fs s) (sup_fs u) \<and> dispatch_at u = AwaitName
     \<and> (\<forall>n \<in> set ns. accounted (pr_spool P) (sup_fs s) n \<and> claimable P n \<longrightarrow> spent (pr_spool P) (sup_fs u) n)"
  using assms(1,2)
proof (induction ns arbitrary: s)
  case Nil
  then show ?case by (intro exI [of _ s]) (simp add: all_done)
next
  case (Cons n ns)
  let ?a = "s\<lparr>dispatch_at := AwaitUnpaused n\<rparr>"
  have o: "open_for_steps s" using Cons.prems(1) by (simp add: ready_def open_for_steps_def)
  note arrives = env_step.name_arrives [OF o Cons.prems(2), of P n]
  have "sup_inv (max_concurrency (pr_config P)) 0 ?a"
    using Cons.prems(2) Cons.prems(1) [unfolded ready_def, THEN conjunct2, THEN conjunct1] by (simp add: sup_inv_def holds_defs)
  then have a: "ready P ?a" using Cons.prems(1) by (simp add: ready_def claims_inv_def)
  from name_is_taken [OF a _ assms(3), of n] obtain t where t: "taken_up P n ?a t" by (auto simp: in_hand_def)
  then have st: "(own_step P)\<^sup>*\<^sup>* ?a t" "dispatch_at t = AwaitName" by (simp_all add: taken_up_def)
  from own_steps_names_kept [OF st(1)] a have k: "names_kept (pr_spool P) (sup_fs s) (sup_fs t)" by (simp add: ready_def)
  from Cons.IH [OF ready_steps [OF st(1) a] st(2)] obtain u where
    u: "works_off P ns t u" "names_kept (pr_spool P) (sup_fs t) (sup_fs u)" "dispatch_at u = AwaitName"
    "\<forall>m \<in> set ns. accounted (pr_spool P) (sup_fs t) m \<and> claimable P m \<longrightarrow> spent (pr_spool P) (sup_fs u) m" by blast
  have "works_off P (n # ns) s u" by (rule next_name [OF Cons.prems(2) arrives st(1) u(1)])
  moreover have "accounted (pr_spool P) (sup_fs s) m \<and> claimable P m \<longrightarrow> spent (pr_spool P) (sup_fs u) m" if "m \<in> set (n # ns)" for m
    using that t u(2,4) k by (auto simp: taken_up_def names_kept_def)
  ultimately show ?case using u(2,3) names_kept_trans [OF k u(2)] by blast
qed

lemma scan_lists:
  assumes "healthy fs" and "present fs (new_path s (canonical_name i))"
  shows "canonical_name i \<in> set (fst (enumerate_new (new_dir s) None fs))"
proof (rule scan_complete)
  show "complete_scan (new_dir s) fs None" using assms(1) by (simp add: complete_scan_def healthy_def no_faults_def)
  have "ends_with (canonical_name i) ''.job''" by (rule parse_spool_filename_suffix [of _ i]) simp
  then show "sendable (new_dir s) fs (canonical_name i)"
    using assms by (auto simp: sendable_iff healthy_def no_faults_def regular_only_def present_def)
qed

section \<open>Property\<close>

text \<open>C9: No delivery is lost and each is taken up: whatever the daemon's own tasks do on a sound disk, a name in
  \<open>new/\<close>, \<open>cur/\<close>, \<open>done/\<close> or \<open>error/\<close> stays in one of them, and one in the last three stays in those; and
  when the names of a scan of \<open>new/\<close> are handed to the dispatch loop of a serving, unpaused daemon, be there
  junk among them and be every permit out, the daemon has a run that works them all off, one after the other,
  after which every delivery that was in \<open>new/\<close> is claimed or archived.\<close>

theorem no_delivery_is_lost:
  assumes "undisturbed P s" and "0 < max_concurrency (pr_config P)" and "max_concurrency (pr_config P) < 2 ^ 32"
    and "\<not> has_nul (root (pr_spool P))"
  shows "((own_step P)\<^sup>*\<^sup>* s s' \<longrightarrow>
            (accounted (pr_spool P) (sup_fs s) n \<longrightarrow> accounted (pr_spool P) (sup_fs s') n)
            \<and> (spent (pr_spool P) (sup_fs s) n \<longrightarrow> spent (pr_spool P) (sup_fs s') n))
       \<and> (shutdown_at s = Serving \<and> \<not> pause_flag s \<and> dispatch_at s = AwaitName \<longrightarrow>
            (\<exists>t. works_off P (fst (enumerate_new (new_dir (pr_spool P)) None (sup_fs s))) s t
               \<and> (\<forall>i. present (sup_fs s) (new_path (pr_spool P) (canonical_name i)) \<longrightarrow>
                    spent (pr_spool P) (sup_fs t) (canonical_name i))))"
proof (intro conjI impI; (elim conjE)?)
  have c: "claims_inv P s" by (rule claims.gets_to_inv [OF assms(1)])
  show "accounted (pr_spool P) (sup_fs s') n" if "(own_step P)\<^sup>*\<^sup>* s s'" "accounted (pr_spool P) (sup_fs s) n"
    using own_steps_names_kept [OF that(1) c] that(2) by (simp add: names_kept_def)
  show "spent (pr_spool P) (sup_fs s') n" if "(own_step P)\<^sup>*\<^sup>* s s'" "spent (pr_spool P) (sup_fs s) n"
    using own_steps_names_kept [OF that(1) c] that(2) by (simp add: names_kept_def)
  assume d: "shutdown_at s = Serving" "\<not> pause_flag s" "dispatch_at s = AwaitName"
  let ?names = "fst (enumerate_new (new_dir (pr_spool P)) None (sup_fs s))"
  have h: "healthy (sup_fs s)" using c by (simp add: claims_inv_def)
  have "sup_inv (max_concurrency (pr_config P)) 0 s" by (rule reachable_inv [OF undisturbed_reachable [OF assms(1)] assms(3)])
  with c d have "ready P s" by (simp add: ready_def)
  from scan_worked_off [OF this d(3) assms(2)] obtain t where t: "works_off P ?names s t"
    "\<forall>n \<in> set ?names. accounted (pr_spool P) (sup_fs s) n \<and> claimable P n \<longrightarrow> spent (pr_spool P) (sup_fs t) n" by blast
  have "spent (pr_spool P) (sup_fs t) (canonical_name i)" if "present (sup_fs s) (new_path (pr_spool P) (canonical_name i))" for i
    using t(2) scan_lists [OF h that] that assms(4) by (auto simp: accounted_def claimable_def)
  with t(1) show "\<exists>t. works_off P ?names s t \<and> (\<forall>i. present (sup_fs s) (new_path (pr_spool P) (canonical_name i)) \<longrightarrow>
      spent (pr_spool P) (sup_fs t) (canonical_name i))" by blast
qed

theorem no_delivery_is_lost_witness:
  "\<exists>t. works_off toy_params (fst (enumerate_new (new_dir demo_spool) None toy_delivery)) toy_sup t \<and> spent demo_spool (sup_fs t) ''7.job''"
proof -
  have c: "canonical_name 7 = ''7.job''" by code_simp
  have m: "max_concurrency (pr_config toy_params) = 4" "pr_spool toy_params = demo_spool" by (simp_all add: toy_params_def toy_config_def)
  have u: "undisturbed toy_params toy_sup" using waiting_sup_start by (simp add: gets_to_start undisturbed_start_def)
  have b: "0 < max_concurrency (pr_config toy_params)" "max_concurrency (pr_config toy_params) < 2 ^ 32"
    "\<not> has_nul (root (pr_spool toy_params))" unfolding m by (simp, simp, code_simp)
  have st: "shutdown_at toy_sup = Serving \<and> \<not> pause_flag toy_sup \<and> dispatch_at toy_sup = AwaitName" "sup_fs toy_sup = toy_delivery"
    by (simp_all add: toy_sup_def)
  have "present toy_delivery (new_path demo_spool (canonical_name 7))"
    unfolding c by (simp add: toy_delivery_def calm_fs_def present_def get_def)
  with no_delivery_is_lost [OF u b, THEN conjunct2, THEN mp, OF st(1)]
  obtain t where "works_off toy_params (fst (enumerate_new (new_dir demo_spool) None toy_delivery)) toy_sup t"
    "spent demo_spool (sup_fs t) (canonical_name 7)"
    unfolding m(2) st(2) by blast
  with c show ?thesis by auto
qed

end
