(* ===== verification/Control.thy ===== *)
theory Control
  imports Gc_Plan Lima "HOL-Library.Char_ord" "HOL-Library.List_Lexorder"
begin

text \<open>
  The control endpoint (\<open>control.rs\<close>): pause and resume, the status, the three job lists read from
  the spool and the snapshot of the managed VMs.  A listing reads one state of the spool.  The HTTP
  server itself (\<open>axum\<close>), the JSON it serialises to and the two static assets are left out.
\<close>

section \<open>State\<close>

text \<open>A \<open>HashMap\<close> is the association list of its entries, without duplicate keys.\<close>

record vm_snapshot =
  taken_ms :: nat
  snapshot_vms :: "(string \<times> string option) list"

definition default_snapshot :: vm_snapshot where
  "default_snapshot = \<lparr>taken_ms = 0, snapshot_vms = []\<rparr>"

text \<open>The pause flag and the free permits are the world's.\<close>

record control_state =
  ctl_max_concurrency :: nat
  ctl_spool :: spool
  ctl_webhook_secret :: bytes
  ctl_allowed_repos :: "string set"
  ctl_runner_labels :: "string set"
  ctl_runner_label :: string
  ctl_vms :: vm_snapshot

definition VM_SNAPSHOT_POLL :: nat where "VM_SNAPSHOT_POLL = secs 5"
definition COMPLETED_WINDOW_SECS :: nat where "COMPLETED_WINDOW_SECS = 24 * 60 * 60"
definition COMPLETED_CAP :: nat where "COMPLETED_CAP = 200"
definition MAX_ERR_PREVIEW_BYTES :: nat where "MAX_ERR_PREVIEW_BYTES = 8 * 1024"
definition COMPLETED_SCAN_CAP :: nat where "COMPLETED_SCAN_CAP = 10000"
definition ACTIVE_CAP :: nat where "ACTIVE_CAP = 500"

section \<open>Time\<close>

definition ms_since_epoch :: "systime \<Rightarrow> nat" where
  "ms_since_epoch t = (if t < 0 then 0 else as_millis (nat t))"

definition age_secs :: "nat \<Rightarrow> nat \<Rightarrow> u64" where
  "age_secs now_ms then_ms =
     (let s = (now_ms - then_ms) div 1000 in if s < 2 ^ 64 then of_nat s else - 1)"

text \<open>\<open>SystemTime::checked_sub\<close>: the seconds of a \<open>SystemTime\<close> are an \<open>i64\<close>.\<close>

definition systime_checked_sub :: "systime \<Rightarrow> nat \<Rightarrow> systime option" where
  "systime_checked_sub t d =
     (if - (2 ^ 63 * 1000000000) \<le> t - int d then Some (t - int d) else None)"

section \<open>The poller\<close>

definition managed_snapshot :: "lima_instance list \<Rightarrow> (string \<times> string option) list" where
  "managed_snapshot instances =
     fold (\<lambda>i m. AList.update (li_name i) (li_status i) m)
       (filter (\<lambda>i. is_managed_vm_name (li_name i)) instances) []"

text \<open>
  One tick: the new snapshot and whether the loop goes on.  \<open>is_closed\<close> tells whether the control
  server (the only receiver) is gone; a send then fails.
\<close>

definition poll_tick ::
    "'e services \<Rightarrow> ('e world \<Rightarrow> bool) \<Rightarrow> vm_snapshot \<Rightarrow> 'e world \<Rightarrow> bool \<times> vm_snapshot \<times> 'e world" where
  "poll_tick S is_closed snap w =
     (if is_closed w then (False, snap, w)
      else (case list_instances_detailed S w of
              (Inl _, w1) \<Rightarrow> (True, snap, w1)
            | (Inr instances, w1) \<Rightarrow>
                if is_closed w1 then (False, snap, w1)
                else (True, \<lparr>taken_ms = ms_since_epoch (now w1), snapshot_vms = managed_snapshot instances\<rparr>, w1)))"

text \<open>The poller over its first \<open>n\<close> ticks; the first one is immediate.\<close>

fun poll_vm_snapshots ::
    "'e services \<Rightarrow> ('e world \<Rightarrow> bool) \<Rightarrow> nat \<Rightarrow> vm_snapshot \<Rightarrow> 'e world \<Rightarrow> vm_snapshot \<times> 'e world" where
  "poll_vm_snapshots S is_closed 0 snap w = (snap, w)"
| "poll_vm_snapshots S is_closed (Suc n) snap w =
     (case poll_tick S is_closed snap w of
        (False, snap', w') \<Rightarrow> (snap', w')
      | (True, snap', w') \<Rightarrow> poll_vm_snapshots S is_closed n snap' (sleep S VM_SNAPSHOT_POLL w'))"

section \<open>Rows\<close>

record job_summary =
  row_id :: string
  row_repo :: string
  row_name :: "string option"
  row_labels :: "string list"
  row_run_id :: "string option"
  row_enqueued_ms :: "nat option"
  row_claimed_ms :: "nat option"
  row_age_secs :: u64
  row_vm :: "string option"
  row_vm_status :: "string option"

datatype bucket = Queued | InFlight

definition parse_display_fields :: "crates \<Rightarrow> bytes \<Rightarrow> string option \<times> string list \<times> string option" where
  "parse_display_fields C body =
     (case json_event C body of
        Inr wj \<Rightarrow>
          (Some (sanitize_for_log (job_name (ev_job wj))),
           map sanitize_for_log (job_labels (ev_job wj)),
           Some (dec_u64 (job_run_id (ev_job wj))))
      | Inl _ \<Rightarrow> (None, [], None))"

definition already_claimed_or_archived :: "spool \<Rightarrow> string \<Rightarrow> fsys \<Rightarrow> bool" where
  "already_claimed_or_archived s name fs \<longleftrightarrow>
     try_exists_or_false (join (cur_dir s) name) fs
     \<or> try_exists_or_false (join (done_dir s) name) fs
     \<or> try_exists_or_false (join (error_dir s) name) fs"

definition queued_row ::
    "crates \<Rightarrow> control_state \<Rightarrow> nat \<Rightarrow> nat option \<Rightarrow> u64 \<Rightarrow> string \<Rightarrow> envelope \<Rightarrow> bytes \<Rightarrow> fsys \<Rightarrow> job_summary option"
where
  "queued_row C st now_ms mtime_ms i name env body fs =
     (if name \<noteq> canonical_name i then None
      else (case classify_validated_entry C i env body (ctl_webhook_secret st) (ctl_allowed_repos st)
                   (ctl_runner_label st) (ctl_runner_labels st) of
              EntryDrop _ \<Rightarrow> None
            | EntryReject _ \<Rightarrow> None
            | EntryRun event \<Rightarrow>
                if already_claimed_or_archived (ctl_spool st) name fs then None
                else
                  (let enqueued_ms = (if env_received_at_ms env \<noteq> 0 then env_received_at_ms env
                                      else case mtime_ms of Some t \<Rightarrow> t | None \<Rightarrow> 0)
                   in Some \<lparr>row_id = dec_u64 i,
                            row_repo = sanitize_for_log (full_name (ev_repository event)),
                            row_name = Some (sanitize_for_log (job_name (ev_job event))),
                            row_labels = map sanitize_for_log (job_labels (ev_job event)),
                            row_run_id = Some (dec_u64 (job_run_id (ev_job event))),
                            row_enqueued_ms = Some enqueued_ms, row_claimed_ms = None,
                            row_age_secs = age_secs now_ms enqueued_ms,
                            row_vm = None, row_vm_status = None\<rparr>)))"

definition in_flight_row ::
    "crates \<Rightarrow> vm_snapshot \<Rightarrow> nat \<Rightarrow> nat option \<Rightarrow> u64 \<Rightarrow> envelope \<Rightarrow> bytes \<Rightarrow> job_summary" where
  "in_flight_row C snap now_ms mtime_ms i env body =
     (case parse_display_fields C body of
        (name, labels, rid) \<Rightarrow>
          let claimed_ms = (case mtime_ms of Some t \<Rightarrow> t | None \<Rightarrow> 0); vm = vm_name i
          in \<lparr>row_id = dec_u64 i, row_repo = sanitize_for_log (env_repo env), row_name = name,
              row_labels = labels, row_run_id = rid,
              row_enqueued_ms = None, row_claimed_ms = Some claimed_ms,
              row_age_secs = age_secs now_ms claimed_ms, row_vm = Some vm,
              row_vm_status = (case map_of (snapshot_vms snap) vm of Some status \<Rightarrow> status | None \<Rightarrow> None)\<rparr>)"

text \<open>The body of the loop for one directory entry.\<close>

definition active_row ::
    "crates \<Rightarrow> control_state \<Rightarrow> bucket \<Rightarrow> systime \<Rightarrow> vm_snapshot \<Rightarrow> path \<Rightarrow> fsys \<Rightarrow> string \<Rightarrow> job_summary option"
where
  "active_row C st bkt at_now snap dir fs s =
     (if \<not> valid_utf8 s then None
      else
     (case parse_spool_filename s of
        None \<Rightarrow> None
      | Some i \<Rightarrow>
        (let p = join dir s;
             mtime_ms = (case sys_lstat p fs of Inl _ \<Rightarrow> None | Inr md \<Rightarrow> Some (ms_since_epoch (imtime md)))
         in case read_spool_file C p fs of
              Inl _ \<Rightarrow> None
            | Inr (env, body) \<Rightarrow>
               (case bkt of
                  Queued \<Rightarrow> queued_row C st (ms_since_epoch at_now) mtime_ms i s env body fs
                | InFlight \<Rightarrow> Some (in_flight_row C snap (ms_since_epoch at_now) mtime_ms i env body)))))"

section \<open>Lists\<close>

text \<open>
  A walk over a directory that stops when its budget is used up.  The budget is looked at before the
  next entry is asked for; the flag tells that the walk stopped on it.
\<close>

fun walk_entries :: "(string \<Rightarrow> 'a option) \<Rightarrow> nat \<Rightarrow> nat \<Rightarrow> string list \<Rightarrow> 'a list \<times> nat \<times> bool" where
  "walk_entries f cap examined [] = ([], examined, cap \<le> examined)"
| "walk_entries f cap examined (n # ns) =
     (if cap \<le> examined then ([], examined, True)
      else (case walk_entries f cap (Suc examined) ns of
              (out, examined', capped) \<Rightarrow>
                ((case f n of None \<Rightarrow> out | Some x \<Rightarrow> x # out), examined', capped)))"

definition list_active ::
    "crates \<Rightarrow> control_state \<Rightarrow> bucket \<Rightarrow> systime \<Rightarrow> vm_snapshot \<Rightarrow> fsys \<Rightarrow> job_summary list \<times> bool" where
  "list_active C st bkt at_now snap fs =
     (let dir = (case bkt of Queued \<Rightarrow> new_dir (ctl_spool st) | InFlight \<Rightarrow> cur_dir (ctl_spool st))
      in case sys_read_dir dir fs of
           Inl _ \<Rightarrow> ([], False)
         | Inr (names, _) \<Rightarrow>
             (case walk_entries (active_row C st bkt at_now snap dir fs) ACTIVE_CAP 0 names of
                (out, _, truncated) \<Rightarrow> (out, truncated)))"

record completed_summary =
  fin_id :: string
  fin_repo :: "string option"
  fin_name :: "string option"
  fin_outcome :: string
  fin_finished_ms :: nat
  fin_reason :: "string option"

type_synonym archived_entry = "u64 \<times> string \<times> nat \<times> path"

definition window_entry :: "path \<Rightarrow> string \<Rightarrow> systime option \<Rightarrow> fsys \<Rightarrow> string \<Rightarrow> archived_entry option" where
  "window_entry dir outcome cutoff fs s =
     (if \<not> valid_utf8 s then None
      else
     (case parse_spool_filename s of
        None \<Rightarrow> None
      | Some i \<Rightarrow>
     (case sys_lstat (join dir s) fs of
        Inl _ \<Rightarrow> None
      | Inr md \<Rightarrow>
          (case cutoff of
             Some c \<Rightarrow> if imtime md < c then None
                       else Some (i, outcome, ms_since_epoch (imtime md), join dir s)
           | None \<Rightarrow> Some (i, outcome, ms_since_epoch (imtime md), join dir s)))))"

definition collect_window ::
    "path \<Rightarrow> string \<Rightarrow> systime option \<Rightarrow> fsys \<Rightarrow> archived_entry list \<Rightarrow> nat \<Rightarrow> archived_entry list \<times> nat \<times> bool"
where
  "collect_window dir outcome cutoff fs out scanned =
     (case sys_read_dir dir fs of
        Inl _ \<Rightarrow> (out, scanned, False)
      | Inr (names, _) \<Rightarrow>
          (case walk_entries (window_entry dir outcome cutoff fs) COMPLETED_SCAN_CAP scanned names of
             (found, scanned', capped) \<Rightarrow> (out @ found, scanned', capped)))"

text \<open>\<open>tokio\<close>'s \<open>take(n).read_to_end\<close> reads at most \<open>n\<close> bytes.\<close>

definition err_first_line :: "path \<Rightarrow> fsys \<Rightarrow> string option" where
  "err_first_line job_path fs =
     (let p = join (butlast job_path) (last job_path @ ''.err'') in
      case sys_open_nofollow p fs of
        Inl _ \<Rightarrow> None
      | Inr f \<Rightarrow>
     (case sys_fstat p f fs of
        Inl _ \<Rightarrow> None
      | Inr md \<Rightarrow>
        if ikind md \<noteq> Regular then None
        else
     (case sys_read p f fs of
        Inl _ \<Rightarrow> None
      | Inr content \<Rightarrow>
          (let text = from_utf8_lossy (take MAX_ERR_PREVIEW_BYTES content);
               line = trim (case str_lines text of [] \<Rightarrow> [] | l # _ \<Rightarrow> l)
           in if line = [] then None else Some (sanitize_for_log line)))))"

definition completed_row :: "crates \<Rightarrow> fsys \<Rightarrow> archived_entry \<Rightarrow> completed_summary" where
  "completed_row C fs e =
     (case e of (i, outcome, finished_ms, p) \<Rightarrow>
       (let (repo, name) = (case read_spool_file C p fs of
                              Inr (env, body) \<Rightarrow>
                                (Some (sanitize_for_log (env_repo env)), fst (parse_display_fields C body))
                            | Inl _ \<Rightarrow> (None, None))
        in \<lparr>fin_id = dec_u64 i, fin_repo = repo, fin_name = name, fin_outcome = outcome,
            fin_finished_ms = finished_ms,
            fin_reason = (if outcome = ''error'' then err_first_line p fs else None)\<rparr>))"

text \<open>\<open>sort_by_key\<close> is stable, and so is \<open>sort_key\<close>.\<close>

definition list_completed :: "crates \<Rightarrow> spool \<Rightarrow> systime \<Rightarrow> fsys \<Rightarrow> completed_summary list \<times> bool" where
  "list_completed C s at_now fs =
     (let cutoff = systime_checked_sub at_now (secs COMPLETED_WINDOW_SECS) in
      case collect_window (done_dir s) ''done'' cutoff fs [] 0 of
        (found, scanned, capped) \<Rightarrow>
      (case collect_window (error_dir s) ''error'' cutoff fs found scanned of
         (found', _, capped') \<Rightarrow>
           let sorted = sort_key (\<lambda>(_, _, finished_ms, _). - int finished_ms) found'
           in (map (completed_row C fs) (take COMPLETED_CAP sorted),
               COMPLETED_CAP < length sorted \<or> capped \<or> capped')))"

section \<open>The endpoints\<close>

record status =
  st_paused :: bool
  st_in_flight :: nat
  st_max_concurrency :: nat

definition control_status :: "control_state \<Rightarrow> 'e world \<Rightarrow> status" where
  "control_status st w =
     \<lparr>st_paused = paused w, st_in_flight = ctl_max_concurrency st - permits w,
      st_max_concurrency = ctl_max_concurrency st\<rparr>"

definition pause :: "control_state \<Rightarrow> 'e world \<Rightarrow> status \<times> 'e world" where
  "pause st w = (let w' = w\<lparr>paused := True\<rparr> in (control_status st w', w'))"

definition resume :: "control_state \<Rightarrow> 'e world \<Rightarrow> status \<times> 'e world" where
  "resume st w = (let w' = w\<lparr>paused := False\<rparr> in (control_status st w', w'))"

definition orphan_vm_names :: "vm_snapshot \<Rightarrow> string set \<Rightarrow> string list" where
  "orphan_vm_names snap claimed = sort (filter (\<lambda>n. n \<notin> claimed) (map fst (snapshot_vms snap)))"

record jobs_response =
  rsp_queued :: "job_summary list"
  rsp_in_flight :: "job_summary list"
  rsp_completed :: "completed_summary list"
  rsp_completed_window_hours :: nat
  rsp_queued_truncated :: bool
  rsp_in_flight_truncated :: bool
  rsp_completed_truncated :: bool
  rsp_vm_snapshot_ms :: "nat option"
  rsp_orphan_vms :: "string list"

definition control_jobs :: "crates \<Rightarrow> control_state \<Rightarrow> fsys \<Rightarrow> jobs_response" where
  "control_jobs C st fs =
     (let snap = ctl_vms st;
          (queued, queued_truncated) = list_active C st Queued (clock fs) snap fs;
          (in_flight, in_flight_truncated) = list_active C st InFlight (clock fs) snap fs;
          (completed, completed_truncated) = list_completed C (ctl_spool st) (clock fs) fs;
          claimed = set (List.map_filter row_vm in_flight)
      in \<lparr>rsp_queued = queued, rsp_in_flight = in_flight, rsp_completed = completed,
          rsp_completed_window_hours = COMPLETED_WINDOW_SECS div 3600,
          rsp_queued_truncated = queued_truncated, rsp_in_flight_truncated = in_flight_truncated,
          rsp_completed_truncated = completed_truncated,
          rsp_vm_snapshot_ms = (if taken_ms snap \<noteq> 0 then Some (taken_ms snap) else None),
          rsp_orphan_vms = orphan_vm_names snap claimed\<rparr>)"

end
