(* ===== verification/Supervisor_Status.thy ===== *)
theory Supervisor_Status
  imports Supervisor_Loop Control
begin

text \<open>
  The clean shutdown by hand (the README's section on pausing): \<open>POST /pause\<close>, wait until
  \<open>/status\<close> shows nothing in flight, stop the daemon.  The endpoint (\<open>control.rs\<close>) reads the
  supervisor's own pause flag and semaphore, so what it answers is read off the daemon's state here.
\<close>

section \<open>What the endpoint sees\<close>

text \<open>The \<open>ControlState\<close> that \<open>run\<close> builds shares the flag and the semaphore.\<close>

definition endpoint_sees :: "sup_params \<Rightarrow> sup \<Rightarrow> control_state \<Rightarrow> 'e world \<Rightarrow> bool" where
  "endpoint_sees P s st w \<longleftrightarrow>
     paused w = pause_flag s \<and> permits w = free s \<and> ctl_max_concurrency st = max_concurrency (pr_config P)"

lemma status_shown:
  assumes "endpoint_sees P s st w" and "sup_inv (max_concurrency (pr_config P)) 0 s"
  shows "st_paused (control_status st w) = pause_flag s"
    and "st_in_flight (control_status st w) = jobs s + dispatch_holds (dispatch_at s) + reconcile_holds (reconcile_at s)
           + drain_holds (max_concurrency (pr_config P)) (shutdown_at s) (waiters s)"
  using assms by (auto simp: control_status_def endpoint_sees_def sup_inv_def)

lemma no_drain_waiter: "\<forall>k. DrainWaiter k \<notin> set ws \<Longrightarrow> sh \<noteq> Drained \<Longrightarrow> drain_holds n sh ws = 0"
  by (induction n sh ws rule: drain_holds.induct) auto

text \<open>While a drain waits it has all the permits that were free, so the status shows every permit taken.\<close>

lemma draining_shows_full:
  assumes "endpoint_sees P s st w" and "sup_inv (max_concurrency (pr_config P)) 0 s" and "shutdown_at s = Draining"
  shows "st_in_flight (control_status st w) = max_concurrency (pr_config P)"
proof -
  from assms(2,3) obtain k where "DrainWaiter k \<in> set (waiters s)" by (auto simp: sup_inv_def)
  then have "free s = 0" using assms(2) by (auto simp: sup_inv_def)
  then show ?thesis using assms(1) by (simp add: control_status_def endpoint_sees_def)
qed

text \<open>The handler of \<open>/pause\<close> is the machine's step.\<close>

lemma pause_is_control:
  assumes "endpoint_sees P s st w" and "open_for_steps s"
  shows "env_step P s (s\<lparr>pause_flag := True\<rparr>) \<and> endpoint_sees P (s\<lparr>pause_flag := True\<rparr>) st (snd (pause st w))
       \<and> st_paused (fst (pause st w))"
  using assms env_step.control [of s P True] by (simp add: pause_def Let_def endpoint_sees_def control_status_def)

section \<open>Idle stays idle\<close>

text \<open>A step during which nobody resumes.\<close>

definition unresumed :: "sup_params \<Rightarrow> sup \<Rightarrow> sup \<Rightarrow> bool" where
  "unresumed P s s' \<longleftrightarrow> daemon_step P s s' \<and> (pause_flag s \<longrightarrow> pause_flag s')"

definition paused_idle :: "sup \<Rightarrow> bool" where
  "paused_idle s \<longleftrightarrow> pause_flag s \<and> jobs s = 0 \<and> committed s = 0"

lemma env_step_idle:
  assumes "env_step P s s'"
  shows "jobs s' = jobs s \<and> committed s' = committed s"
  using assms by cases (simp_all add: committed_def begin_drain_def acquire_many_def)

interpretation idle: step_system paused_idle "unresumed P" paused_idle for P
proof (unfold_locales, goal_cases)
  case (2 s s')
  then consider "own_step P s s'" | "env_step P s s'" unfolding unresumed_def daemon_step_def by blast
  then show ?case
  proof cases
    case 1
    with paused_own_step [OF 1] 2(1) show ?thesis by (simp add: paused_idle_def)
  next
    case 2
    with env_step_idle [OF this] \<open>unresumed P s s'\<close> \<open>paused_idle s\<close> show ?thesis
      by (simp add: paused_idle_def unresumed_def)
  qed
qed

lemma zero_is_idle:
  assumes "endpoint_sees P s st w" and "sup_inv (max_concurrency (pr_config P)) 0 s"
    and "st_paused (control_status st w)" and "st_in_flight (control_status st w) = 0"
  shows "paused_idle s"
proof -
  have "dispatch_holds (dispatch_at s) = 0" "reconcile_holds (reconcile_at s) = 0" "jobs s = 0" "pause_flag s"
    using status_shown [OF assms(1,2)] assms(3,4) by simp_all
  then show ?thesis
    by (cases "dispatch_at s"; cases "reconcile_at s") (simp_all add: paused_idle_def committed_def holds_defs)
qed

section \<open>The wait ends\<close>

lemma paused_empties:
  assumes "sup_inv n 0 s" and "shutdown_at s = Serving" and "pause_flag s"
  shows "\<exists>s'. (own_step P)\<^sup>*\<^sup>* s s' \<and> shutdown_at s' = Serving \<and> pause_flag s' \<and> free s' = n"
  using assms
proof (induction "drain_work s" arbitrary: s rule: less_induct)
  case less
  let ?held = "jobs s + dispatch_holds (dispatch_at s) + reconcile_holds (reconcile_at s)"
  have w: "\<forall>k. DrainWaiter k \<notin> set (waiters s)" using less.prems(1,2) by (simp add: sup_inv_def)
  show ?case
  proof (cases "?held = 0")
    case True
    with less.prems no_drain_waiter [OF w] have "free s = n" by (auto simp: sup_inv_def)
    with less.prems show ?thesis by blast
  next
    case False
    have "open_for_steps s" using less.prems(2) by (simp add: open_for_steps_def)
    from paused_progress [OF this less.prems(3)] False obtain t where t: "own_step P s t" by auto
    from less.hyps [OF _ own_step_inv [OF t less.prems(1)] serving_own_step [OF t less.prems(2) w]]
      paused_own_step [OF t less.prems(3)] t show ?thesis
      by (meson converse_rtranclp_into_rtranclp)
  qed
qed

section \<open>Property\<close>

text \<open>C24: The README's clean shutdown by hand is safe and ends.  While the daemon serves, \<open>/status\<close> counts
  exactly the running jobs and the permits the dispatch loop and the reconciler have in hand; once it shows
  a paused daemon with nothing in flight, no job is running and none starts, in any run in which nobody
  resumes; after \<open>/pause\<close> the daemon's own steps do lead to that answer.  During a drain started by a
  signal the number is the full concurrency, whatever is still running.\<close>

theorem pause_then_wait_is_safe:
  assumes "reachable P s" and "max_concurrency (pr_config P) < 2 ^ 32" and "endpoint_sees P s st w"
  shows "(shutdown_at s = Serving \<longrightarrow> st_in_flight (control_status st w)
            = length (running s) + dispatch_holds (dispatch_at s) + reconcile_holds (reconcile_at s))
       \<and> (shutdown_at s = Draining \<longrightarrow> st_in_flight (control_status st w) = max_concurrency (pr_config P))
       \<and> (st_paused (control_status st w) \<and> st_in_flight (control_status st w) = 0 \<and> (unresumed P)\<^sup>*\<^sup>* s s'
            \<longrightarrow> running s' = [])
       \<and> (shutdown_at s = Serving \<longrightarrow>
            st_paused (fst (pause st w)) \<and> env_step P s (s\<lparr>pause_flag := True\<rparr>)
            \<and> (\<exists>t. (own_step P)\<^sup>*\<^sup>* (s\<lparr>pause_flag := True\<rparr>) t
                 \<and> (\<forall>v :: 'e world. endpoint_sees P t st v \<longrightarrow> control_status st v
                      = \<lparr>st_paused = True, st_in_flight = 0, st_max_concurrency = max_concurrency (pr_config P)\<rparr>)))"
proof (intro conjI impI; (elim conjE)?)
  let ?n = "max_concurrency (pr_config P)"
  have inv: "sup_inv ?n 0 s" by (rule reachable_inv [OF assms(1,2)])
  note shown = status_shown [OF assms(3) inv]
  show "st_in_flight (control_status st w) = length (running s) + dispatch_holds (dispatch_at s) + reconcile_holds (reconcile_at s)"
    if "shutdown_at s = Serving"
    using that shown(2) no_drain_waiter [of "waiters s" "shutdown_at s" ?n] inv by (simp add: sup_inv_def jobs_def)
  show "st_in_flight (control_status st w) = ?n" if "shutdown_at s = Draining"
    by (rule draining_shows_full [OF assms(3) inv that])
  show "running s' = []" if "st_paused (control_status st w)" "st_in_flight (control_status st w) = 0" "(unresumed P)\<^sup>*\<^sup>* s s'"
    using idle.steps_inv [OF that(3)] zero_is_idle [OF assms(3) inv that(1,2)] by (simp add: paused_idle_def jobs_def)
  assume serving: "shutdown_at s = Serving"
  then have o: "open_for_steps s" by (simp add: open_for_steps_def)
  show "st_paused (fst (pause st w))" "env_step P s (s\<lparr>pause_flag := True\<rparr>)"
    using pause_is_control [OF assms(3) o] by blast+
  have i: "sup_inv ?n 0 (s\<lparr>pause_flag := True\<rparr>)" using inv by (simp add: sup_inv_def)
  obtain t where t: "(own_step P)\<^sup>*\<^sup>* (s\<lparr>pause_flag := True\<rparr>) t" "pause_flag t" "free t = ?n"
    using paused_empties [OF i, of P] serving by auto
  then show "\<exists>t. (own_step P)\<^sup>*\<^sup>* (s\<lparr>pause_flag := True\<rparr>) t
      \<and> (\<forall>v :: 'e world. endpoint_sees P t st v \<longrightarrow> control_status st v
           = \<lparr>st_paused = True, st_in_flight = 0, st_max_concurrency = ?n\<rparr>)"
    by (intro exI [of _ t]) (simp add: endpoint_sees_def control_status_def)
qed

definition toy_endpoint :: control_state where
  "toy_endpoint = \<lparr>ctl_max_concurrency = 4, ctl_spool = demo_spool, ctl_webhook_secret = ''key'', ctl_allowed_repos = {},
     ctl_runner_labels = {}, ctl_runner_label = ''lima-nix'', ctl_vms = default_snapshot\<rparr>"

text \<open>One permit in hand and a drain that waits: four in flight, and no job.\<close>

theorem pause_then_wait_is_safe_witness:
  "st_in_flight (control_status toy_endpoint ((toy_world [])\<lparr>permits := 0, paused := True\<rparr>)) = 4 \<and> running draining_sup = []"
proof -
  have c: "max_concurrency (pr_config toy_params) = 4" by (simp add: toy_params_def toy_config_def)
  have e: "endpoint_sees toy_params draining_sup toy_endpoint ((toy_world [])\<lparr>permits := 0, paused := True\<rparr>)"
    by (simp add: endpoint_sees_def draining_sup_def toy_endpoint_def c)
  have d: "shutdown_at draining_sup = Draining" "running draining_sup = []" by (simp_all add: draining_sup_def toy_sup_def)
  from pause_then_wait_is_safe [OF draining_sup_reachable _ e] c d show ?thesis by simp
qed

end
