(* ===== verification/Startup_Reap.thy ===== *)
theory Startup_Reap
  imports Gc_Sweep
begin

text \<open>
  The reap at startup as a whole (\<open>gc.rs: reap_all_managed_vms_at_startup, delete_with_retry\<close>): what
  becomes of the VMs and of the claims a previous daemon left behind.
\<close>

section \<open>What is asked of limactl\<close>

text \<open>The files stay; the clock may go on.\<close>

definition same_files :: "fsys \<Rightarrow> fsys \<Rightarrow> bool" where
  "same_files fs fs' \<longleftrightarrow> nodes fs' = nodes fs \<and> fault fs' = fault fs"

lemma same_files_refl [simp]: "same_files fs fs"
  by (simp add: same_files_def)

lemma same_files_trans [trans]: "same_files a b \<Longrightarrow> same_files b c \<Longrightarrow> same_files a c"
  by (simp add: same_files_def)

lemma same_files_get: "same_files fs fs' \<Longrightarrow> get fs' p = get fs p"
  by (simp add: same_files_def get_def)

lemma same_files_healthy: "same_files fs fs' \<Longrightarrow> healthy fs' = healthy fs"
  by (simp add: same_files_def healthy_def no_faults_def regular_only_def get_def)

text \<open>
  Stopping, deleting, listing and waiting make no VM (\<open>calm\<close> is one such call), a clean delete and a
  clean listing tell the truth, and the files of the daemon are not theirs.
\<close>

definition calm :: "(string \<Rightarrow> 'e \<Rightarrow> bool) \<Rightarrow> 'e world \<Rightarrow> 'e world \<Rightarrow> bool" where
  "calm has v v' \<longleftrightarrow> same_files (disk v) (disk v') \<and> (\<forall>n. has n (machine v') \<longrightarrow> has n (machine v))"

definition lima_lawful :: "'e services \<Rightarrow> (string \<Rightarrow> 'e \<Rightarrow> bool) \<Rightarrow> bool" where
  "lima_lawful S has \<longleftrightarrow>
     (\<forall>n v. delete_truthful S (\<lambda>n x. has n (machine x)) n v \<and> list_truthful S (\<lambda>n x. has n (machine x)) n v)
     \<and> (\<forall>argv t v. take 1 argv \<in> {[''stop''], [''delete''], [''list'']} \<longrightarrow> calm has v (snd (limactl S argv t v)))
     \<and> (\<forall>k v. calm has v (sleep S k v))"

lemma calm_refl [simp]: "calm has v v"
  by (simp add: calm_def)

lemma calm_trans [trans]: "calm has a b \<Longrightarrow> calm has b c \<Longrightarrow> calm has a c"
  by (auto simp: calm_def intro: same_files_trans)

lemma calm_gone: "calm has v v' \<Longrightarrow> \<not> has n (machine v) \<Longrightarrow> \<not> has n (machine v')"
  by (auto simp: calm_def)

lemma calm_limactl:
  "lima_lawful S has \<Longrightarrow> take 1 argv \<in> {[''stop''], [''delete''], [''list'']} \<Longrightarrow> calm has v (snd (limactl S argv t v))"
  unfolding lima_lawful_def by blast

lemma calm_stop: "lima_lawful S has \<Longrightarrow> calm has v (snd (lima_stop S n v))"
  using calm_limactl [of S has "[''stop'', ''--force'', n]" v STOP_TIMEOUT]
  by (simp add: lima_stop_def run_with_timeout_def case_prod_beta split: cmd_result.split sum.split)

lemma calm_list: "lima_lawful S has \<Longrightarrow> calm has v (snd (list_instances S v))"
  using calm_limactl [of S has "[''list'', ''--json'']" v LIST_TIMEOUT]
  by (simp add: list_instances_def list_instances_detailed_def case_prod_beta split: cmd_result.split sum.split)

lemma calm_delete:
  assumes "lima_lawful S has"
  shows "calm has v (snd (lima_delete S n v))"
proof -
  have d: "calm has v (snd (limactl S [''delete'', ''--force'', n] DELETE_TIMEOUT v))"
    using assms by (rule calm_limactl) simp
  have e: "calm has x (snd (instance_exists S n x))" for x
    using calm_list [OF assms, of x] by (simp add: instance_exists_def case_prod_beta split: sum.split)
  show ?thesis
    by (rule lima_delete_cases [of S n v]) (use d calm_trans [OF d] e in \<open>fastforce+\<close>)
qed

lemma delete_gone:
  "lima_lawful S has \<Longrightarrow> fst (lima_delete S n v) = Inr () \<Longrightarrow> \<not> has n (machine (snd (lima_delete S n v)))"
  using lima_delete_gone [where has_vm = "\<lambda>n x. has n (machine x)"] unfolding lima_lawful_def by blast

section \<open>The deletes\<close>

lemma delete_attempts_calm:
  assumes "lima_lawful S has"
  shows "calm has w (snd (delete_attempts k S n e w))
       \<and> (fst (delete_attempts k S n e w) = Inr () \<longrightarrow> \<not> has n (machine (snd (delete_attempts k S n e w))))"
proof (induction k arbitrary: e w)
  case (Suc k)
  obtain r w1 where d: "lima_delete S n w = (r, w1)" by fastforce
  then have c: "calm has w w1" using calm_delete [OF assms, of w n] by simp
  show ?case
  proof (cases r)
    case (Inr u)
    with d c delete_gone [OF assms, of n w] show ?thesis by simp
  next
    case (Inl x)
    let ?w2 = "if k = 0 then w1 else sleep S STARTUP_DELETE_BACKOFF w1"
    have "calm has w1 ?w2" using assms by (simp add: lima_lawful_def)
    with c have "calm has w ?w2" by (rule calm_trans)
    with Suc.IH [where w = ?w2 and e = "Some x"] d Inl show ?thesis by (auto intro: calm_trans)
  qed
qed (simp split: option.split)

definition managed_names :: "(string \<times> path option) list \<Rightarrow> string set" where
  "managed_names instances = {n \<in> fst ` set instances. is_managed_vm_name n}"

lemma delete_with_retry_calm:
  assumes "lima_lawful S has"
  shows "calm has w (snd (delete_with_retry S n w))"
    and "fst (delete_with_retry S n w) = Inr () \<Longrightarrow> \<not> has n (machine (snd (delete_with_retry S n w)))"
  using delete_attempts_calm [OF assms] by (simp_all add: delete_with_retry_def)

lemma reap_instances_spec:
  assumes "lima_lawful S has"
  shows "reap_instances S instances listed failed w = (listed', failed', w') \<Longrightarrow>
    calm has w w' \<and> listed' = listed \<union> managed_names instances
    \<and> failed \<subseteq> failed' \<and> failed' \<subseteq> failed \<union> managed_names instances
    \<and> (\<forall>n \<in> managed_names instances - failed'. \<not> has n (machine w'))"
proof (induction instances arbitrary: listed failed w)
  case (Cons x instances)
  obtain name d where x: "x = (name, d)" by fastforce
  show ?case
  proof (cases "is_managed_vm_name name")
    case False
    then have "managed_names (x # instances) = managed_names instances" by (auto simp: managed_names_def x)
    with False Cons show ?thesis by (simp add: x)
  next
    case True
    then have m: "managed_names (x # instances) = insert name (managed_names instances)"
      by (auto simp: managed_names_def x)
    let ?w1 = "snd (lima_stop S name w)"
    obtain r w2 where r: "delete_with_retry S name ?w1 = (r, w2)" by fastforce
    note dr = delete_with_retry_calm [where w = ?w1 and n = name, OF assms, unfolded r, simplified]
    have c: "calm has w w2" using calm_stop [OF assms] dr(1) by (rule calm_trans)
    show ?thesis
    proof (cases r)
      case (Inr u)
      with Cons.prems True r have "reap_instances S instances (insert name listed) failed w2 = (listed', failed', w')"
        by (simp add: x Let_def)
      note IH = Cons.IH [OF this]
      have "\<not> has name (machine w')" using IH dr(2) Inr calm_gone by auto
      with IH m c calm_trans [OF c] show ?thesis by auto
    next
      case (Inl e)
      with Cons.prems True r have "reap_instances S instances (insert name listed) (insert name failed) w2 = (listed', failed', w')"
        by (simp add: x Let_def)
      note IH = Cons.IH [OF this]
      with IH m c calm_trans [OF c] show ?thesis by auto
    qed
  qed
qed (simp add: managed_names_def)

section \<open>The claims\<close>

lemma live_map_entries:
  assumes "live_vm_map_from_cur cur fs = Inr m"
  shows "distinct (map fst m)"
    and "(vm, p) \<in> set m \<Longrightarrow> \<exists>n i. vm = vm_name i \<and> p = join cur n \<and> claim_entry cur fs n = Some i \<and> get fs p \<noteq> None"
proof -
  have m: "m = fold (add_claim cur fs) (children cur fs) []"
    using assms by (auto simp: live_vm_map_from_cur_def sys_read_dir_def split: option.splits)
  have "distinct (map fst (fold (add_claim cur fs) names a))" if "distinct (map fst a)" for names a
    using that by (induction names arbitrary: a) (simp_all add: add_claim_def distinct_update split: option.split)
  then show d: "distinct (map fst m)" by (simp add: m)
  show "\<exists>n i. vm = vm_name i \<and> p = join cur n \<and> claim_entry cur fs n = Some i \<and> get fs p \<noteq> None" if "(vm, p) \<in> set m"
  proof -
    from live_map_cases(1) [OF assms] that obtain i where "vm = vm_name i" by force
    moreover with d that have "map_of m (vm_name i) = Some p" by simp
    ultimately show ?thesis using live_map_path [OF assms] by blast
  qed
qed

text \<open>Each file is the claim of one VM.\<close>

lemma live_map_paths:
  assumes "live_vm_map_from_cur cur fs = Inr m"
  shows "distinct (map snd m)"
proof -
  have "vm = vm'" if "(vm, p) \<in> set m" "(vm', p) \<in> set m" for vm vm' p
    using live_map_entries(2) [OF assms that(1)] live_map_entries(2) [OF assms that(2)] by auto
  with live_map_entries(1) [OF assms] show ?thesis by (auto simp: distinct_map inj_on_def)
qed

lemma finalize_all_spec:
  assumes "\<not> has_nul (root s)"
  shows "healthy fs \<Longrightarrow> distinct (map fst fins) \<Longrightarrow>
    (\<And>p r. (p, r) \<in> set fins \<Longrightarrow> \<exists>n. p = cur_path_of s n \<and> \<not> has_nul p \<and> present fs p) \<Longrightarrow>
    (if cur_path_of s n \<in> fst ` set fins
     then get (finalize_all s fins fs) (cur_path_of s n) = None \<and> present (finalize_all s fins fs) (error_path s n)
     else get (finalize_all s fins fs) (cur_path_of s n) = get fs (cur_path_of s n))
    \<and> (present fs (error_path s n) \<longrightarrow> present (finalize_all s fins fs) (error_path s n))"
proof (induction fins arbitrary: fs)
  case (Cons x fins)
  obtain p r where x: "x = (p, r)" by fastforce
  with Cons.prems(3) obtain k where k: "p = cur_path_of s k" "\<not> has_nul (cur_path_of s k)" "present fs (cur_path_of s k)"
    by (metis list.set_intros(1))
  then obtain i where i: "get fs (cur_path_of s k) = Some i" by (auto simp: present_def)
  let ?f = "snd (finalize_error s (cur_path_of s k) (message r) fs)"
  have h: "healthy ?f" using Cons.prems(1) by (rule finalize_error_healthy)
  have other: "get ?f (cur_path_of s j) = get fs (cur_path_of s j)" if "j \<noteq> k" for j
    using finalize_error_cur_other [OF Cons.prems(1) that] .
  have moved: "get ?f (cur_path_of s k) = None" "present ?f (error_path s k)"
    using finalize_moves_state [OF Cons.prems(1) i k(2) assms, of "message r"] by (simp_all add: present_def)
  have err: "present ?f (error_path s n)" if "present fs (error_path s n)"
    by (rule finalize_keeps_other(2) [OF Cons.prems(1) that]) simp
  have IH: "(if cur_path_of s n \<in> fst ` set fins
      then get (finalize_all s fins ?f) (cur_path_of s n) = None \<and> present (finalize_all s fins ?f) (error_path s n)
      else get (finalize_all s fins ?f) (cur_path_of s n) = get ?f (cur_path_of s n))
    \<and> (present ?f (error_path s n) \<longrightarrow> present (finalize_all s fins ?f) (error_path s n))"
  proof (rule Cons.IH [OF h])
    show "distinct (map fst fins)" using Cons.prems(2) by simp
    fix q y assume q: "(q, y) \<in> set fins"
    then have "q \<noteq> p" using Cons.prems(2) x by (force simp: image_iff)
    from Cons.prems(3) [of q y] q obtain j where j: "q = cur_path_of s j" "\<not> has_nul q" "present fs q" by auto
    with other [of j] \<open>q \<noteq> p\<close> k(1) show "\<exists>n. q = cur_path_of s n \<and> \<not> has_nul q \<and> present ?f q"
      by (auto simp: present_def)
  qed
  show ?case
  proof (cases "n = k")
    case True
    with Cons.prems(2) have "cur_path_of s n \<notin> fst ` set fins" by (simp add: x k(1))
    with IH moved True show ?thesis by (simp add: x k(1))
  next
    case False
    with IH other [OF False] err show ?thesis by (auto simp: x k(1))
  qed
qed simp

section \<open>The plan for the claims\<close>

text \<open>What is to be finalised are claims of \<open>cur/\<close>, each once.\<close>

lemma planned_claims:
  assumes "live_vm_map_from_cur (cur_dir s) fs = Inr claims" and "same_files fs fs'"
    and "\<And>n. present fs (cur_path_of s n) \<Longrightarrow> \<not> has_nul (cur_path_of s n)"
  shows "(p, x) \<in> set (plan_startup_claim_finalizes claims listed failed) \<Longrightarrow>
      \<exists>k. p = cur_path_of s k \<and> \<not> has_nul p \<and> present fs' p"
    and "distinct (map fst (plan_startup_claim_finalizes claims listed failed))"
proof -
  assume "(p, x) \<in> set (plan_startup_claim_finalizes claims listed failed)"
  then obtain u where "(u, p) \<in> set claims" by (auto simp: plan_startup_map)
  from live_map_entries(2) [OF assms(1) this] assms(3) show "\<exists>k. p = cur_path_of s k \<and> \<not> has_nul p \<and> present fs' p"
    by (auto simp: present_def same_files_get [OF assms(2)])
next
  have e: "map fst (plan_startup_claim_finalizes claims listed failed) = map snd (filter (\<lambda>(vm, _). vm \<notin> failed) claims)"
    by (simp add: plan_startup_map case_prod_beta comp_def)
  show "distinct (map fst (plan_startup_claim_finalizes claims listed failed))"
    unfolding e using live_map_paths [OF assms(1)] by (rule distinct_map_filter)
qed

text \<open>A claim is in the plan unless a delete of its VM failed.\<close>

lemma planned_iff:
  assumes "live_vm_map_from_cur (cur_dir s) fs = Inr claims" and "(vm, cur_path_of s n) \<in> set claims"
  shows "cur_path_of s n \<in> fst ` set (plan_startup_claim_finalizes claims listed failed) \<longleftrightarrow> vm \<notin> failed"
proof -
  let ?fins = "plan_startup_claim_finalizes claims listed failed"
  have u: "u = vm" if "(u, cur_path_of s n) \<in> set claims" for u
  proof -
    from live_map_entries(2) [OF assms(1) that] obtain i where
      "u = vm_name i" "claim_entry (cur_dir s) fs n = Some i" by auto
    moreover from live_map_entries(2) [OF assms(1,2)] obtain j where
      "vm = vm_name j" "claim_entry (cur_dir s) fs n = Some j" by auto
    ultimately show ?thesis by simp
  qed
  have "cur_path_of s n \<in> fst ` set ?fins \<longleftrightarrow> (\<exists>r. (cur_path_of s n, r) \<in> set ?fins)" by force
  also have "\<dots> \<longleftrightarrow> vm \<notin> failed"
    unfolding startup_finalizes_all_but_failed using u assms(2) by blast
  finally show ?thesis .
qed

text \<open>A VM that the listing does not show does not exist, now or after the reap.\<close>

lemma unlisted_gone:
  assumes "lima_lawful S has_vm" and "list_instances S w = (Inr instances, w1)" and "vm \<notin> fst ` set instances" and "calm has_vm w1 w2"
  shows "\<not> has_vm vm (machine w2)"
proof -
  have "list_truthful S (\<lambda>n x. has_vm n (machine x)) vm w" using assms(1) by (simp add: lima_lawful_def)
  with assms(2,3) have "\<not> has_vm vm (machine w1)"
    by (auto simp: list_instances_def list_instances_detailed_def list_truthful_def image_image
        split: prod.splits cmd_result.splits sum.splits if_splits)
  with assms(4) calm_gone show ?thesis by blast
qed

section \<open>Property\<close>


text \<open>A machine with the VM of the claim; its listing works as long as it holds no other names.\<close>

definition reap_limactl :: "string list \<Rightarrow> nat \<Rightarrow> string list world \<Rightarrow> cmd_result \<times> string list world" where
  "reap_limactl argv deadline w =
     (if take 1 argv = [''list''] \<and> machine w \<noteq> [] \<and> machine w \<noteq> [''gha-0000000000000007'']
      then (Exited 1 [] [], w) else toy_limactl argv deadline w)"

definition reap_services :: "string list services" where
  "reap_services = toy_services\<lparr>limactl := reap_limactl\<rparr>"

lemma reap_services_lawful: "lima_lawful reap_services (\<lambda>n vms. n \<in> set vms)"
proof -
  have m: "calm (\<lambda>n vms. n \<in> set vms) v (snd (reap_limactl argv t v))" for argv t v
    by (simp add: calm_def reap_limactl_def toy_limactl_def)
  have l: "li_name ` set (parse_list_json (the_crates reap_services) (''gha-0000000000000007'' @ [CHR 0x0A])) = {''gha-0000000000000007''}"
    "parse_list_json (the_crates reap_services) [] = []"
    by code_simp+
  have "list_truthful reap_services (\<lambda>n x. n \<in> set (machine x)) n v" for n v
    using l by (auto simp: list_truthful_def reap_services_def reap_limactl_def toy_limactl_def)
  moreover have "delete_truthful reap_services (\<lambda>n x. n \<in> set (machine x)) n v" for n v
    by (simp add: delete_truthful_def reap_services_def reap_limactl_def toy_limactl_def)
  moreover have "calm (\<lambda>n vms. n \<in> set vms) v (sleep reap_services k v)" for k v
    by (simp add: reap_services_def toy_services_def)
  ultimately show ?thesis using m by (simp add: lima_lawful_def reap_services_def)
qed

definition left_behind :: "string list world" where
  "left_behind = (toy_world [''gha-0000000000000007''])\<lparr>disk := claimed_seven\<rparr>"


end
