(* ===== verification/Runner_Properties.thy ===== *)
theory Runner_Properties
  imports Service_Frame
begin

text \<open>
  What a job promises: where its registration may be sent, how the registration is stored, that
  nothing of it is left behind, that its claim is settled, and that the race with the watchdog ends
  and only ever kills a runner that never picked up a job.
\<close>

section \<open>Files of a job\<close>

lemma write_private_get_other: "q \<noteq> p \<Longrightarrow> get (snd (write_private_file p b fs)) q = get fs q"
  by (simp add: write_private_file_def case_prod_beta get_create_other get_write_all_other split: sum.split)

lemma write_private_fields [simp]:
  "fault (snd (write_private_file p b fs)) = fault fs" "clock (snd (write_private_file p b fs)) = clock fs"
  by (simp_all add: write_private_file_def case_prod_beta split: sum.split)

lemma write_jit_blob_eq:
  "write_jit_blob p b fs =
     (if fst (sys_unlink p fs) = Inr () \<or> fst (sys_unlink p fs) = Inl NotFound
      then write_private_file p b (snd (sys_unlink p fs))
      else (Inl (Ctx ''remove stale JIT blob'' (IoErr (projl (fst (sys_unlink p fs))))), snd (sys_unlink p fs)))"
  by (cases "sys_unlink p fs") (auto simp: write_jit_blob_def split: sum.split io_kind.split)

lemma write_serial_evidence_snd: "snd (write_serial_evidence p b fs) = snd (write_jit_blob p b fs)"
  by (simp add: write_serial_evidence_def write_jit_blob_def case_prod_beta split: sum.split io_kind.split)

lemma write_jit_blob_other: "q \<noteq> p \<Longrightarrow> get (snd (write_jit_blob p b fs)) q = get fs q"
  by (simp add: write_jit_blob_eq write_private_get_other get_unlink_other)

lemma write_jit_blob_fields [simp]:
  "fault (snd (write_jit_blob p b fs)) = fault fs" "clock (snd (write_jit_blob p b fs)) = clock fs"
  by (simp_all add: write_jit_blob_eq)

lemma unlinked_free:
  "fst (sys_unlink p fs) = Inr () \<or> fst (sys_unlink p fs) = Inl NotFound \<Longrightarrow> no_faults fs \<Longrightarrow>
   get (snd (sys_unlink p fs)) p = None"
  by (auto simp: sys_unlink_def no_faults_def split: option.splits if_splits)

lemma write_private_Inr:
  assumes "write_private_file p b fs = (Inr (), fs')"
  shows "get fs' p = Some \<lparr>ikind = Regular, idata = b, imtime = clock fs, imode = 0x180, iuid = euid fs\<rparr>"
proof -
  from assms obtain f1 where c: "sys_create_new p 0x180 fs = (Inr (), f1)"
    "sys_write_all p b f1 = (Inr (), fs')"
    by (auto simp: write_private_file_def split: prod.splits sum.splits)
  from c(1) have f1: "f1 = put p \<lparr>ikind = Regular, idata = [], imtime = clock fs, imode = 0x180, iuid = euid fs\<rparr> fs"
    by (auto simp: sys_create_new_def split: option.splits)
  with c(2) show ?thesis by (auto simp: sys_write_all_def split: option.splits)
qed

lemma write_private_free:
  assumes "no_faults fs" and "get fs p = None"
  shows "fst (write_private_file p b fs) = Inr ()"
  using assms by (simp add: write_private_file_def sys_create_new_def sys_write_all_def no_faults_def)

lemma unlink_directory:
  "no_faults fs \<Longrightarrow>
   fst (sys_unlink p fs) \<noteq> Inr () \<and> fst (sys_unlink p fs) \<noteq> Inl NotFound \<longleftrightarrow> map_option ikind (get fs p) = Some Directory"
  by (simp add: sys_unlink_def no_faults_def split: option.split)

section \<open>Frames of the properties\<close>

text \<open>Nobody else touches the file at \<open>p\<close>, and the disk does not start to fail.\<close>

definition untouched :: "path \<Rightarrow> 'e world \<Rightarrow> 'e world \<Rightarrow> bool" where
  "untouched p w w' \<longleftrightarrow> fault (disk w') = fault (disk w) \<and> get (disk w') p = get (disk w) p"

definition blob_ok :: "path \<Rightarrow> 'e world \<Rightarrow> bool" where
  "blob_ok p w \<longleftrightarrow> no_faults (disk w) \<and> map_option ikind (get (disk w) p) \<noteq> Some Directory"

lemma logs_not_jit: "join (join (state_dir c) ''logs'') n \<noteq> jit_path c vm"
  by (simp add: jit_path_def)

lemma blob_kept:
  assumes "blob_ok p w"
  shows "blob_ok p (snd (on_disk (write_jit_blob q b) w))" and "blob_ok p (snd (on_disk (sys_unlink q) w))"
proof -
  from assms have nf: "no_faults (disk w)" by (simp add: blob_ok_def)
  show "blob_ok p (snd (on_disk (sys_unlink q) w))"
    using assms by (cases "q = p") (auto simp: blob_ok_def no_faults_def get_unlink_other sys_unlink_def split: option.split)
  show "blob_ok p (snd (on_disk (write_jit_blob q b) w))"
  proof (cases "q = p")
    case False
    with assms show ?thesis by (simp add: blob_ok_def no_faults_def write_jit_blob_other)
  next
    case True
    from assms True unlink_directory [OF nf, of q]
    have u: "fst (sys_unlink q (disk w)) = Inr () \<or> fst (sys_unlink q (disk w)) = Inl NotFound"
      by (auto simp: blob_ok_def)
    let ?f = "snd (sys_unlink q (disk w))"
    have f: "no_faults ?f" "get ?f q = None" using unlinked_free [OF u nf] nf by (simp_all add: no_faults_def)
    then obtain f' where "write_private_file q b ?f = (Inr (), f')"
      using write_private_free [OF f, of b] by (metis prod.collapse)
    with write_private_Inr [OF this] True nf u show ?thesis
      by (simp add: blob_ok_def write_jit_blob_eq no_faults_def) (metis snd_conv write_private_fields(1) sys_fields(3))
  qed
qed

lemma blob_frame:
  assumes "framed S (untouched (jit_path c vm))"
  shows "job_frame S c vm (\<lambda>w w'. blob_ok (jit_path c vm) w \<longrightarrow> blob_ok (jit_path c vm) w')"
proof -
  have i: "untouched (jit_path c vm) w w' \<Longrightarrow> blob_ok (jit_path c vm) w \<longrightarrow> blob_ok (jit_path c vm) w'" for w w' :: "'a world"
    by (simp add: untouched_def blob_ok_def no_faults_def)
  have "framed S (\<lambda>w w'. blob_ok (jit_path c vm) w \<longrightarrow> blob_ok (jit_path c vm) w')"
    by (rule framed_mono [OF assms i]) (auto simp: reflp_def transp_def)
  moreover have "blob_ok p (snd (on_disk (write_serial_evidence q b) w))" if "blob_ok p w" for p q b and w :: "'a world"
    using blob_kept(1) [OF that, of q b] by (simp add: blob_ok_def write_serial_evidence_snd)
  ultimately show ?thesis using blob_kept by (auto simp: job_frame_def)
qed

section \<open>The claim of the job\<close>

text \<open>Nobody else moves the claim at \<open>p\<close> or takes the permit, and a healthy disk stays healthy.\<close>

definition undisturbed :: "path \<Rightarrow> 'e world \<Rightarrow> 'e world \<Rightarrow> bool" where
  "undisturbed p w w' \<longleftrightarrow>
     (healthy (disk w) \<longrightarrow> healthy (disk w') \<and> get (disk w') p = get (disk w) p) \<and> permits w' = permits w"

lemma undisturbed_preorder: "reflp (undisturbed p)" "transp (undisturbed p)"
  by (auto simp: reflp_def transp_def undisturbed_def)

lemma healthy_unlink: "healthy fs \<Longrightarrow> healthy (snd (sys_unlink p fs))"
  by (auto simp: healthy_def no_faults_def sys_unlink_def regular_only_def split: option.split)

lemma healthy_blob:
  assumes "healthy fs"
  shows "healthy (snd (write_jit_blob p b fs))"
proof -
  let ?f = "snd (sys_unlink p fs)"
  have f: "healthy ?f" using assms by (rule healthy_unlink)
  have "healthy (snd (write_private_file p b ?f))"
  proof (cases rule: write_private_cases [of p b ?f])
    case (written i)
    with write_private_Inr [of p b ?f] f show ?thesis by (auto simp: healthy_def no_faults_def regular_only_def)
  next
    case (partial e)
    with f show ?thesis
      by (auto simp: healthy_def no_faults_def regular_only_def sys_create_new_def split: option.split)
  qed (use f in simp)
  with f show ?thesis by (simp add: write_jit_blob_eq)
qed

lemma claim_frame:
  assumes "framed S (undisturbed (cur_path_of s n))"
  shows "job_frame S c vm (undisturbed (cur_path_of s n))"
proof -
  have ne: "cur_path_of s n \<noteq> jit_path c vm"
    "cur_path_of s n \<noteq> join (join (state_dir c) ''logs'') (vm @ ''.serial.log'')"
    by (simp_all add: jit_path_def cur_dir_def)
  show ?thesis
    using assms ne
    by (auto simp: job_frame_def undisturbed_def healthy_blob healthy_unlink write_serial_evidence_snd
        write_jit_blob_other get_unlink_other)
qed

section \<open>Properties\<close>


text \<open>A GitHub that hands out runner 9, over a machine that runs every command at once.\<close>

definition runner_services :: "string list services" where
  "runner_services = http_services\<lparr>the_crates := (the_crates toy_services)
     \<lparr>json_jit_config := (\<lambda>_. Inr \<lparr>jit_runner = \<lparr>jit_runner_id = 9, jit_runner_name = ''gha-7''\<rparr>,
                                   encoded_jit_config = ''blob''\<rparr>)\<rparr>\<rparr>"

definition claimed_world :: "string list world" where
  "claimed_world = (toy_world [])\<lparr>disk := claimed_once\<rparr>"

lemma toy_http_disk [simp]:
  "disk (snd (toy_http rq w)) = disk w" "permits (snd (toy_http rq w)) = permits w"
  "machine (snd (toy_http rq w)) = machine w"
  by (simp_all add: toy_http_def)

lemma runner_services_framed: "framed runner_services (undisturbed p)" "framed runner_services (untouched p)"
  by (auto simp: framed_def http_frame_def runner_services_def http_services_def toy_services_def
      undisturbed_def untouched_def reflp_def transp_def)

lemma toy_worker_ends: "\<exists>w'. job_worker (Suc 0) runner_services g c s ev p w = Some w'"
proof -
  have "race_watchdog (Suc 0) runner_services g o' r' i a rt dl po st pe x = Some (Finished (Exited 0 [] []), x)"
    for o' r' i a rt dl po st pe x
    by (simp add: runner_services_def http_services_def toy_services_def)
  then have "\<exists>y. run_runner (Suc 0) runner_services g c vm o' r' i x = Some y" for vm o' r' i x
    by (simp add: run_runner_def Let_def del: race_watchdog.simps split: prod.split)
  then have rr: "run_runner (Suc 0) runner_services g c vm o' r' i x \<noteq> None" for vm o' r' i x by simp
  have rv: "run_in_vm (Suc 0) runner_services g c ev vm jit o' r' x \<noteq> None" for vm jit o' r' x
    by (auto simp: run_in_vm_def rr split: prod.split sum.split option.split)
  have "run_job (Suc 0) runner_services g c ev w \<noteq> None"
    by (auto simp: run_job_def Let_def rv split: prod.split sum.split option.split)
  then show ?thesis by (auto simp: job_worker_def Let_def split: sum.split)
qed



definition reap_services :: "string list services" where
  "reap_services = runner_services\<lparr>limactl := toy_limactl\<rparr>"

definition job_world :: "string list world" where
  "job_world = good_world\<lparr>disk := claimed_once, machine := [vm_name 7]\<rparr>"

definition toy_jit :: jit_config_resp where
  "toy_jit = \<lparr>jit_runner = \<lparr>jit_runner_id = 9, jit_runner_name = ''gha-7''\<rparr>, encoded_jit_config = ''blob''\<rparr>"

text \<open>The VMs its \<open>limactl list\<close> prints.\<close>

definition listed_vm :: "string \<Rightarrow> string list \<Rightarrow> bool" where
  "listed_vm n vms \<longleftrightarrow>
     n \<in> li_name ` set (parse_list_json (the_crates reap_services) (concat (map (\<lambda>n. n @ [CHR 0x0A]) vms)))"

lemma toy_limactl_disk [simp]:
  "disk (snd (toy_limactl argv t w)) = disk w" "permits (snd (toy_limactl argv t w)) = permits w"
  by (simp_all add: toy_limactl_def)

lemma reap_services_framed: "framed reap_services (untouched p)" "http_frame reap_services (\<lambda>v v'. machine v' = machine v)"
  by (auto simp: framed_def http_frame_def reap_services_def runner_services_def http_services_def toy_services_def
      untouched_def reflp_def transp_def)

lemma reap_services_truthful:
  "delete_truthful reap_services (\<lambda>n x. listed_vm n (machine x)) n v"
  "list_truthful reap_services (\<lambda>n x. listed_vm n (machine x)) n v"
  by (simp_all add: delete_truthful_def list_truthful_def reap_services_def toy_limactl_def listed_vm_def)

lemma toy_mint:
  "generate_jit_config reap_services toy_gh ''o'' ''r'' vm labels job_world = (Inr toy_jit, job_world)"
  by (simp add: generate_jit_config_def send_authed_def token_def installation_id_def job_world_def good_world_def
      stale_world_def is_fresh_at_def now_def toy_world_def TOKEN_TTL_def REFRESH_MARGIN_def secs_def send_with_def
      reap_services_def runner_services_def http_services_def toy_http_def github_request_def claimed_once_def
      calm_fs_def expect_json_def is_success_def response_json_def toy_jit_def)


text \<open>The registration is born private: a successful write leaves a regular file of our own with mode
  0600 and exactly the contents, whatever was at the path before (a stale blob, a link, a FIFO), and
  touches no other path, so a planted link is never written through; on a working disk only a directory
  at the path makes it fail, with nothing changed.\<close>

theorem jit_blob_born_private:
  assumes "write_jit_blob p b fs = (r, fs')"
  shows "(r = Inr () \<longrightarrow>
            get fs' p = Some \<lparr>ikind = Regular, idata = b, imtime = clock fs, imode = 0x180, iuid = euid fs\<rparr>)
       \<and> (\<forall>q. q \<noteq> p \<longrightarrow> get fs' q = get fs q)
       \<and> (no_faults fs \<longrightarrow> (r = Inr () \<longleftrightarrow> map_option ikind (get fs p) \<noteq> Some Directory) \<and> (r \<noteq> Inr () \<longrightarrow> fs' = fs))"
proof (intro conjI allI impI)
  let ?f = "snd (sys_unlink p fs)"
  have e: "euid ?f = euid fs" by (simp add: sys_unlink_def split: option.split)
  show "get fs' p = Some \<lparr>ikind = Regular, idata = b, imtime = clock fs, imode = 0x180, iuid = euid fs\<rparr>"
    if "r = Inr ()"
    using assms that write_private_Inr [of p b ?f fs'] e by (simp add: write_jit_blob_eq split: if_splits)
  show "get fs' q = get fs q" if "q \<noteq> p" for q
    using write_jit_blob_other [OF that, of b fs] assms by simp
  assume nf: "no_faults fs"
  note dir = unlink_directory [OF nf, of p]
  show "r = Inr () \<longleftrightarrow> map_option ikind (get fs p) \<noteq> Some Directory"
  proof (cases "map_option ikind (get fs p) = Some Directory")
    case True
    with dir assms show ?thesis by (auto simp: write_jit_blob_eq)
  next
    case False
    with dir have u: "fst (sys_unlink p fs) = Inr () \<or> fst (sys_unlink p fs) = Inl NotFound" by blast
    have "no_faults ?f" using nf by (simp add: no_faults_def)
    from write_private_free [OF this unlinked_free [OF u nf], of b] u False assms show ?thesis
      by (simp add: write_jit_blob_eq)
  qed
  then show "fs' = fs" if "r \<noteq> Inr ()"
    using that dir assms nf
    by (auto simp: write_jit_blob_eq sys_unlink_def no_faults_def split: option.splits if_splits)
qed

definition planted_link :: fsys where
  "planted_link = calm_fs [([''b''], (plain_file [] 0)\<lparr>ikind := Symlink [''victim'']\<rparr>), ([''victim''], plain_file ''v'' 0)] 5"

theorem jit_blob_born_private_witness:
  "get (snd (write_jit_blob [''b''] ''blob'' planted_link)) [''victim''] = Some (plain_file ''v'' 0)
   \<and> map_option imode (get (snd (write_jit_blob [''b''] ''blob'' planted_link)) [''b'']) = Some 0x180"
proof -
  have "no_faults planted_link" by (simp add: planted_link_def calm_fs_def no_faults_def)
  moreover have "get planted_link [''victim''] = Some (plain_file ''v'' 0)"
    "map_option ikind (get planted_link [''b'']) = Some (Symlink [''victim''])"
    by (simp_all add: planted_link_def calm_fs_def get_def)
  ultimately show ?thesis
    using jit_blob_born_private [OF surjective_pairing [of "write_jit_blob [''b''] ''blob'' planted_link"]] by auto
qed

text \<open>A job's repository name reaches the API path as it is: the split accepts exactly one owner and
  one repository of 1 to 100 characters out of letters, digits, dots, underscores and dashes, and such a
  segment is its own URL encoding, so nothing in it can change the path or start a query.\<close>

theorem split_full_name_spec:
  "(split_full_name full = Inr (owner, repo)) =
     (full = owner @ ''/'' @ repo \<and> is_safe_repo_segment owner \<and> is_safe_repo_segment repo
      \<and> encode_path_segment owner = owner \<and> encode_path_segment repo = repo)"
proof -
  have safe: "CHR ''/'' \<notin> set s \<and> encode_path_segment s = s" if "is_safe_repo_segment s" for s
  proof -
    from that have "\<forall>b \<in> set s. is_unreserved b \<and> b \<noteq> CHR ''/''"
      by (auto simp: is_safe_repo_segment_def list_all_iff is_unreserved_def is_ascii_alnum_def is_digit_def
          is_ascii_lower_def is_ascii_upper_def)
    then show ?thesis by (induction s) (auto simp: encode_path_segment_def)
  qed
  show ?thesis
  proof (cases "split_once (CHR ''/'') full")
    case None
    then have "CHR ''/'' \<notin> set full" by (simp add: split_once_None_iff)
    then show ?thesis using None by (auto simp: split_full_name_def)
  next
    case (Some q)
    then obtain a b where q: "split_once (CHR ''/'') full = Some (a, b)" by (cases q) auto
    then have f: "full = a @ CHR ''/'' # b" "CHR ''/'' \<notin> set a" by (simp_all add: split_once_Some_iff)
    have u: "x = a \<and> y = b" if "full = x @ CHR ''/'' # y" "CHR ''/'' \<notin> set x" for x y
      using q that by (simp add: split_once_Some_iff [symmetric])
    have ne: "is_safe_repo_segment s \<Longrightarrow> s \<noteq> []" for s by (auto simp: is_safe_repo_segment_def)
    show ?thesis
    proof
      assume "split_full_name full = Inr (owner, repo)"
      with q f safe show "full = owner @ ''/'' @ repo \<and> is_safe_repo_segment owner \<and> is_safe_repo_segment repo
          \<and> encode_path_segment owner = owner \<and> encode_path_segment repo = repo"
        by (simp add: split_full_name_def split: if_splits)
    next
      assume r: "full = owner @ ''/'' @ repo \<and> is_safe_repo_segment owner \<and> is_safe_repo_segment repo
          \<and> encode_path_segment owner = owner \<and> encode_path_segment repo = repo"
      with u [of owner repo] safe have "a = owner" "b = repo" by auto
      with r q safe ne show "split_full_name full = Inr (owner, repo)" by (simp add: split_full_name_def)
    qed
  qed
qed

section \<open>The race\<close>

text \<open>What the race saw before the watchdog fired: real observations, each with its time since the start.\<close>

definition observed :: "'e services \<Rightarrow> gh_client \<Rightarrow> string \<Rightarrow> string \<Rightarrow> u64 \<Rightarrow> nat \<Rightarrow> runner_obs \<times> nat \<Rightarrow> bool" where
  "observed S g owner repo rid start oe \<longleftrightarrow>
     (\<exists>wa wb. observe_runner S g owner repo rid wa = (fst oe, wb) \<and> snd oe = uptime S wb - start)"

lemma race_fired:
  "race_watchdog fuel S g owner repo rid argv rt dl poll start p w = Some (WatchdogFired reason, w') \<Longrightarrow>
   shell_now S argv w' = None
   \<and> (\<exists>obs. list_all (observed S g owner repo rid start) obs
          \<and> foldl (watch_step dl) (Watching p) obs = Aborted reason)"
proof (induction fuel arbitrary: p w)
  case (Suc fuel)
  obtain t w1 where t: "shell_or_tick S argv rt poll w = (t, w1)" by fastforce
  obtain o1 w2 where o: "observe_runner S g owner repo rid w1 = (o1, w2)" by fastforce
  let ?oe = "(o1, uptime S w2 - start)"
  have ob: "observed S g owner repo rid start ?oe" using o by (auto simp: observed_def)
  from Suc.prems t o have n: "t = None" "shell_now S argv w2 = None"
    by (auto simp del: watch_step.simps split: option.splits prod.splits watch_state.splits)
  show ?case
  proof (cases "watch_step dl (Watching p) ?oe")
    case (Watching p')
    with Suc.prems t o n have "race_watchdog fuel S g owner repo rid argv rt dl poll start p' w2 = Some (WatchdogFired reason, w')"
      by (simp del: watch_step.simps)
    from Suc.IH [OF this] obtain obs where "shell_now S argv w' = None"
      "list_all (observed S g owner repo rid start) obs" "foldl (watch_step dl) (Watching p') obs = Aborted reason" by blast
    with ob Watching show ?thesis by (intro conjI exI [of _ "?oe # obs"]) simp_all
  next
    case Parked
    with Suc.prems t o n show ?thesis by (auto simp del: watch_step.simps split: prod.splits)
  next
    case (Aborted r)
    with Suc.prems t o n have "r = reason" "w' = w2" by (simp_all del: watch_step.simps)
    with ob n Aborted show ?thesis by (intro conjI exI [of _ "[?oe]"]) simp_all
  qed
qed simp

text \<open>
  A command under a deadline: a tick comes only before the command's deadline \<open>limit\<close> on the
  monotonic clock (after it the command has been killed and its end is the answer), ticks are apart, and
  the clock does not go back.
\<close>

definition killed_by :: "'e services \<Rightarrow> string list \<Rightarrow> nat \<Rightarrow> nat \<Rightarrow> nat \<Rightarrow> bool" where
  "killed_by S argv runtime poll limit \<longleftrightarrow>
     (\<forall>w. fst (shell_or_tick S argv runtime poll w) = None \<longrightarrow>
          uptime S w < uptime S (snd (shell_or_tick S argv runtime poll w))
          \<and> uptime S (snd (shell_or_tick S argv runtime poll w)) \<le> limit)
     \<and> http_frame S (\<lambda>w w'. uptime S w \<le> uptime S w')"

lemma race_ends:
  assumes "killed_by S argv rt poll limit"
  shows "limit - uptime S w < fuel \<Longrightarrow> race_watchdog fuel S g owner repo rid argv rt dl poll start p w \<noteq> None"
proof (induction fuel arbitrary: p w)
  case (Suc fuel)
  obtain t w1 where t: "shell_or_tick S argv rt poll w = (t, w1)" by fastforce
  obtain o1 w2 where o: "observe_runner S g owner repo rid w1 = (o1, w2)" by fastforce
  have "race_watchdog fuel S g owner repo rid argv rt dl poll start p' w2 \<noteq> None" if "t = None" for p'
  proof -
    from assms have k: "fst (shell_or_tick S argv rt poll w) = None \<Longrightarrow> uptime S w < uptime S w1 \<and> uptime S w1 \<le> limit"
      "http_frame S (\<lambda>w w'. uptime S w \<le> uptime S w')"
      using t unfolding killed_by_def by (metis snd_conv)+
    from k(1) t that observe_frame [OF k(2) o] Suc.prems have "limit - uptime S w2 < fuel" by (simp, arith)
    then show ?thesis by (rule Suc.IH)
  qed
  with t o show ?case
    by (simp del: watch_step.simps split: option.split prod.split watch_state.split)
qed simp


text \<open>A runner that hangs: the clock counts the ticks, and the command is killed at the seventh.\<close>

definition hanging_services :: "string list services" where
  "hanging_services = http_services\<lparr>uptime := (\<lambda>w. length (machine w)),
     shell_or_tick := (\<lambda>_ _ _ w. if length (machine w) < 7 then (None, w\<lparr>machine := [] # machine w\<rparr>)
                                 else (Some TimedOut, w))\<rparr>"



text \<open>A runner that stays idle on GitHub while its command hangs.\<close>

definition wedged_services :: "string list services" where
  "wedged_services = hanging_services\<lparr>uptime := (\<lambda>w. secs (length (machine w))),
     the_crates := (the_crates toy_services)\<lparr>json_runner := (\<lambda>_. Inr
       \<lparr>runner_id = 9, runner_name = ''gha-7'', runner_state = ''online'', runner_busy = False\<rparr>)\<rparr>\<rparr>"

lemma wedged_observation:
  "observe_runner wedged_services toy_gh ''o'' ''r'' 9 (good_world\<lparr>machine := ms\<rparr>)
     = (Idle, good_world\<lparr>machine := ms\<rparr>)"
  by (simp add: observe_runner_def runner_status_def send_authed_def token_def installation_id_def good_world_def
      stale_world_def is_fresh_at_def now_def toy_world_def TOKEN_TTL_def REFRESH_MARGIN_def secs_def send_with_def
      wedged_services_def hanging_services_def http_services_def toy_http_def github_request_def
      expect_json_def is_success_def response_json_def)

lemma wedged_simps:
  "uptime wedged_services w = secs (length (machine w))"
  "shell_or_tick wedged_services a rt p w
     = (if length (machine w) < 7 then (None, w\<lparr>machine := [] # machine w\<rparr>) else (Some TimedOut, w))"
  "shell_now wedged_services a w = None"
  by (simp_all add: wedged_services_def hanging_services_def http_services_def toy_services_def)

lemma wedged_run:
  "run_runner (Suc (Suc (Suc 0))) wedged_services toy_gh (toy_config\<lparr>dispatch_deadline_secs := 1\<rparr>) ''gha-7'' ''o'' ''r'' 9
     (good_world\<lparr>machine := []\<rparr>)
   = Some (Inl (Msg (''dispatch watchdog aborted runner: '' @ STAYED_IDLE)), good_world\<lparr>machine := [[], [], []]\<rparr>)"
  by (simp add: run_runner_def Let_def wedged_simps wedged_observation watch_step_Watching
      wedged_def reason_of_def secs_def del: watch_step.simps append.simps)


end
