(* ===== verification/Config_Files.thy ===== *)
theory Config_Files
  imports Spool_Properties Config_Types World
begin

text \<open>
  The trust checks of \<open>config.rs\<close> on files and directories: private directories and credential
  files, trusted executables, files and directories, the signing key, the canonical location, and the
  staging of the VM template.  A descriptor opened with \<open>O_NOFOLLOW\<close> is the inode it opened.
\<close>

unbundle bit_operations_syntax

section \<open>Owners and modes\<close>

definition MAX_PRIVATE_FILE_BYTES :: nat where "MAX_PRIVATE_FILE_BYTES = 1024 * 1024"

text \<open>The permission bits \<open>0o077\<close> and \<open>0o022\<close>.\<close>

definition group_other :: u32 where "group_other = 0x3F"
definition group_other_write :: u32 where "group_other_write = 0x12"

fun first_err :: "unit res list \<Rightarrow> unit res" where
  "first_err [] = Inr ()"
| "first_err (Inl e # rs) = Inl e"
| "first_err (Inr _ # rs) = first_err rs"

lemma first_err_Inr [simp]: "first_err rs = Inr u \<longleftrightarrow> list_all is_ok rs"
  by (induction rs rule: first_err.induct) auto

lemma is_ok_ensure [simp]: "is_ok (ensure b m) = b"
  by (simp add: ensure_def)

definition require_owned_by_us :: "inode \<Rightarrow> fsys \<Rightarrow> unit res" where
  "require_owned_by_us md fs = ensure (iuid md = euid fs) ''owned by a foreign uid''"

definition require_owned_by_us_or_root :: "inode \<Rightarrow> fsys \<Rightarrow> unit res" where
  "require_owned_by_us_or_root md fs =
     ensure (\<not> (iuid md \<noteq> euid fs \<and> iuid md \<noteq> 0)) ''owned by a uid that is neither ours nor root''"

definition executable_by :: "u32 \<Rightarrow> u32 \<Rightarrow> u32 \<Rightarrow> bool" where
  "executable_by owner_uid our_uid mode =
     (if owner_uid = our_uid then mode AND 0x40 \<noteq> 0 else mode AND 0x01 \<noteq> 0)"

section \<open>Directories\<close>

definition ensure_private_dir :: "path \<Rightarrow> fsys \<Rightarrow> unit res \<times> fsys" where
  "ensure_private_dir p fs =
     (case (case sys_lstat p fs of
              Inr md \<Rightarrow>
                (first_err [ensure (\<not> (case ikind md of Symlink _ \<Rightarrow> True | _ \<Rightarrow> False)) ''is a symlink; refusing to manage it'',
                            ensure (ikind md = Directory) ''exists but is not a directory'',
                            require_owned_by_us md fs], fs)
            | Inl NotFound \<Rightarrow>
                (case sys_mkdir_all p fs of
                   (Inl e, fs1) \<Rightarrow> (Inl (Ctx ''create'' (IoErr e)), fs1)
                 | (Inr _, fs1) \<Rightarrow> (Inr (), fs1))
            | Inl e \<Rightarrow> (Inl (Ctx ''lstat'' (IoErr e)), fs)) of
        (Inl e, fs1) \<Rightarrow> (Inl e, fs1)
      | (Inr _, fs1) \<Rightarrow>
          (case sys_chmod p 0x1C0 fs1 of
             (Inl e, fs2) \<Rightarrow> (Inl (Ctx ''chmod 0700'' (IoErr e)), fs2)
           | (Inr _, fs2) \<Rightarrow> (Inr (), fs2)))"

definition verify_strict_private_dir :: "path \<Rightarrow> fsys \<Rightarrow> unit res" where
  "verify_strict_private_dir p fs =
     (case sys_lstat p fs of
        Inl e \<Rightarrow> Inl (Ctx ''stat'' (IoErr e))
      | Inr md \<Rightarrow>
          first_err [ensure (\<not> (case ikind md of Symlink _ \<Rightarrow> True | _ \<Rightarrow> False)) ''is a symlink'',
                     ensure (ikind md = Directory) ''is not a directory'',
                     require_owned_by_us md fs,
                     ensure (imode md AND group_other = 0) ''require 0700 or stricter''])"

definition verify_trusted_dir :: "path \<Rightarrow> fsys \<Rightarrow> unit res" where
  "verify_trusted_dir p fs =
     (if \<not> is_absolute p then Inl (Msg ''must be an absolute path'')
      else (case sys_lstat p fs of
              Inl e \<Rightarrow> Inl (Ctx ''stat'' (IoErr e))
            | Inr md \<Rightarrow>
                first_err [ensure (\<not> (case ikind md of Symlink _ \<Rightarrow> True | _ \<Rightarrow> False)) ''is a symlink'',
                           ensure (ikind md = Directory) ''is not a directory'',
                           require_owned_by_us_or_root md fs,
                           ensure (imode md AND group_other_write = 0) ''permits group/world write'']))"

section \<open>Files\<close>

text \<open>\<open>open(O_RDONLY | O_NOFOLLOW | O_NONBLOCK)\<close> and \<open>fstat\<close>.\<close>

definition open_fstat :: "path \<Rightarrow> fsys \<Rightarrow> inode res" where
  "open_fstat p fs =
     (case sys_open_nofollow p fs of
        Inl e \<Rightarrow> Inl (Ctx ''open'' (IoErr e))
      | Inr f \<Rightarrow> (case sys_fstat p f fs of Inl e \<Rightarrow> Inl (Ctx ''fstat'' (IoErr e)) | Inr md \<Rightarrow> Inr md))"

definition read_private_file :: "path \<Rightarrow> fsys \<Rightarrow> bytes res" where
  "read_private_file p fs =
     and_then (open_fstat p fs) (\<lambda>md.
     and_then (first_err [ensure (ikind md = Regular) ''is not a regular file'',
                          require_owned_by_us md fs,
                          ensure (imode md AND group_other = 0) ''must be readable only by the owner'',
                          ensure (length (idata md) \<le> MAX_PRIVATE_FILE_BYTES) ''exceeds the cap for credential files'']) (\<lambda>_.
     (case sys_read p md fs of Inl e \<Rightarrow> Inl (Ctx ''read'' (IoErr e)) | Inr b \<Rightarrow> Inr b)))"

definition verify_trusted_path :: "path \<Rightarrow> bool \<Rightarrow> fsys \<Rightarrow> unit res" where
  "verify_trusted_path p require_exec fs =
     (if \<not> is_absolute p then Inl (Msg ''must be an absolute path; bare names trigger PATH lookup'')
      else and_then (open_fstat p fs) (\<lambda>md.
             first_err ([ensure (ikind md = Regular) ''is not a regular file'',
                         require_owned_by_us_or_root md fs,
                         ensure (imode md AND group_other_write = 0) ''permits group/world write'']
                        @ (if require_exec
                           then [ensure (executable_by (iuid md) (euid fs) (imode md)) ''is not executable by this daemon'']
                           else []))))"

definition verify_trusted_executable :: "path \<Rightarrow> fsys \<Rightarrow> unit res" where
  "verify_trusted_executable p fs = verify_trusted_path p True fs"

definition verify_trusted_file :: "path \<Rightarrow> fsys \<Rightarrow> unit res" where
  "verify_trusted_file p fs = verify_trusted_path p False fs"

definition verify_owner_only_file :: "path \<Rightarrow> fsys \<Rightarrow> unit res" where
  "verify_owner_only_file p fs =
     (if \<not> is_absolute p then Inl (Msg ''must be an absolute path; bare names trigger PATH lookup'')
      else and_then (open_fstat p fs) (\<lambda>md.
             first_err [ensure (ikind md = Regular) ''is not a regular file'',
                        require_owned_by_us md fs,
                        ensure (imode md AND group_other = 0) ''a signing key must be owner-only'']))"

definition reject_path_separator :: "path \<Rightarrow> string \<Rightarrow> unit res" where
  "reject_path_separator dir name =
     ensure (CHR '':'' \<notin> set (from_utf8_lossy (path_text dir))) (name @ '' contains a colon'')"

definition path_starts_with :: "path \<Rightarrow> path \<Rightarrow> bool" where
  "path_starts_with p prefix \<longleftrightarrow> take (length prefix) p = prefix"

definition require_canonical_under :: "path \<Rightarrow> path \<Rightarrow> fsys \<Rightarrow> path res" where
  "require_canonical_under p prefix fs =
     (case sys_realpath p fs of
        Inl e \<Rightarrow> Inl (Ctx ''canonicalize'' (IoErr e))
      | Inr real \<Rightarrow>
          (case sys_realpath prefix fs of
             Inl e \<Rightarrow> Inl (Ctx ''canonicalize'' (IoErr e))
           | Inr real_prefix \<Rightarrow>
               if \<not> path_starts_with real real_prefix then Inl (Msg ''resolves outside the prefix'')
               else Inr real))"

definition validate_cache_key_name :: "string \<Rightarrow> unit res" where
  "validate_cache_key_name name =
     ensure (name \<noteq> [] \<and> \<not> contains_str ''..'' name
             \<and> list_all (\<lambda>b. is_ascii_alnum b \<or> b = CHR ''.'' \<or> b = CHR ''_'' \<or> b = CHR ''-'') name)
       ''must be a non-empty [A-Za-z0-9._-] name with no ..''"

section \<open>Staging the VM template\<close>

definition stage_trusted_template :: "path \<Rightarrow> path \<Rightarrow> fsys \<Rightarrow> unit res \<times> fsys" where
  "stage_trusted_template src dst fs =
     (case and_then (open_fstat src fs) (\<lambda>md.
           and_then (first_err [ensure (ikind md = Regular) ''is not a regular file'',
                                require_owned_by_us md fs,
                                ensure (imode md AND group_other_write = 0) ''LIMA_TEMPLATE must be owner-writable only'',
                                ensure (length (idata md) \<le> MAX_PRIVATE_FILE_BYTES) ''exceeds cap'']) (\<lambda>_.
           (case sys_read src md fs of Inl e \<Rightarrow> Inl (Ctx ''read'' (IoErr e)) | Inr b \<Rightarrow> Inr b))) of
        Inl e \<Rightarrow> (Inl e, fs)
      | Inr contents \<Rightarrow>
          (case sys_unlink dst fs of
             (r, fs1) \<Rightarrow>
               if r \<noteq> Inr () \<and> r \<noteq> Inl NotFound then (Inl (Ctx ''remove stale'' (IoErr (projl r))), fs1)
               else (case sys_create_new dst 0x180 fs1 of
                       (Inl e, fs2) \<Rightarrow> (Inl (Ctx ''create'' (IoErr e)), fs2)
                     | (Inr _, fs2) \<Rightarrow>
                         (case sys_write_all dst contents fs2 of
                            (Inl e, fs3) \<Rightarrow> (Inl (Ctx ''write'' (IoErr e)), fs3)
                          | (Inr _, fs3) \<Rightarrow> (Inr (), fs3)))))"

end
