(* ===== verification/Socket_Addr.thy ===== *)
theory Socket_Addr
  imports Rust_Format "HOL-Library.Monad_Syntax"
begin

text \<open>
  \<open>str::parse::<SocketAddr>\<close> of the standard library, which the program uses to read
  \<open>CONTROL_ADDR\<close>, and \<open>IpAddr::is_loopback\<close>.  A parser takes the input and gives the value
  and the rest, or nothing (then the input is as it was).
\<close>

section \<open>Addresses\<close>

datatype ip = V4 nat nat nat nat | V6 "nat list"

type_synonym socket_addr = "ip \<times> nat"

definition is_loopback :: "ip \<Rightarrow> bool" where
  "is_loopback a = (case a of V4 w _ _ _ \<Rightarrow> w = 127 | V6 gs \<Rightarrow> gs = [0, 0, 0, 0, 0, 0, 0, 1])"

section \<open>Numbers and separators\<close>

definition read_char :: "char \<Rightarrow> string \<Rightarrow> string option" where
  "read_char c s = (case s of [] \<Rightarrow> None | x # xs \<Rightarrow> if x = c then Some xs else None)"

text \<open>\<open>char::to_digit\<close>.\<close>

definition to_digit :: "nat \<Rightarrow> char \<Rightarrow> nat option" where
  "to_digit radix c =
     (let v = (if is_digit c then byte c - 48
               else if is_ascii_lower c then byte c - 87
               else if is_ascii_upper c then byte c - 55 else 36)
      in if v < radix then Some v else None)"

text \<open>\<open>read_number\<close>: digits up to \<open>max_digits\<close>, checked against the bound of the integer type.\<close>

fun read_digits :: "nat \<Rightarrow> nat \<Rightarrow> nat option \<Rightarrow> nat \<Rightarrow> nat \<Rightarrow> string \<Rightarrow> (nat \<times> nat \<times> string) option" where
  "read_digits radix bound max_digits count acc [] = Some (acc, count, [])"
| "read_digits radix bound max_digits count acc (c # cs) =
     (case to_digit radix c of
        None \<Rightarrow> Some (acc, count, c # cs)
      | Some d \<Rightarrow>
          if acc * radix + d \<ge> bound then None
          else if max_digits \<noteq> None \<and> the max_digits < Suc count then None
          else read_digits radix bound max_digits (Suc count) (acc * radix + d) cs)"

definition read_number :: "nat \<Rightarrow> nat \<Rightarrow> nat option \<Rightarrow> bool \<Rightarrow> string \<Rightarrow> (nat \<times> string) option" where
  "read_number radix bound max_digits allow_zero_prefix s =
     do { (v, count, rest) \<leftarrow> read_digits radix bound max_digits 0 0 s;
          if count = 0 then None
          else if \<not> allow_zero_prefix \<and> take 1 s = ''0'' \<and> 1 < count then None
          else Some (v, rest) }"

definition after_separator :: "char \<Rightarrow> bool \<Rightarrow> (string \<Rightarrow> ('a \<times> string) option) \<Rightarrow> string \<Rightarrow> ('a \<times> string) option" where
  "after_separator sep first p s = (if first then p s else do { s1 \<leftarrow> read_char sep s; p s1 })"

section \<open>IP addresses\<close>

definition read_octet :: "string \<Rightarrow> (nat \<times> string) option" where
  "read_octet = read_number 10 256 (Some 3) False"

definition read_ipv4 :: "string \<Rightarrow> ((nat \<times> nat \<times> nat \<times> nat) \<times> string) option" where
  "read_ipv4 s =
     do { (a, s1) \<leftarrow> read_octet s;
          (b, s2) \<leftarrow> after_separator (CHR ''.'') False read_octet s1;
          (c, s3) \<leftarrow> after_separator (CHR ''.'') False read_octet s2;
          (d, s4) \<leftarrow> after_separator (CHR ''.'') False read_octet s3;
          Some ((a, b, c, d), s4) }"

text \<open>\<open>read_groups\<close>: up to so many groups; the last two may be an embedded IPv4 address.\<close>

fun read_groups :: "nat \<Rightarrow> bool \<Rightarrow> string \<Rightarrow> nat list \<times> bool \<times> string" where
  "read_groups 0 first s = ([], False, s)"
| "read_groups (Suc k) first s =
     (case (if 0 < k then after_separator (CHR '':'') first read_ipv4 s else None) of
        Some ((a, b, c, d), s1) \<Rightarrow> ([a * 256 + b, c * 256 + d], True, s1)
      | None \<Rightarrow>
          (case after_separator (CHR '':'') first (read_number 16 65536 (Some 4) True) s of
             None \<Rightarrow> ([], False, s)
           | Some (g, s1) \<Rightarrow>
               (case read_groups k False s1 of (gs, v4, s2) \<Rightarrow> (g # gs, v4, s2))))"

definition read_ipv6 :: "string \<Rightarrow> (nat list \<times> string) option" where
  "read_ipv6 s =
     (case read_groups 8 True s of
        (hd_groups, v4, s1) \<Rightarrow>
          if length hd_groups = 8 then Some (hd_groups, s1)
          else if v4 then None
          else do { s2 \<leftarrow> read_char (CHR '':'') s1;
                    s3 \<leftarrow> read_char (CHR '':'') s2;
                    (case read_groups (8 - (length hd_groups + 1)) True s3 of
                       (tl_groups, _, s4) \<Rightarrow>
                         Some (hd_groups @ replicate (8 - length hd_groups - length tl_groups) 0 @ tl_groups, s4)) })"

section \<open>Socket addresses\<close>

definition read_port :: "string \<Rightarrow> (nat \<times> string) option" where
  "read_port s = do { s1 \<leftarrow> read_char (CHR '':'') s; read_number 10 65536 None True s1 }"

definition read_socket_v4 :: "string \<Rightarrow> (socket_addr \<times> string) option" where
  "read_socket_v4 s =
     do { ((a, b, c, d), s1) \<leftarrow> read_ipv4 s; (port, s2) \<leftarrow> read_port s1; Some ((V4 a b c d, port), s2) }"

definition skip_scope_id :: "string \<Rightarrow> string" where
  "skip_scope_id s =
     (case do { s1 \<leftarrow> read_char (CHR ''%'') s; read_number 10 4294967296 None True s1 } of
        None \<Rightarrow> s
      | Some (_, s2) \<Rightarrow> s2)"

definition read_socket_v6 :: "string \<Rightarrow> (socket_addr \<times> string) option" where
  "read_socket_v6 s =
     do { s1 \<leftarrow> read_char (CHR ''['') s; (gs, s2) \<leftarrow> read_ipv6 s1;
          s3 \<leftarrow> read_char (CHR '']'') (skip_scope_id s2); (port, s4) \<leftarrow> read_port s3;
          Some ((V6 gs, port), s4) }"

definition parse_socket_addr :: "string \<Rightarrow> socket_addr option" where
  "parse_socket_addr s =
     (case (case read_socket_v4 s of Some r \<Rightarrow> Some r | None \<Rightarrow> read_socket_v6 s) of
        Some (a, []) \<Rightarrow> Some a
      | _ \<Rightarrow> None)"


section \<open>Facts\<close>

lemma to_digit_digit_char: "d < 10 \<Longrightarrow> to_digit 10 (digit_char d) = Some d"
  by (simp add: to_digit_def digit_char_def is_digit_def Let_def)

lemma read_digits_append:
  "read_digits r b m n acc (s @ t)
     = (case read_digits r b m n acc s of
          Some (v, k, []) \<Rightarrow> read_digits r b m k v t
        | Some (v, k, x # xs) \<Rightarrow> Some (v, k, (x # xs) @ t)
        | None \<Rightarrow> None)"
  by (induction r b m n acc s rule: read_digits.induct) (auto split: option.split)

lemma read_digits_dec:
  "n < b \<Longrightarrow> (\<And>k. m = Some k \<Longrightarrow> length (dec n) \<le> k) \<Longrightarrow>
   read_digits 10 b m 0 0 (dec n) = Some (n, length (dec n), [])"
proof (induction n rule: dec.induct)
  case (1 n)
  show ?case
  proof (cases "n < 10")
    case True
    with 1 show ?thesis by (cases m) (auto simp: dec.simps [of n] to_digit_digit_char)
  next
    case False
    then have e: "dec n = dec (n div 10) @ [digit_char (n mod 10)]" by (simp add: dec.simps [of n])
    have "read_digits 10 b m 0 0 (dec (n div 10)) = Some (n div 10, length (dec (n div 10)), [])"
      using False 1 by (intro "1.IH") (auto simp: e dest: Suc_leD)
    moreover have "n div 10 * 10 + n mod 10 = n" by simp
    ultimately show ?thesis
      using 1(2,3) by (cases m) (auto simp: e read_digits_append to_digit_digit_char)
  qed
qed

lemma hd_dec: "0 < n \<Longrightarrow> \<exists>d > 0. d < 10 \<and> hd (dec n) = digit_char d"
proof (induction n rule: dec.induct)
  case (1 n)
  then show ?case by (cases "n < 10") (auto simp: dec.simps [of n])
qed

lemma dec_no_leading_zero: "1 < length (dec n) \<Longrightarrow> take 1 (dec n) \<noteq> ''0''"
proof -
  assume "1 < length (dec n)"
  then have "\<not> n < 10" by (auto simp: dec.simps [of n])
  with hd_dec [of n] obtain d where d: "0 < d" "d < 10" "hd (dec n) = digit_char d" by auto
  then have "byte (digit_char d) \<noteq> byte (CHR ''0'')" by (simp add: digit_char_def)
  then have "digit_char d \<noteq> CHR ''0''" by metis
  with d(3) show ?thesis by (cases "dec n") auto
qed

text \<open>A decimal number is read back, up to what is not a digit.\<close>

lemma read_number_dec:
  assumes "n < b" and "\<And>k. m = Some k \<Longrightarrow> length (dec n) \<le> k"
    and "rest = [] \<or> to_digit 10 (hd rest) = None"
  shows "read_number 10 b m z (dec n @ rest) = Some (n, rest)"
proof -
  have "read_digits 10 b m k v rest = Some (v, k, rest)" for k v
    using assms(3) by (cases rest) auto
  moreover have "read_digits 10 b m 0 0 (dec n) = Some (n, length (dec n), [])"
    using assms(1,2) by (rule read_digits_dec)
  moreover have "take 1 (dec n @ rest) = take 1 (dec n)" by (cases "dec n") (use dec_nonempty [of n] in auto)
  moreover have "length (dec n) \<noteq> 0" by simp
  ultimately show ?thesis
    using dec_no_leading_zero [of n] by (auto simp: read_number_def read_digits_append simp del: take_append)
qed

end
