(* ===== verification/Config_Check.thy ===== *)
theory Config_Check
  imports Config_Files Socket_Addr
begin

text \<open>
  The configuration at startup (\<open>config.rs\<close>): \<open>validate\<close>, \<open>control_socket_addr\<close>,
  \<open>load_webhook_secret\<close>, \<open>ensure_paths\<close> and \<open>validate_cache_warm\<close>.
\<close>

section \<open>Values\<close>

definition normalize_list :: "string list \<Rightarrow> string list" where
  "normalize_list xs = filter (\<lambda>s. s \<noteq> []) (map trim xs)"

definition control_socket_addr :: "config \<Rightarrow> socket_addr option res" where
  "control_socket_addr c =
     (case control_addr c of
        None \<Rightarrow> Inr None
      | Some s \<Rightarrow>
          (case parse_socket_addr s of
             None \<Rightarrow> Inl (Ctx ''CONTROL_ADDR is not a valid socket address'' (Msg s))
           | Some (addr, port) \<Rightarrow>
               if \<not> is_loopback addr then Inl (Msg ''CONTROL_ADDR is not loopback'')
               else if port = 0 then Inl (Msg ''CONTROL_ADDR uses port 0'')
               else Inr (Some (addr, port))))"

definition validate :: "config \<Rightarrow> config res" where
  "validate c0 =
     (let c = c0\<lparr>allowed_repos := normalize_list (allowed_repos c0),
                 runner_labels := normalize_list (runner_labels c0)\<rparr> in
      and_then (first_err
        [ensure (allowed_repos c \<noteq> []) ''GH_ALLOWED_REPOS is empty'',
         ensure (list_ex (\<lambda>l. l = runner_label c) (runner_labels c)) ''GH_RUNNER_LABEL is not in GH_RUNNER_LABELS'',
         ensure (max_concurrency c \<noteq> 0) ''MAX_CONCURRENCY must be >= 1'',
         ensure (gc_interval_secs c \<noteq> 0) ''GC_INTERVAL_SECS must be >= 1'',
         ensure (reconcile_interval_secs c \<noteq> 0) ''RECONCILE_INTERVAL_SECS must be >= 1'',
         ensure (job_max_runtime_secs c \<noteq> 0) ''JOB_MAX_RUNTIME_SECS must be >= 1'',
         ensure (dispatch_poll_secs c \<noteq> 0) ''DISPATCH_POLL_SECS must be >= 1'',
         ensure (api_timeout_secs c \<noteq> 0) ''GH_API_TIMEOUT_SECS must be >= 1'',
         ensure (reconcile_enabled c) ''RECONCILE_ENABLED must be true'',
         ensure (\<not> (\<not> starts_with (api_url c) ''https://'' \<and> \<not> insecure_allow_http_api c)) ''GH_API_URL must be https://''])
      (\<lambda>_. and_then (control_socket_addr c) (\<lambda>_. Inr c)))"

definition load_webhook_secret :: "config \<Rightarrow> fsys \<Rightarrow> bytes res" where
  "load_webhook_secret c fs =
     (if webhook_secret c \<noteq> None \<and> webhook_secret_file c \<noteq> None
      then Inl (Msg ''set exactly one of GH_WEBHOOK_SECRET or GH_WEBHOOK_SECRET_FILE, not both'')
      else (case webhook_secret c of
              Some s \<Rightarrow> if s = [] then Inl (Msg ''GH_WEBHOOK_SECRET is set but empty'') else Inr s
            | None \<Rightarrow>
                (case webhook_secret_file c of
                   Some p \<Rightarrow>
                     and_then (with_context ''read webhook secret file'' (read_private_file p fs)) (\<lambda>bytes.
                       let bytes' = (if bytes \<noteq> [] \<and> last bytes = CHR 0x0A then butlast bytes else bytes)
                       in if bytes' = [] then Inl (Msg ''webhook secret file is empty'') else Inr bytes')
                 | None \<Rightarrow> Inl (Msg ''set GH_WEBHOOK_SECRET or GH_WEBHOOK_SECRET_FILE''))))"

section \<open>The cache warmer's inputs\<close>

definition required :: "string \<Rightarrow> 'a option \<Rightarrow> 'a res" where
  "required name v =
     (case v of None \<Rightarrow> Inl (Msg (name @ '' is required when CACHE_WARM_ENABLED'')) | Some x \<Rightarrow> Inr x)"

definition validate_cache_warm :: "config \<Rightarrow> fsys \<Rightarrow> config res" where
  "validate_cache_warm c fs =
     (if \<not> cache_warm_enabled c then Inr c
      else if warm_max_concurrency c = 0 then Inl (Msg ''WARM_MAX_CONCURRENCY must be >= 1'')
      else if warm_timeout_secs c = 0 then Inl (Msg ''WARM_TIMEOUT_SECS must be >= 1'')
      else if \<not> is_absolute (state_dir c) then Inl (Msg ''STATE_DIR must be an absolute path'')
      else
        and_then (required ''NIX_BIN'' (nix_bin c)) (\<lambda>nix.
        and_then (required ''WARM_CACHE_BASE'' (warm_cache_base c)) (\<lambda>cache_base.
        and_then (required ''MAC_CACHE_DIR'' (mac_cache_dir c)) (\<lambda>mac_dir.
        and_then (required ''WARM_TOOLS_DIR'' (warm_tools_dir c)) (\<lambda>tools_dir.
        and_then (with_context ''NIX_BIN'' (verify_trusted_executable nix fs)) (\<lambda>_.
        and_then (with_context ''NIX_BIN'' (require_canonical_under nix [''/'', ''nix'', ''store''] fs)) (\<lambda>nix_real.
        and_then (if length nix_real > 1 then reject_path_separator (butlast nix_real) ''NIX_BIN directory'' else Inr ()) (\<lambda>_.
        let c1 = c\<lparr>nix_bin := Some nix_real\<rparr>; keys_dir = join cache_base ''keys'' in
        and_then (first_err
          [with_context ''WARM_CACHE_BASE'' (verify_trusted_dir cache_base fs),
           validate_cache_key_name (warm_cache_key_name c1),
           with_context ''cache keys dir'' (verify_trusted_dir keys_dir fs),
           with_context ''cache public key'' (verify_trusted_file (join keys_dir (warm_cache_key_name c1 @ ''.public'')) fs),
           with_context ''cache signing key'' (verify_owner_only_file (join keys_dir (warm_cache_key_name c1 @ ''.secret'')) fs),
           with_context ''MAC_CACHE_DIR'' (verify_trusted_dir mac_dir fs),
           with_context ''warm script'' (verify_trusted_executable (join mac_dir ''warm-cache.sh'') fs),
           with_context ''warm script'' (verify_trusted_executable (join mac_dir ''warm-flake-inputs.sh'') fs),
           with_context ''common.sh'' (verify_trusted_file (join mac_dir ''common.sh'') fs),
           with_context ''WARM_TOOLS_DIR'' (verify_trusted_dir tools_dir fs),
           reject_path_separator tools_dir ''WARM_TOOLS_DIR'',
           with_context ''jq'' (verify_trusted_executable (join tools_dir ''jq'') fs)])
        (\<lambda>_. Inr c1)))))))))"

section \<open>Directories and files at startup\<close>

fun ensure_private_dirs :: "path list \<Rightarrow> fsys \<Rightarrow> unit res \<times> fsys" where
  "ensure_private_dirs [] fs = (Inr (), fs)"
| "ensure_private_dirs (p # ps) fs =
     (case ensure_private_dir p fs of
        (Inl e, fs1) \<Rightarrow> (Inl e, fs1)
      | (Inr _, fs1) \<Rightarrow> ensure_private_dirs ps fs1)"

definition private_dirs :: "config \<Rightarrow> path list" where
  "private_dirs c =
     map (join (spool_dir c)) [''cur'', ''done'', ''error'']
     @ [state_dir c] @ map (join (state_dir c)) [''instances'', ''logs'']"

definition ensure_paths :: "config \<Rightarrow> fsys \<Rightarrow> config res \<times> fsys" where
  "ensure_paths c fs =
     (case first_err [with_context ''spool root'' (verify_strict_private_dir (spool_dir c) fs),
                      with_context ''spool new/'' (verify_strict_private_dir (join (spool_dir c) ''new'') fs)] of
        Inl e \<Rightarrow> (Inl e, fs)
      | Inr _ \<Rightarrow>
     (case ensure_private_dirs (private_dirs c) fs of
        (Inl e, fs1) \<Rightarrow> (Inl e, fs1)
      | (Inr _, fs1) \<Rightarrow>
     (let staged = join (state_dir c) ''lima-template.yaml'' in
      case stage_trusted_template (lima_template c) staged fs1 of
        (Inl e, fs2) \<Rightarrow> (Inl e, fs2)
      | (Inr _, fs2) \<Rightarrow>
          (let c1 = c\<lparr>lima_template := staged\<rparr> in
           (and_then (with_context ''LIMACTL_PATH'' (verify_trusted_executable (limactl_path c1) fs2))
              (\<lambda>_. validate_cache_warm c1 fs2), fs2)))))"

section \<open>What the checks accept\<close>

text \<open>Predicates on the entry at a path.\<close>

definition private_dir_at :: "fsys \<Rightarrow> path \<Rightarrow> bool" where
  "private_dir_at fs p \<longleftrightarrow>
     (\<exists>i. get fs p = Some i \<and> ikind i = Directory \<and> iuid i = euid fs \<and> imode i AND group_other = 0)"

definition trusted_owner :: "fsys \<Rightarrow> inode \<Rightarrow> bool" where
  "trusted_owner fs i \<longleftrightarrow> (iuid i = euid fs \<or> iuid i = 0) \<and> imode i AND group_other_write = 0"

definition trusted_file_at :: "fsys \<Rightarrow> bool \<Rightarrow> path \<Rightarrow> bool" where
  "trusted_file_at fs exec p \<longleftrightarrow>
     is_absolute p \<and> (\<exists>i. get fs p = Some i \<and> ikind i = Regular \<and> trusted_owner fs i
                          \<and> (exec \<longrightarrow> executable_by (iuid i) (euid fs) (imode i)))"

definition trusted_dir_at :: "fsys \<Rightarrow> path \<Rightarrow> bool" where
  "trusted_dir_at fs p \<longleftrightarrow>
     is_absolute p \<and> (\<exists>i. get fs p = Some i \<and> ikind i = Directory \<and> trusted_owner fs i)"

definition owner_only_at :: "fsys \<Rightarrow> path \<Rightarrow> bool" where
  "owner_only_at fs p \<longleftrightarrow>
     (\<exists>i. get fs p = Some i \<and> ikind i = Regular \<and> iuid i = euid fs \<and> imode i AND group_other = 0)"

lemma open_fstat_Inr:
  "open_fstat p fs = Inr md \<longleftrightarrow>
   get fs p = Some md \<and> (\<forall>t. ikind md \<noteq> Symlink t) \<and> fault fs OpOpen p = None \<and> fault fs OpFstat p = None"
  by (auto simp: open_fstat_def sys_open_nofollow_def sys_fstat_def split: option.splits fkind.splits sum.splits)

lemma lstat_Inr: "sys_lstat p fs = Inr md \<longleftrightarrow> get fs p = Some md \<and> fault fs OpStat p = None"
  by (auto simp: sys_lstat_def split: option.splits)

lemma verify_strict_iff:
  "verify_strict_private_dir p fs = Inr () \<longleftrightarrow> private_dir_at fs p \<and> fault fs OpStat p = None"
proof (cases "sys_lstat p fs")
  case (Inl e)
  then show ?thesis by (auto simp: verify_strict_private_dir_def sys_lstat_def private_dir_at_def split: option.splits)
next
  case (Inr md)
  then have "get fs p = Some md" "fault fs OpStat p = None" by (simp_all add: lstat_Inr)
  with Inr show ?thesis
    by (auto simp: verify_strict_private_dir_def private_dir_at_def require_owned_by_us_def)
qed

lemma verify_trusted_dir_iff:
  "verify_trusted_dir p fs = Inr () \<longleftrightarrow> trusted_dir_at fs p \<and> fault fs OpStat p = None"
proof (cases "sys_lstat p fs")
  case (Inl e)
  then show ?thesis by (auto simp: verify_trusted_dir_def sys_lstat_def trusted_dir_at_def split: option.splits)
next
  case (Inr md)
  then have "get fs p = Some md" "fault fs OpStat p = None" by (simp_all add: lstat_Inr)
  with Inr show ?thesis
    by (auto simp: verify_trusted_dir_def trusted_dir_at_def trusted_owner_def require_owned_by_us_or_root_def)
qed

lemma verify_trusted_path_iff:
  "verify_trusted_path p x fs = Inr () \<longleftrightarrow>
   trusted_file_at fs x p \<and> fault fs OpOpen p = None \<and> fault fs OpFstat p = None"
  by (auto simp: verify_trusted_path_def and_then_Inr_iff open_fstat_Inr trusted_file_at_def trusted_owner_def
      require_owned_by_us_or_root_def)

lemma verify_owner_only_iff:
  "verify_owner_only_file p fs = Inr () \<longleftrightarrow>
   is_absolute p \<and> owner_only_at fs p \<and> fault fs OpOpen p = None \<and> fault fs OpFstat p = None"
  by (auto simp: verify_owner_only_file_def and_then_Inr_iff open_fstat_Inr owner_only_at_def require_owned_by_us_def)

lemma read_private_Inr:
  "read_private_file p fs = Inr b \<Longrightarrow>
   \<exists>i. get fs p = Some i \<and> ikind i = Regular \<and> iuid i = euid fs \<and> imode i AND group_other = 0 \<and> idata i = b
     \<and> length b \<le> MAX_PRIVATE_FILE_BYTES"
  by (auto simp: read_private_file_def and_then_Inr_iff open_fstat_Inr require_owned_by_us_def sys_read_def
      split: sum.splits option.splits)

end
