(* ===== verification/Warm.thy ===== *)
theory Warm
  imports Github_Client Spool_Properties
begin

text \<open>
  The cache warmer (\<open>warm.rs\<close>): which jobs are candidates, the coalescer, the scratch directory, the
  environment and arguments of every child, and the steps of one warm.  Children (\<open>nix\<close>, \<open>jq\<close> and
  the two scripts) are services like \<open>limactl\<close>: they act on the whole world.  What the warm tasks share
  is part of that world.
\<close>

section \<open>The shared state and the children\<close>

type_synonym coalesce_key = "string \<times> string \<times> string \<times> string"

record 'e warm_shared =
  seen :: "(coalesce_key \<times> nat) list"
  warm_slots :: nat
  next_attempt :: u64
  beyond :: 'e

type_synonym 'e warm_world = "'e warm_shared world"

record command =
  cmd_program :: path
  cmd_args :: "string list"
  cmd_env :: "(string \<times> string) list"
  cmd_dir :: path

text \<open>
  A child is spawned in a process group of its own, with no standard input and its output discarded;
  \<open>spawn_piped\<close> keeps its output for \<open>spawn_reading pid\<close>, the child that reads it
  (\<open>pipe_taken\<close>: the pipe could be handed over).  \<open>wait_until pid t\<close> waits for the end of the
  child, \<open>None\<close> when it still runs at the instant \<open>t\<close>; an end is an exit code (0 for success) or a
  failed wait.  \<open>kill_group\<close> is SIGKILL to the process group and \<open>reap\<close> the wait after it.
\<close>

record 'e host =
  host_services :: "'e warm_shared services"
  spawn :: "command \<Rightarrow> 'e warm_world \<Rightarrow> (string + u32) \<times> 'e warm_world"
  spawn_piped :: "command \<Rightarrow> 'e warm_world \<Rightarrow> (string + u32) \<times> 'e warm_world"
  spawn_reading :: "u32 \<Rightarrow> command \<Rightarrow> 'e warm_world \<Rightarrow> (string + u32) \<times> 'e warm_world"
  pipe_taken :: "u32 \<Rightarrow> 'e warm_world \<Rightarrow> bool"
  wait_until :: "u32 \<Rightarrow> nat \<Rightarrow> 'e warm_world \<Rightarrow> (string + int) option \<times> 'e warm_world"
  kill_group :: "u32 \<Rightarrow> 'e warm_world \<Rightarrow> 'e warm_world"
  reap :: "u32 \<Rightarrow> 'e warm_world \<Rightarrow> 'e warm_world"

definition on_shared :: "('e warm_shared \<Rightarrow> 'e warm_shared) \<Rightarrow> 'e warm_world \<Rightarrow> 'e warm_world" where
  "on_shared f w = w\<lparr>machine := f (machine w)\<rparr>"

section \<open>Constants\<close>

definition CACHE_NIXOS_ORG_KEY :: string where
  "CACHE_NIXOS_ORG_KEY = ''cache.nixos.org-1:6NCHdD59X431o0gWypbMrAURkbJ16ZPMQFGspcDShjY=''"

definition WARM_TARGETS :: "string list" where
  "WARM_TARGETS = [''devShells.aarch64-linux.default'', ''packages.aarch64-linux.default'']"

definition CLOSURE_SYSTEM_FILTER :: string where
  "CLOSURE_SYSTEM_FILTER = ''all(.[]; .system == \"aarch64-linux\" or .system == \"builtin\")''"

section \<open>Candidates\<close>

record warm_candidate =
  cand_owner :: string
  cand_repo :: string
  cand_repo_id :: u64
  cand_head_branch :: string
  cand_head_sha :: string

definition coalesce_key :: "warm_candidate \<Rightarrow> coalesce_key" where
  "coalesce_key c = (cand_owner c, cand_repo c, cand_head_branch c, cand_head_sha c)"

definition is_commit_sha :: "string \<Rightarrow> bool" where
  "is_commit_sha s \<longleftrightarrow> length s = 40 \<and> list_all is_ascii_hexdigit s"

definition parse_candidate :: "workflow_job \<Rightarrow> string set \<Rightarrow> warm_candidate option" where
  "parse_candidate event allowed =
     (case job_head_branch (ev_job event) of
        None \<Rightarrow> None
      | Some head_branch \<Rightarrow>
     (case job_head_sha (ev_job event) of
        None \<Rightarrow> None
      | Some head_sha \<Rightarrow>
        if \<not> is_commit_sha head_sha then None
        else (let full = full_name (ev_repository event) in
        if full \<notin> allowed then None
        else
     (case split_once (CHR ''/'') full of
        None \<Rightarrow> None
      | Some (owner, repo) \<Rightarrow>
        if owner = [] \<or> repo = [] then None
        else Some \<lparr>cand_owner = owner, cand_repo = repo, cand_repo_id = repository_id (ev_repository event),
                   cand_head_branch = head_branch, cand_head_sha = head_sha\<rparr>))))"

section \<open>The coalescer\<close>

text \<open>\<open>Instant\<close>s are natural numbers of nanoseconds; their difference saturates at zero.\<close>

definition check_and_mark ::
    "nat \<Rightarrow> coalesce_key \<Rightarrow> nat \<Rightarrow> (coalesce_key \<times> nat) list \<Rightarrow> bool \<times> (coalesce_key \<times> nat) list" where
  "check_and_mark ttl key at_now marks =
     (let kept = filter (\<lambda>(_, t). at_now - t < ttl) marks in
      if map_of kept key \<noteq> None then (False, kept) else (True, AList.update key at_now kept))"

definition clear :: "coalesce_key \<Rightarrow> nat \<Rightarrow> (coalesce_key \<times> nat) list \<Rightarrow> (coalesce_key \<times> nat) list" where
  "clear key mark marks = (if map_of marks key = Some mark then AList.delete key marks else marks)"

section \<open>The warmer\<close>

record warmer =
  wm_gh :: gh_client
  wm_allowed_repos :: "string set"
  wm_ttl :: nat
  wm_permits :: nat
  wm_nix_bin :: path
  wm_flake_inputs_sh :: path
  wm_cache_sh :: path
  wm_cache_base :: path
  wm_key_name :: string
  wm_tools_dir :: path
  wm_state_dir :: path
  wm_substituters :: string
  wm_trusted_public_keys :: string
  wm_timeout :: nat

definition resolve_trusted_public_keys :: "string \<Rightarrow> path \<Rightarrow> fsys \<Rightarrow> string res" where
  "resolve_trusted_public_keys configured mac_pubkey_file fs =
     and_then
       (if trim configured \<noteq> [] then Inr (trim configured)
        else (case read_to_string mac_pubkey_file fs of
                Inl e \<Rightarrow> Inl (Ctx ''read cache public key'' (IoErr e))
              | Inr raw \<Rightarrow>
                  (let mac = trim raw in
                   if mac = [] then Inl (Msg ''cache public key is empty'')
                   else Inr (mac @ '' '' @ CACHE_NIXOS_ORG_KEY))))
       (\<lambda>resolved.
          if list_ex (\<lambda>c. c = CHR 0x0A \<or> c = CHR 0x0D) resolved
          then Inl (Msg ''trusted-public-keys contains a newline'')
          else Inr resolved)"

definition require_path :: "path option \<Rightarrow> string \<Rightarrow> path res" where
  "require_path opt name =
     (case opt of None \<Rightarrow> Inl (Msg (name @ '' is required when CACHE_WARM_ENABLED'')) | Some p \<Rightarrow> Inr p)"

definition warmer_new :: "gh_client \<Rightarrow> string set \<Rightarrow> config \<Rightarrow> fsys \<Rightarrow> warmer res" where
  "warmer_new gh allowed c fs =
     and_then (require_path (nix_bin c) ''NIX_BIN'') (\<lambda>nix.
     and_then (require_path (mac_cache_dir c) ''MAC_CACHE_DIR'') (\<lambda>mac_cache.
     and_then (require_path (warm_cache_base c) ''WARM_CACHE_BASE'') (\<lambda>base.
     and_then (require_path (warm_tools_dir c) ''WARM_TOOLS_DIR'') (\<lambda>tools.
     and_then (resolve_trusted_public_keys (warm_trusted_public_keys c)
                 (join (join base ''keys'') (warm_cache_key_name c @ ''.public'')) fs) (\<lambda>trusted.
       Inr \<lparr>wm_gh = gh, wm_allowed_repos = allowed, wm_ttl = secs (unat (warm_coalesce_ttl_secs c)),
            wm_permits = max (warm_max_concurrency c) 1, wm_nix_bin = nix,
            wm_flake_inputs_sh = join mac_cache ''warm-flake-inputs.sh'',
            wm_cache_sh = join mac_cache ''warm-cache.sh'', wm_cache_base = base,
            wm_key_name = warm_cache_key_name c, wm_tools_dir = tools, wm_state_dir = state_dir c,
            wm_substituters = warm_substituters c, wm_trusted_public_keys = trusted,
            wm_timeout = secs (unat (max (warm_timeout_secs c) 1))\<rparr>)))))"

section \<open>Texts\<close>

definition build_flakeref :: "string \<Rightarrow> string \<Rightarrow> string \<Rightarrow> string \<Rightarrow> string" where
  "build_flakeref owner repo branch sha =
     ''git+https://github.com/'' @ owner @ ''/'' @ repo @ ''?ref='' @ encode_path_segment branch @ ''&rev='' @ sha"

definition nix_build_args :: "string \<Rightarrow> path \<Rightarrow> string \<Rightarrow> string \<Rightarrow> string list" where
  "nix_build_args installable out_link substituters trusted_public_keys =
     [''build'', installable, ''--out-link'', path_text out_link, ''--no-update-lock-file'', ''--no-registries'',
      ''--extra-experimental-features'', ''nix-command flakes'',
      ''--option'', ''accept-flake-config'', ''false'',
      ''--option'', ''flake-registry'', '''',
      ''--option'', ''allow-import-from-derivation'', ''false'',
      ''--option'', ''require-sigs'', ''true'',
      ''--option'', ''substituters'', substituters,
      ''--option'', ''trusted-public-keys'', trusted_public_keys]"

definition nix_derivation_show_args :: "string \<Rightarrow> string list" where
  "nix_derivation_show_args installable =
     [''derivation'', ''show'', ''--recursive'', installable, ''--no-update-lock-file'', ''--no-registries'',
      ''--extra-experimental-features'', ''nix-command flakes'',
      ''--option'', ''accept-flake-config'', ''false'',
      ''--option'', ''flake-registry'', '''',
      ''--option'', ''allow-import-from-derivation'', ''false'']"

definition netrc_contents :: "string \<Rightarrow> string" where
  "netrc_contents tok = ''machine github.com login x-access-token password '' @ tok @ [CHR 0x0A]"

definition nix_conf_contents :: "path \<Rightarrow> string \<Rightarrow> string \<Rightarrow> string" where
  "nix_conf_contents netrc_path substituters trusted_public_keys =
     ''netrc-file = '' @ path_text netrc_path @ [CHR 0x0A]
     @ ''accept-flake-config = false'' @ [CHR 0x0A]
     @ ''flake-registry = '' @ [CHR 0x0A]
     @ ''allow-import-from-derivation = false'' @ [CHR 0x0A]
     @ ''require-sigs = true'' @ [CHR 0x0A]
     @ ''substituters = '' @ substituters @ [CHR 0x0A]
     @ ''trusted-public-keys = '' @ trusted_public_keys @ [CHR 0x0A]
     @ ''experimental-features = nix-command flakes'' @ [CHR 0x0A]"

definition safe_char :: "string \<Rightarrow> string" where
  "safe_char ch =
     (case ch of [c] \<Rightarrow> if is_ascii_alnum c \<or> c \<in> {CHR ''.'', CHR ''_'', CHR ''-''} then [c] else ''_''
      | _ \<Rightarrow> ''_'')"

definition warm_slug :: "string \<Rightarrow> string \<Rightarrow> string \<Rightarrow> u64 \<Rightarrow> string" where
  "warm_slug owner repo sha attempt =
     (let safe = (\<lambda>s. concat (map safe_char (utf8_chars s)))
      in safe owner @ ''-'' @ safe repo @ ''-'' @ safe sha @ ''-'' @ dec_u64 attempt)"

definition outlink_slug :: "string \<Rightarrow> string" where
  "outlink_slug target = (if starts_with target ''devShells.'' then ''devshell'' else ''pkg'')"

section \<open>The scratch directory\<close>

definition chmod_0700 :: "path \<Rightarrow> unit io \<Rightarrow> unit res \<times> fsys" where
  "chmod_0700 p made =
     (case made of
        (Inl e, fs) \<Rightarrow> (Inl (Ctx ''create'' (IoErr e)), fs)
      | (Inr _, fs) \<Rightarrow>
          (case sys_chmod p 0x1C0 fs of
             (Inl e, fs') \<Rightarrow> (Inl (Ctx ''chmod 0700'' (IoErr e)), fs')
           | (Inr _, fs') \<Rightarrow> (Inr (), fs')))"

definition create_dir_0700 :: "path \<Rightarrow> fsys \<Rightarrow> unit res \<times> fsys" where
  "create_dir_0700 p fs = chmod_0700 p (sys_mkdir p fs)"

definition create_dir_all_0700 :: "path \<Rightarrow> fsys \<Rightarrow> unit res \<times> fsys" where
  "create_dir_all_0700 p fs = chmod_0700 p (sys_mkdir_all p fs)"

definition write_file_0600 :: "path \<Rightarrow> bytes \<Rightarrow> fsys \<Rightarrow> unit res \<times> fsys" where
  "write_file_0600 p b fs =
     (case sys_create_new p 0x180 fs of
        (Inl e, fs1) \<Rightarrow> (Inl (Ctx ''create'' (IoErr e)), fs1)
      | (Inr _, fs1) \<Rightarrow>
          (case sys_write_all p b fs1 of
             (Inl e, fs2) \<Rightarrow> (Inl (Ctx ''write'' (IoErr e)), fs2)
           | (Inr _, fs2) \<Rightarrow> (Inr (), fs2)))"

definition workdir_home :: "path \<Rightarrow> path" where "workdir_home r = join r ''home''"
definition workdir_netrc :: "path \<Rightarrow> path" where "workdir_netrc r = join r ''netrc''"
definition workdir_roots :: "path \<Rightarrow> path" where "workdir_roots r = join r ''roots''"

definition nix_conf_dir :: "path \<Rightarrow> path" where
  "nix_conf_dir r = join (join (workdir_home r) ''.config'') ''nix''"

text \<open>The \<open>?\<close> operator on file operations, and the \<open>Drop\<close> of the directory.\<close>

definition then_io :: "(fsys \<Rightarrow> unit res \<times> fsys) \<Rightarrow> (fsys \<Rightarrow> unit res \<times> fsys) \<Rightarrow> fsys \<Rightarrow> unit res \<times> fsys" where
  "then_io a b fs = (case a fs of (Inl e, fs') \<Rightarrow> (Inl e, fs') | (Inr _, fs') \<Rightarrow> b fs')"

definition workdir_drop :: "path \<Rightarrow> fsys \<Rightarrow> fsys" where
  "workdir_drop r fs = snd (sys_remove_dir_all r fs)"

definition workdir_fill :: "path \<Rightarrow> string \<Rightarrow> string \<Rightarrow> fsys \<Rightarrow> unit res \<times> fsys" where
  "workdir_fill r tok nix_conf =
     then_io (create_dir_0700 r)
     (then_io (create_dir_all_0700 (nix_conf_dir r))
     (then_io (create_dir_0700 (workdir_roots r))
     (then_io (write_file_0600 (workdir_netrc r) (netrc_contents tok))
              (write_file_0600 (join (nix_conf_dir r) ''nix.conf'') nix_conf))))"

definition workdir_create :: "path \<Rightarrow> string \<Rightarrow> string \<Rightarrow> string \<Rightarrow> fsys \<Rightarrow> path res \<times> fsys" where
  "workdir_create parent slug tok nix_conf fs =
     (case create_dir_all_0700 parent fs of
        (Inl e, fs1) \<Rightarrow> (Inl e, fs1)
      | (Inr _, fs1) \<Rightarrow>
          (let r = join parent slug; fs2 = snd (sys_remove_dir_all r fs1)
           in case workdir_fill r tok nix_conf fs2 of
                (Inl e, fs3) \<Rightarrow> (Inl e, workdir_drop r fs3)
              | (Inr _, fs3) \<Rightarrow> (Inr r, fs3)))"

section \<open>Children\<close>

text \<open>\<open>Path::parent().unwrap_or(self)\<close>.\<close>

definition parent_or_self :: "path \<Rightarrow> path" where
  "parent_or_self p = (if p = [] \<or> p = [''/''] then p else butlast p)"

definition child_env :: "warmer \<Rightarrow> path \<Rightarrow> (string \<times> string) list" where
  "child_env W r =
     (let home = workdir_home r
      in [(''HOME'', path_text home),
          (''XDG_CONFIG_HOME'', path_text (join home ''.config'')),
          (''XDG_CACHE_HOME'', path_text (join home ''.cache'')),
          (''XDG_DATA_HOME'', path_text (join (join home ''.local'') ''share'')),
          (''PATH'', path_text (parent_or_self (wm_nix_bin W)) @ '':'' @ path_text (wm_tools_dir W)
                     @ '':/usr/bin:/bin:/usr/sbin:/sbin''),
          (''GHA_CACHE_DIR'', path_text (wm_cache_base W)),
          (''GHA_CACHE_KEY_NAME'', wm_key_name W)])"

definition child_command :: "warmer \<Rightarrow> path \<Rightarrow> path \<Rightarrow> string list \<Rightarrow> command" where
  "child_command W r program args =
     \<lparr>cmd_program = program, cmd_args = args, cmd_env = child_env W r, cmd_dir = workdir_home r\<rparr>"

text \<open>
  On a timeout the whole group is killed and the child reaped.  The guard that kills the group when the
  future is dropped mid-wait never fires on a path that returns.
\<close>

definition run_step ::
    "'e host \<Rightarrow> warmer \<Rightarrow> path \<Rightarrow> path \<Rightarrow> string list \<Rightarrow> string \<Rightarrow> 'e warm_world \<Rightarrow> unit res \<times> 'e warm_world"
where
  "run_step H W r program args label w =
     (case spawn H (child_command W r program args) w of
        (Inl e, w1) \<Rightarrow> (Inl (Ctx (''spawn '' @ label) (Msg e)), w1)
      | (Inr pid, w1) \<Rightarrow>
          (case wait_until H pid (uptime (host_services H) w1 + wm_timeout W) w1 of
             (Some (Inr status), w2) \<Rightarrow>
               (if status = 0 then Inr () else Inl (Msg (label @ '' exited'')), w2)
           | (Some (Inl e), w2) \<Rightarrow> (Inl (Ctx (''wait '' @ label) (Msg e)), w2)
           | (None, w2) \<Rightarrow> (Inl (Msg (label @ '' timed out'')), reap H pid (kill_group H pid w2))))"

text \<open>
  The two children of the closure check.  A child that was waited for is disarmed; on every other way
  out its group is killed, the reader's before the writer's.
\<close>

definition closure_is_host_build_safe ::
    "'e host \<Rightarrow> warmer \<Rightarrow> path \<Rightarrow> string \<Rightarrow> 'e warm_world \<Rightarrow> bool \<times> 'e warm_world"
where
  "closure_is_host_build_safe H W r installable w =
     (case spawn_piped H (child_command W r (wm_nix_bin W) (nix_derivation_show_args installable)) w of
        (Inl _, w1) \<Rightarrow> (False, w1)
      | (Inr nix, w1) \<Rightarrow>
        if \<not> pipe_taken H nix w1 then (False, kill_group H nix w1)
        else
     (case spawn_reading H nix (child_command W r (join (wm_tools_dir W) ''jq'') [''-e'', CLOSURE_SYSTEM_FILTER]) w1 of
        (Inl _, w2) \<Rightarrow> (False, kill_group H nix w2)
      | (Inr jq, w2) \<Rightarrow>
        let deadline = uptime (host_services H) w2 + wm_timeout W in
     (case wait_until H jq deadline w2 of
        (None, w3) \<Rightarrow> (False, kill_group H nix (kill_group H jq w3))
      | (Some jq_status, w3) \<Rightarrow>
     (case wait_until H nix deadline w3 of
        (None, w4) \<Rightarrow> (False, kill_group H nix w4)
      | (Some nix_status, w4) \<Rightarrow> (nix_status = Inr 0 \<and> jq_status = Inr 0, w4)))))"

section \<open>One warm\<close>

definition warm_target ::
    "'e host \<Rightarrow> warmer \<Rightarrow> path \<Rightarrow> string \<Rightarrow> string \<Rightarrow> 'e warm_world \<Rightarrow> 'e warm_world" where
  "warm_target H W r flakeref target w =
     (let installable = flakeref @ ''#'' @ target in
      case closure_is_host_build_safe H W r installable w of
        (False, w1) \<Rightarrow> w1
      | (True, w1) \<Rightarrow>
          (let out_link = join (workdir_roots r) (outlink_slug target)
           in case run_step H W r (wm_nix_bin W)
                     (nix_build_args installable out_link (wm_substituters W) (wm_trusted_public_keys W))
                     ''nix build'' w1 of
                (Inl _, w2) \<Rightarrow> w2
              | (Inr _, w2) \<Rightarrow> snd (run_step H W r (wm_cache_sh W) [installable] ''warm-cache.sh'' w2)))"

definition run_warm ::
    "'e host \<Rightarrow> warmer \<Rightarrow> warm_candidate \<Rightarrow> string \<Rightarrow> 'e warm_world \<Rightarrow> bool \<times> 'e warm_world"
where
  "run_warm H W cand branch w =
     (let flakeref = build_flakeref (cand_owner cand) (cand_repo cand) branch (cand_head_sha cand) in
      case contents_read_token (host_services H) (wm_gh W) (cand_repo_id cand) w of
        (Inl _, w1) \<Rightarrow> (False, w1)
      | (Inr tok, w1) \<Rightarrow>
          (let attempt = next_attempt (machine w1);
               w2 = on_shared (\<lambda>m. m\<lparr>next_attempt := attempt + 1\<rparr>) w1;
               slug = warm_slug (cand_owner cand) (cand_repo cand) (cand_head_sha cand) attempt;
               warm_parent = join (wm_state_dir W) ''warm'';
               nix_conf = nix_conf_contents (join (join warm_parent slug) ''netrc'')
                            (wm_substituters W) (wm_trusted_public_keys W)
           in case on_disk (workdir_create warm_parent slug tok nix_conf) w2 of
                (Inl _, w3) \<Rightarrow> (False, w3)
              | (Inr r, w3) \<Rightarrow>
                  (let w4 = snd (run_step H W r (wm_flake_inputs_sh W) [flakeref] ''warm-flake-inputs.sh'' w3);
                       w5 = fold (warm_target H W r flakeref) WARM_TARGETS w4
                   in (True, w5\<lparr>disk := workdir_drop r (disk w5)\<rparr>))))"

text \<open>The task of one candidate; the permit comes back at its end.\<close>

definition warm_confirmed ::
    "'e host \<Rightarrow> warmer \<Rightarrow> warm_candidate \<Rightarrow> string \<Rightarrow> 'e warm_world \<Rightarrow> 'e warm_world" where
  "warm_confirmed H W cand branch w =
     (let mark = uptime (host_services H) w
      in case check_and_mark (wm_ttl W) (coalesce_key cand) mark (seen (machine w)) of
           (False, marks) \<Rightarrow> on_shared (\<lambda>m. m\<lparr>seen := marks\<rparr>) w
         | (True, marks) \<Rightarrow>
             (case run_warm H W cand branch (on_shared (\<lambda>m. m\<lparr>seen := marks\<rparr>) w) of
                (True, w1) \<Rightarrow> w1
              | (False, w1) \<Rightarrow> on_shared (\<lambda>m. m\<lparr>seen := clear (coalesce_key cand) mark (seen m)\<rparr>) w1))"

definition confirm_candidate ::
    "'e host \<Rightarrow> warmer \<Rightarrow> warm_candidate \<Rightarrow> 'e warm_world \<Rightarrow> 'e warm_world" where
  "confirm_candidate H W cand w =
     (case default_branch (host_services H) (wm_gh W) (cand_owner cand) (cand_repo cand) w of
        (Inl _, w1) \<Rightarrow> w1
      | (Inr branch, w1) \<Rightarrow>
          if cand_head_branch cand \<noteq> branch then w1
          else (case branch_tip (host_services H) (wm_gh W) (cand_owner cand) (cand_repo cand) branch w1 of
                  (Inl _, w2) \<Rightarrow> w2
                | (Inr tip, w2) \<Rightarrow>
                    if \<not> eq_ignore_ascii_case tip (cand_head_sha cand) then w2
                    else warm_confirmed H W cand branch w2))"

definition run_candidate ::
    "'e host \<Rightarrow> warmer \<Rightarrow> warm_candidate \<Rightarrow> 'e warm_world \<Rightarrow> 'e warm_world" where
  "run_candidate H W cand w =
     (if warm_slots (machine w) = 0 then w
      else on_shared (\<lambda>m. m\<lparr>warm_slots := Suc (warm_slots m)\<rparr>)
             (confirm_candidate H W cand (on_shared (\<lambda>m. m\<lparr>warm_slots := warm_slots m - 1\<rparr>) w)))"

text \<open>The candidate whose task the dispatch loop spawns, if the job is one.\<close>

definition maybe_trigger :: "warmer \<Rightarrow> workflow_job \<Rightarrow> warm_candidate option" where
  "maybe_trigger W event = parse_candidate event (wm_allowed_repos W)"

end
