(* ===== verification/Startup.thy ===== *)
theory Startup
  imports Gc_Sweep Config_Check Warm
begin

text \<open>
  How the daemon comes up (\<open>main.rs\<close>: \<open>main\<close>, and the head of \<open>run\<close> in \<open>supervisor.rs\<close>):
  the local checks, the credentials, the self-check against GitHub, the reap of a dead predecessor's VMs,
  and then the warmer, the control listener and the first sweep.  The command line, the log and the
  construction of the HTTP client (\<open>http_built\<close>) are crates.
\<close>

record runtime =
  rt_config :: config
  rt_gh :: gh_client
  rt_webhook_secret :: bytes
  rt_allowed_repos :: "string set"
  rt_runner_labels :: "string set"

text \<open>Everything that needs only this machine, in the order of the code.\<close>

definition bring_up :: "string + unit \<Rightarrow> config \<Rightarrow> 'e world \<Rightarrow> runtime res \<times> 'e world" where
  "bring_up http_built c0 w =
     (case validate c0 of
        Inl e \<Rightarrow> (Inl e, w)
      | Inr c1 \<Rightarrow>
        if euid (disk w) = 0 then (Inl (Msg ''refusing to run as uid 0''), w)
        else
     (case on_disk (ensure_paths c1) w of
        (Inl e, w1) \<Rightarrow> (Inl e, w1)
      | (Inr c, w1) \<Rightarrow>
     (case with_context ''read GH App private key file'' (read_private_file (app_private_key_file c) (disk w1)) of
        Inl e \<Rightarrow> (Inl e, w1)
      | Inr pem \<Rightarrow>
     (case load_webhook_secret c (disk w1) of
        Inl e \<Rightarrow> (Inl e, w1)
      | Inr secret \<Rightarrow>
     (case http_built of
        Inl e \<Rightarrow> (Inl (Msg e), w1)
      | Inr _ \<Rightarrow>
          (Inr \<lparr>rt_config = c,
                rt_gh = \<lparr>gh_api = api_url c, gh_account = org c, gh_app_id = app_id c, gh_pem = pem\<rparr>,
                rt_webhook_secret = secret, rt_allowed_repos = allowed_repos_set c,
                rt_runner_labels = runner_labels_set c\<rparr>, w1))))))"

text \<open>The self-check; \<open>fuel\<close> bounds the pages of each listing.\<close>

definition check_repo ::
    "nat \<Rightarrow> 'e services \<Rightarrow> gh_client \<Rightarrow> config \<Rightarrow> string \<Rightarrow> 'e world \<Rightarrow> (unit res \<times> 'e world) option"
where
  "check_repo fuel S g c repo w =
     (case split_once (CHR ''/'') repo of
        None \<Rightarrow> Some (Inl (Msg (''GH_ALLOWED_REPOS entry '' @ repo @ '' is not owner/name'')), w)
      | Some (owner, name) \<Rightarrow>
     (case list_runners fuel S g owner name ''gha-'' w of
        None \<Rightarrow> None
      | Some (Inl e, w1) \<Rightarrow> Some (Inl (Ctx (''startup self-check: listing runners on '' @ repo) e), w1)
      | Some (Inr _, w1) \<Rightarrow>
          if reconcile_enabled c \<or> job_completion_check c
          then (case list_queued_jobs fuel S g owner name w1 of
                  None \<Rightarrow> None
                | Some (Inl e, w2) \<Rightarrow> Some (Inl (Ctx (''startup self-check: listing queued jobs on '' @ repo) e), w2)
                | Some (Inr _, w2) \<Rightarrow> Some (Inr (), w2))
          else Some (Inr (), w1)))"

fun self_check ::
    "nat \<Rightarrow> 'e services \<Rightarrow> gh_client \<Rightarrow> config \<Rightarrow> string list \<Rightarrow> 'e world \<Rightarrow> (unit res \<times> 'e world) option"
where
  "self_check fuel S g c [] w = Some (Inr (), w)"
| "self_check fuel S g c (repo # repos) w =
     (case check_repo fuel S g c repo w of
        None \<Rightarrow> None
      | Some (Inl e, w1) \<Rightarrow> Some (Inl e, w1)
      | Some (Inr _, w1) \<Rightarrow> self_check fuel S g c repos w1)"

text \<open>\<open>main\<close> up to the call of \<open>supervisor::run\<close>.\<close>

definition main_startup ::
    "nat \<Rightarrow> 'e services \<Rightarrow> string + unit \<Rightarrow> config \<Rightarrow> 'e world \<Rightarrow> (runtime res \<times> 'e world) option"
where
  "main_startup fuel S http_built c w =
     (case bring_up http_built c w of
        (Inl e, w1) \<Rightarrow> Some (Inl e, w1)
      | (Inr rt, w1) \<Rightarrow>
          (case self_check fuel S (rt_gh rt) (rt_config rt) (allowed_repos (rt_config rt)) w1 of
             None \<Rightarrow> None
           | Some (Inl e, w2) \<Rightarrow> Some (Inl e, w2)
           | Some (Inr _, w2) \<Rightarrow> Some (Inr rt, reap_all_managed_vms_at_startup S (rt_config rt) w2)))"

text \<open>
  The head of \<open>supervisor::run\<close>, before its tasks are spawned; \<open>listen\<close> is
  \<open>TcpListener::bind\<close>.
\<close>

definition run_setup ::
    "nat \<Rightarrow> 'e services \<Rightarrow> (socket_addr \<Rightarrow> 'e world \<Rightarrow> (string + unit) \<times> 'e world) \<Rightarrow> runtime \<Rightarrow> 'e world
     \<Rightarrow> ((warmer option \<times> socket_addr option) res \<times> 'e world) option"
where
  "run_setup fuel S listen rt w =
     (let c = rt_config rt in
      case (if cache_warm_enabled c
            then with_context ''build cache warmer''
                   (and_then (warmer_new (rt_gh rt) (rt_allowed_repos rt) c (disk w)) (\<lambda>wm. Inr (Some wm)))
            else Inr None) of
        Inl e \<Rightarrow> Some (Inl e, w)
      | Inr wm \<Rightarrow>
     (case control_socket_addr c of
        Inl e \<Rightarrow> Some (Inl e, w)
      | Inr addr \<Rightarrow>
     (case (case addr of None \<Rightarrow> (Inr (), w) | Some a \<Rightarrow> listen a w) of
        (Inl e, w1) \<Rightarrow> Some (Inl (Ctx ''bind control server'' (Msg e)), w1)
      | (Inr _, w1) \<Rightarrow> map_option (\<lambda>w2. (Inr (wm, addr), w2)) (sweep fuel S (rt_gh rt) c w1))))"

end
