(* ===== verification/Config_Properties.thy ===== *)
theory Config_Properties
  imports Config_Check Supervisor_Policy
begin

text \<open>
  What a daemon that came up may rely on: which files and directories are out of other users' reach,
  what the staged template is, that there is a webhook secret, that no value of the configuration is one
  of the useless ones, and that the control endpoint is local.
\<close>

unbundle bit_operations_syntax

section \<open>Who may do what with an inode\<close>

text \<open>
  The POSIX check for a user other than root: the owner's bits for the owner, else the group's for a
  member of the group, else the others'.  \<open>want\<close> is 4 to read, 2 to write, 1 to execute.
\<close>

definition may :: "u32 \<Rightarrow> bool \<Rightarrow> u32 \<Rightarrow> inode \<Rightarrow> bool" where
  "may uid member want i \<longleftrightarrow>
     (if uid = iuid i then imode i AND (want * 64) \<noteq> 0
      else if member then imode i AND (want * 8) \<noteq> 0 else imode i AND want \<noteq> 0)"

lemma and_or_zero: "(m :: u32) AND (a OR b) = 0 \<longleftrightarrow> m AND a = 0 \<and> m AND b = 0"
  by (simp add: bit.conj_disj_distrib or_eq_0_iff)

lemma write_bits: "m AND group_other_write = 0 \<Longrightarrow> m AND 2 = 0 \<and> m AND 16 = 0"
proof -
  have e: "group_other_write = 2 OR 16" by (simp add: group_other_write_def)
  show "m AND 2 = 0 \<and> m AND 16 = 0" if "m AND group_other_write = 0"
    using that unfolding e and_or_zero by blast
qed

lemma access_bits:
  "m AND group_other = 0 \<Longrightarrow>
   m AND 1 = 0 \<and> m AND 2 = 0 \<and> m AND 4 = 0 \<and> m AND 8 = 0 \<and> m AND 16 = 0 \<and> m AND 32 = 0"
proof -
  have e: "group_other = 1 OR (2 OR (4 OR (8 OR (16 OR 32))))" by (simp add: group_other_def)
  show "m AND 1 = 0 \<and> m AND 2 = 0 \<and> m AND 4 = 0 \<and> m AND 8 = 0 \<and> m AND 16 = 0 \<and> m AND 32 = 0"
    if "m AND group_other = 0" using that unfolding e and_or_zero by blast
qed

lemma private_denied:
  assumes "imode i AND group_other = 0" and "uid \<noteq> iuid i" and "want = 1 \<or> want = 2 \<or> want = 4"
  shows "\<not> may uid member want i"
  using access_bits [OF assms(1)] assms(2,3) by (auto simp: may_def)

lemma trusted_denied: "trusted_owner fs i \<Longrightarrow> uid \<noteq> euid fs \<Longrightarrow> uid \<noteq> 0 \<Longrightarrow> \<not> may uid member 2 i"
  using write_bits [of "imode i"] by (auto simp: may_def trusted_owner_def)

section \<open>Private directories\<close>

definition dir_0700_at :: "fsys \<Rightarrow> path \<Rightarrow> bool" where
  "dir_0700_at fs p \<longleftrightarrow>
     (\<exists>i. get fs p = Some i \<and> ikind i = Directory \<and> iuid i = euid fs \<and> imode i = 0x1C0)"

lemma mkdir_all_missing:
  assumes "get fs p = None" and "sys_mkdir_all p fs = (Inr (), fs1)"
  shows "fs1 = put p \<lparr>ikind = Directory, idata = [], imtime = clock fs, imode = 0x1ED, iuid = euid fs\<rparr> fs"
  using assms by (auto simp: sys_mkdir_all_def split: option.splits if_splits)

lemma chmod_directory:
  assumes "get fs p = Some i" and "ikind i = Directory" and "sys_chmod p m fs = (Inr (), fs1)"
  shows "fs1 = put p (i\<lparr>imode := m\<rparr>) fs"
  using assms by (auto simp: sys_chmod_def eval_nat_numeral split: option.splits)

text \<open>
  Success leaves a 0700 directory of ours and changes nothing else, if \<open>lstat\<close> does not deny an
  entry that is there (no one creates the directory in that instant).
\<close>

lemma ensure_private_dir_Inr:
  assumes "ensure_private_dir p fs = (Inr (), fs')" and "fault fs OpStat p \<noteq> Some NotFound"
  shows "\<exists>i. ikind i = Directory \<and> iuid i = euid fs \<and> imode i = 0x1C0 \<and> get fs' p = Some i
       \<and> (\<forall>q. q \<noteq> p \<longrightarrow> get fs' q = get fs q) \<and> fault fs' = fault fs \<and> euid fs' = euid fs"
proof (cases "sys_lstat p fs")
  case (Inr md)
  then have g: "get fs p = Some md" by (simp add: lstat_Inr)
  obtain r where r: "first_err [ensure (\<not> (case ikind md of Symlink _ \<Rightarrow> True | _ \<Rightarrow> False)) ''is a symlink; refusing to manage it'',
      ensure (ikind md = Directory) ''exists but is not a directory'', require_owned_by_us md fs] = r" by blast
  with assms(1) Inr have "r = Inr ()" "sys_chmod p 0x1C0 fs = (Inr (), fs')"
    by (cases r; auto simp: ensure_private_dir_def split: prod.splits sum.splits)+
  with r have "ikind md = Directory" "iuid md = euid fs" by (auto simp: require_owned_by_us_def)
  with chmod_directory [OF g this(1) \<open>sys_chmod p 0x1C0 fs = (Inr (), fs')\<close>] show ?thesis by auto
next
  case (Inl e)
  with assms(2) have n: "e = NotFound \<Longrightarrow> get fs p = None"
    by (auto simp: sys_lstat_def split: option.splits)
  from assms(1) Inl obtain fs1 where m: "e = NotFound" "sys_mkdir_all p fs = (Inr (), fs1)" "sys_chmod p 0x1C0 fs1 = (Inr (), fs')"
    by (auto simp: ensure_private_dir_def split: sum.splits prod.splits io_kind.splits)
  from mkdir_all_missing [OF n [OF m(1)] m(2)] have fs1: "fs1 = put p \<lparr>ikind = Directory, idata = [], imtime = clock fs,
      imode = 0x1ED, iuid = euid fs\<rparr> fs" .
  then have "get fs1 p = Some \<lparr>ikind = Directory, idata = [], imtime = clock fs, imode = 0x1ED, iuid = euid fs\<rparr>" by simp
  from chmod_directory [OF this _ m(3)] fs1 show ?thesis by auto
qed

lemma dir_0700_D: "dir_0700_at fs p \<Longrightarrow> private_dir_at fs p"
  by (auto simp: dir_0700_at_def private_dir_at_def group_other_def)

text \<open>The list of directories: each is 0700 and ours at the end, also if it is named twice.\<close>

lemma ensure_private_dirs_Inr:
  "ensure_private_dirs ps fs = (Inr (), fs') \<Longrightarrow> (\<And>p. fault fs OpStat p \<noteq> Some NotFound) \<Longrightarrow>
   (\<forall>p \<in> set ps. dir_0700_at fs' p) \<and> fault fs' = fault fs \<and> euid fs' = euid fs
   \<and> (\<forall>q. q \<notin> set ps \<longrightarrow> get fs' q = get fs q) \<and> (\<forall>q. dir_0700_at fs q \<longrightarrow> dir_0700_at fs' q)"
proof (induction ps arbitrary: fs)
  case (Cons p ps)
  from Cons.prems(1) obtain fs1 where 1: "ensure_private_dir p fs = (Inr (), fs1)" "ensure_private_dirs ps fs1 = (Inr (), fs')"
    by (auto split: prod.splits sum.splits)
  from ensure_private_dir_Inr [OF 1(1) Cons.prems(2)] have a: "dir_0700_at fs1 p" "fault fs1 = fault fs" "euid fs1 = euid fs"
    "\<forall>q. q \<noteq> p \<longrightarrow> get fs1 q = get fs q" by (auto simp: dir_0700_at_def)
  then have d: "dir_0700_at fs q \<Longrightarrow> dir_0700_at fs1 q" for q by (cases "q = p") (auto simp: dir_0700_at_def)
  from Cons.IH [OF 1(2)] Cons.prems(2) a(2) have IH: "(\<forall>p \<in> set ps. dir_0700_at fs' p) \<and> fault fs' = fault fs1 \<and> euid fs' = euid fs1
    \<and> (\<forall>q. q \<notin> set ps \<longrightarrow> get fs' q = get fs1 q) \<and> (\<forall>q. dir_0700_at fs1 q \<longrightarrow> dir_0700_at fs' q)" by simp
  with a d show ?case by auto
qed simp

section \<open>Staging\<close>

lemma stage_Inr:
  assumes "stage_trusted_template src dst fs = (Inr (), fs')"
  shows "\<exists>i. get fs src = Some i \<and> ikind i = Regular \<and> iuid i = euid fs \<and> imode i AND group_other_write = 0
       \<and> get fs' dst = Some \<lparr>ikind = Regular, idata = idata i, imtime = clock fs, imode = 0x180, iuid = euid fs\<rparr>
       \<and> (\<forall>q. q \<noteq> dst \<longrightarrow> get fs' q = get fs q) \<and> map_option ikind (get fs dst) \<noteq> Some Directory
       \<and> euid fs' = euid fs"
proof -
  from assms obtain b where b: "and_then (open_fstat src fs) (\<lambda>md.
      and_then (first_err [ensure (ikind md = Regular) ''is not a regular file'', require_owned_by_us md fs,
           ensure (imode md AND group_other_write = 0) ''LIMA_TEMPLATE must be owner-writable only'',
           ensure (length (idata md) \<le> MAX_PRIVATE_FILE_BYTES) ''exceeds cap'']) (\<lambda>_.
      (case sys_read src md fs of Inl e \<Rightarrow> Inl (Ctx ''read'' (IoErr e)) | Inr b \<Rightarrow> Inr b))) = Inr b"
    by (auto simp: stage_trusted_template_def split: sum.splits)
  then obtain i where i: "get fs src = Some i" "ikind i = Regular" "iuid i = euid fs" "imode i AND group_other_write = 0"
      "idata i = b"
    by (auto simp: and_then_Inr_iff open_fstat_Inr require_owned_by_us_def sys_read_def split: sum.splits option.splits)
  obtain r fs1 where u: "sys_unlink dst fs = (r, fs1)" by fastforce
  from assms b u obtain fs2 where c: "r = Inr () \<or> r = Inl NotFound" "sys_create_new dst 0x180 fs1 = (Inr (), fs2)"
      "sys_write_all dst b fs2 = (Inr (), fs')"
    by (auto simp: stage_trusted_template_def split: sum.splits prod.splits if_splits)
  have f: "euid fs1 = euid fs" "clock fs1 = clock fs" "\<And>q. q \<noteq> dst \<Longrightarrow> get fs1 q = get fs q"
    using u by (auto simp: sys_unlink_def split: option.splits if_splits)
  have g: "get fs1 dst = None" "fs2 = put dst \<lparr>ikind = Regular, idata = [], imtime = clock fs1, imode = 0x180, iuid = euid fs1\<rparr> fs1"
    using c(2) by (auto simp: sys_create_new_def split: option.splits)
  then have "get fs2 dst = Some \<lparr>ikind = Regular, idata = [], imtime = clock fs1, imode = 0x180, iuid = euid fs1\<rparr>" by simp
  with c(3) have h: "fs' = put dst \<lparr>ikind = Regular, idata = b, imtime = clock fs, imode = 0x180, iuid = euid fs\<rparr> fs2"
    using f g by (auto simp: sys_write_all_def split: option.splits)
  have "map_option ikind (get fs dst) \<noteq> Some Directory"
    using u c(1) g(1) by (auto simp: sys_unlink_def split: option.splits if_splits)
  with i f g h show ?thesis by auto
qed

lemma stage_ok:
  assumes "no_faults fs" and "get fs src = Some i" and "ikind i = Regular" and "iuid i = euid fs"
    and "imode i AND group_other_write = 0" and "length (idata i) \<le> MAX_PRIVATE_FILE_BYTES"
    and "map_option ikind (get fs dst) \<noteq> Some Directory"
  shows "\<exists>fs'. stage_trusted_template src dst fs = (Inr (), fs')"
proof -
  have o: "open_fstat src fs = Inr i" using assms(1-3) by (simp add: open_fstat_Inr no_faults_def)
  moreover have "require_owned_by_us i fs = Inr ()" using assms(4) by (simp add: require_owned_by_us_def)
  ultimately show ?thesis
    using assms(1,3,5-7)
    by (auto simp: stage_trusted_template_def sys_read_def no_faults_def sys_unlink_def sys_create_new_def
        sys_write_all_def split: option.split)
qed

lemma stage_fault:
  assumes "stage_trusted_template src dst fs = (r, fs')"
  shows "fault fs' = fault fs"
proof -
  have "fault (snd (stage_trusted_template src dst fs)) = fault fs"
    by (simp add: stage_trusted_template_def case_prod_beta split: sum.split)
  with assms show ?thesis by simp
qed

section \<open>Properties\<close>


definition tool_fs :: fsys where
  "tool_fs = calm_fs [([''/'', ''limactl''], (plain_file [] 0)\<lparr>imode := 0x1ED, iuid := 0\<rparr>)] 5"


text \<open>
  \<open>executable_by\<close> ignores groups: it accepts a binary of root's with mode 0701, which the kernel
  refuses to a daemon in the file's group.
\<close>

lemma executable_by_ignores_groups:
  "executable_by 0 501 0x1C1 \<and> \<not> may 501 True 1 ((plain_file [] 0)\<lparr>imode := 0x1C1, iuid := 0\<rparr>)"
  by (simp add: executable_by_def may_def plain_file_def)


definition own_dir :: inode where
  "own_dir = \<lparr>ikind = Directory, idata = [], imtime = 0, imode = 0x1C0, iuid = 501\<rparr>"

definition fresh_host :: fsys where
  "fresh_host = calm_fs [([''spool''], own_dir), ([''spool'', ''new''], own_dir), ([''/'', ''state''], own_dir),
     ([''/'', ''state'', ''lima-template.yaml''], plain_file ''images:'' 3),
     ([''/'', ''limactl''], (plain_file [] 0)\<lparr>imode := 0x1ED, iuid := 0\<rparr>),
     ([''/'', ''app.pem''], plain_file ''pem'' 2)] 5"

lemma host_facts:
  "fault fresh_host op p = None" "euid fresh_host = 501" "clock fresh_host = 5"
  by (simp_all add: fresh_host_def calm_fs_def)

lemma fresh_host_comes_up:
  "\<exists>fs'. ensure_paths toy_config fresh_host = (Inr toy_config, fs') \<and> fault fs' = (\<lambda>_ _. None) \<and> euid fs' = 501
     \<and> get fs' (app_private_key_file toy_config) = Some (plain_file ''pem'' 2)"
proof -
  have "ensure_private_dirs (private_dirs toy_config) fresh_host
      = (Inr (), snd (ensure_private_dirs (private_dirs toy_config) fresh_host))"
    by (simp add: private_dirs_def toy_config_def fresh_host_def calm_fs_def own_dir_def plain_file_def
        ensure_private_dir_def sys_lstat_def sys_chmod_def get_def put_def join_def eval_nat_numeral
        require_owned_by_us_def sys_mkdir_all_def is_dir_at_def)
  then obtain fs1 where e: "ensure_private_dirs (private_dirs toy_config) fresh_host = (Inr (), fs1)" by blast
  have ps: "lima_template toy_config \<notin> set (private_dirs toy_config)" "limactl_path toy_config \<notin> set (private_dirs toy_config)"
    by (simp_all add: private_dirs_def toy_config_def join_def)
  from ensure_private_dirs_Inr [OF e] ps
  have f: "fault fs1 = (\<lambda>_ _. None)" "euid fs1 = 501" "get fs1 (lima_template toy_config) = Some (plain_file ''images:'' 3)"
    "get fs1 (limactl_path toy_config) = Some ((plain_file [] 0)\<lparr>imode := 0x1ED, iuid := 0\<rparr>)"
    by (simp_all add: fresh_host_def calm_fs_def get_def toy_config_def)
  have c: "\<not> cache_warm_enabled toy_config" "toy_config\<lparr>lima_template := lima_template toy_config\<rparr> = toy_config"
    by (simp_all add: toy_config_def)
  have t: "join (state_dir toy_config) ''lima-template.yaml'' = lima_template toy_config" by (simp add: toy_config_def join_def)
  from stage_ok [where src = "lima_template toy_config" and dst = "lima_template toy_config" and fs = fs1] f
  obtain fs2 where st: "stage_trusted_template (lima_template toy_config) (lima_template toy_config) fs1 = (Inr (), fs2)"
    by (auto simp: no_faults_def plain_file_def group_other_write_def MAX_PRIVATE_FILE_BYTES_def)
  from stage_Inr [OF st] f have g: "get fs2 (limactl_path toy_config) = Some ((plain_file [] 0)\<lparr>imode := 0x1ED, iuid := 0\<rparr>)"
    "euid fs2 = 501" by (auto simp: toy_config_def)
  have "app_private_key_file toy_config \<notin> set (private_dirs toy_config)" "app_private_key_file toy_config \<noteq> lima_template toy_config"
    by (simp_all add: private_dirs_def toy_config_def join_def)
  with ensure_private_dirs_Inr [OF e] stage_Inr [OF st] have pem: "get fs2 (app_private_key_file toy_config) = Some (plain_file ''pem'' 2)"
    by (auto simp: fresh_host_def calm_fs_def get_def toy_config_def)
  have "fault fs2 = fault fs1" by (rule stage_fault [OF st])
  with f g have "verify_trusted_executable (limactl_path toy_config) fs2 = Inr ()"
    by (simp add: verify_trusted_executable_def verify_trusted_path_iff trusted_file_at_def trusted_owner_def
        plain_file_def group_other_write_def executable_by_def toy_config_def is_absolute_def)
  moreover have "first_err [with_context ''spool root'' (verify_strict_private_dir (spool_dir toy_config) fresh_host),
      with_context ''spool new/'' (verify_strict_private_dir (join (spool_dir toy_config) ''new'') fresh_host)] = Inr ()"
    by (simp add: is_ok_iff verify_strict_iff private_dir_at_def)
       (simp add: toy_config_def fresh_host_def calm_fs_def get_def join_def own_dir_def group_other_def)
  ultimately have "ensure_paths toy_config fresh_host = (Inr toy_config, fs2)"
    using e st t c by (simp add: ensure_paths_def Let_def validate_cache_warm_def del: first_err_Inr)
  with pem f(1) g(2) \<open>fault fs2 = fault fs1\<close> show ?thesis by simp
qed


text \<open>The webhook secret has one source: it is never empty, comes from the inline value only when no
  file is named, and from a file only when there is no inline value and that file is a regular file of
  ours that no other user may read, without its final newline.\<close>

theorem webhook_secret_sound:
  assumes "load_webhook_secret c fs = Inr s"
  shows "s \<noteq> []
       \<and> (webhook_secret c = Some s \<and> webhook_secret_file c = None
          \<or> webhook_secret c = None \<and> (\<exists>p i. webhook_secret_file c = Some p \<and> get fs p = Some i \<and> ikind i = Regular
               \<and> list_all (\<lambda>member. uid = euid fs \<or> \<not> may uid member 4 i) [True, False]
               \<and> (idata i = s \<or> idata i = s @ [CHR 0x0A])))"
proof (cases "webhook_secret c")
  case (Some t)
  with assms show ?thesis by (auto simp: load_webhook_secret_def split: if_splits)
next
  case None
  with assms obtain p b where p: "webhook_secret_file c = Some p" "read_private_file p fs = Inr b"
      "s = (if b \<noteq> [] \<and> last b = CHR 0x0A then butlast b else b)" "s \<noteq> []"
    by (auto simp: load_webhook_secret_def and_then_Inr_iff Let_def split: option.splits if_splits)
  from read_private_Inr [OF p(2)] obtain i where i: "get fs p = Some i" "ikind i = Regular" "iuid i = euid fs"
    "imode i AND group_other = 0" "idata i = b" by blast
  have "b = s \<or> b = s @ [CHR 0x0A]" using p(3) by (metis append_butlast_last_id)
  with None p(1,4) i private_denied [OF i(4), of uid 4] show ?thesis by auto
qed

theorem webhook_secret_sound_witness: "load_webhook_secret toy_config fresh_host = Inr ''key'' \<and> ''key'' \<noteq> []"
proof -
  have l: "load_webhook_secret toy_config fresh_host = Inr ''key''"
    by (simp add: load_webhook_secret_def toy_config_def)
  from webhook_secret_sound [OF l, of 0] l show ?thesis by simp
qed

text \<open>Validation accepts exactly the usable configurations and changes nothing but the two lists, which
  lose their blanks: an allowlist that is not empty and has no empty entry, a gate label among the
  advertised ones, no zero interval, concurrency, runtime, poll period or timeout, the reconciler on, an
  https API unless the operator opted out, and a control address that is absent or loopback with a port.\<close>

theorem validate_spec:
  "(validate c = Inr c') =
     (c' = c\<lparr>allowed_repos := normalize_list (allowed_repos c), runner_labels := normalize_list (runner_labels c)\<rparr>
      \<and> allowed_repos c' \<noteq> [] \<and> [] \<notin> set (allowed_repos c') \<and> runner_label c' \<in> runner_labels_set c'
      \<and> 0 < max_concurrency c' \<and> 0 < gc_interval_secs c' \<and> 0 < reconcile_interval_secs c'
      \<and> 0 < job_max_runtime_secs c' \<and> 0 < dispatch_poll_secs c' \<and> 0 < api_timeout_secs c' \<and> reconcile_enabled c'
      \<and> (starts_with (api_url c') ''https://'' \<or> insecure_allow_http_api c')
      \<and> (control_addr c' = None
         \<or> (\<exists>s a port. control_addr c' = Some s \<and> parse_socket_addr s = Some (a, port) \<and> is_loopback a \<and> 0 < port)))"
proof -
  have n: "[] \<notin> set (normalize_list xs)" for xs by (simp add: normalize_list_def)
  have a: "(\<exists>r. control_socket_addr d = Inr r) \<longleftrightarrow> control_addr d = None
      \<or> (\<exists>s a port. control_addr d = Some s \<and> parse_socket_addr s = Some (a, port) \<and> is_loopback a \<and> 0 < port)" for d
    by (auto simp: control_socket_addr_def split: option.split)
  let ?c = "c\<lparr>allowed_repos := normalize_list (allowed_repos c), runner_labels := normalize_list (runner_labels c)\<rparr>"
  have v: "validate c = Inr c' \<longleftrightarrow> c' = ?c \<and> (\<exists>r. control_socket_addr ?c = Inr r) \<and> list_all is_ok
      [ensure (allowed_repos ?c \<noteq> []) [], ensure (list_ex (\<lambda>l. l = runner_label ?c) (runner_labels ?c)) [],
       ensure (max_concurrency c \<noteq> 0) [], ensure (gc_interval_secs c \<noteq> 0) [], ensure (reconcile_interval_secs c \<noteq> 0) [],
       ensure (job_max_runtime_secs c \<noteq> 0) [], ensure (dispatch_poll_secs c \<noteq> 0) [], ensure (api_timeout_secs c \<noteq> 0) [],
       ensure (reconcile_enabled c) [],
       ensure (\<not> (\<not> starts_with (api_url c) ''https://'' \<and> \<not> insecure_allow_http_api c)) []]"
    by (auto simp: validate_def Let_def and_then_Inr_iff)
  have lx: "list_ex (\<lambda>l. l = x) ls \<longleftrightarrow> x \<in> set ls" for x :: string and ls by (auto simp: list_ex_iff)
  show ?thesis unfolding v a using n by (auto simp: lx runner_labels_set_def word_neq_0_conv)
qed

lemma reconciler_not_optional: "\<not> reconcile_enabled c \<Longrightarrow> \<exists>e. validate c = Inl e"
proof (cases "validate c")
  case (Inr c')
  note v = iffD1 [OF validate_spec Inr]
  then have "c' = c\<lparr>allowed_repos := normalize_list (allowed_repos c), runner_labels := normalize_list (runner_labels c)\<rparr>"
    by (rule conjunct1)
  then have "reconcile_enabled c' = reconcile_enabled c" by simp
  moreover have "reconcile_enabled c'" using v by blast
  moreover assume "\<not> reconcile_enabled c"
  ultimately show ?thesis by blast
qed blast

text \<open>Socket addresses round-trip: the text of any IPv4 address and port parses to just that address and
  port, whatever the numbers in range, so the option \<open>--control-addr\<close> accepts every address of 127/8 with a port
  and refuses every other IPv4 address and port 0.\<close>

theorem socket_addr_round_trip:
  assumes "a < 256" and "b < 256" and "e < 256" and "d < 256" and "port < 65536"
  shows "parse_socket_addr (dec a @ ''.'' @ dec b @ ''.'' @ dec e @ ''.'' @ dec d @ '':'' @ dec port) = Some (V4 a b e d, port)
       \<and> (is_ok (control_socket_addr (c\<lparr>control_addr :=
             Some (dec a @ ''.'' @ dec b @ ''.'' @ dec e @ ''.'' @ dec d @ '':'' @ dec port)\<rparr>)) \<longleftrightarrow> a = 127 \<and> 0 < port)"
proof -
  have len: "length (dec n) \<le> 3" if "n < 256" for n
    using that by (simp add: dec.simps [of n] dec.simps [of "n div 10"] dec.simps [of "n div 10 div 10"])
  have oct: "read_octet (dec n @ rest) = Some (n, rest)" if "n < 256" "rest = [] \<or> to_digit 10 (hd rest) = None" for n rest
    unfolding read_octet_def using that len [OF that(1)] by (intro read_number_dec) auto
  have sep: "to_digit 10 (CHR ''.'') = None" "to_digit 10 (CHR '':'') = None" by code_simp+
  have num: "read_number 10 65536 None True (dec port) = Some (port, [])"
    using read_number_dec [of port 65536 None "[]" True] assms(5) by simp
  have p: "parse_socket_addr (dec a @ ''.'' @ dec b @ ''.'' @ dec e @ ''.'' @ dec d @ '':'' @ dec port) = Some (V4 a b e d, port)"
    using assms
    by (simp add: parse_socket_addr_def read_socket_v4_def read_ipv4_def oct sep after_separator_def read_char_def read_port_def num)
  then show ?thesis by (simp add: control_socket_addr_def is_loopback_def)
qed

theorem socket_addr_round_trip_witness:
  "parse_socket_addr (dec 127 @ ''.'' @ dec 0 @ ''.'' @ dec 0 @ ''.'' @ dec 1 @ '':'' @ dec 8080) = Some (V4 127 0 0 1, 8080)"
  using socket_addr_round_trip [of 127 0 0 1 8080] by simp

text \<open>An enabled cache warmer only ever runs and reads what nobody else can replace: the binary that is
  pinned is the canonical one, under the canonical \<open>/nix/store\<close>, whatever links or \<open>..\<close> the
  configured path had; the signing key is a file only we may read, whose name cannot leave \<open>keys/\<close>;
  the scripts, the sourced file, \<open>jq\<close> and all their directories are trusted; and no directory on the
  child's search path contains a colon.\<close>

theorem cache_warm_trusted:
  assumes "validate_cache_warm c fs = Inr c'" and "cache_warm_enabled c"
  shows "\<exists>nix real store base mac tools.
      nix_bin c = Some nix \<and> sys_realpath nix fs = Inr real \<and> c' = c\<lparr>nix_bin := Some real\<rparr>
      \<and> sys_realpath [''/'', ''nix'', ''store''] fs = Inr store \<and> take (length store) real = store
      \<and> warm_cache_base c = Some base \<and> mac_cache_dir c = Some mac \<and> warm_tools_dir c = Some tools
      \<and> owner_only_at fs (join (join base ''keys'') (warm_cache_key_name c @ ''.secret''))
      \<and> CHR ''/'' \<notin> set (warm_cache_key_name c) \<and> \<not> contains_str ''..'' (warm_cache_key_name c)
      \<and> list_all (trusted_dir_at fs) [base, join base ''keys'', mac, tools]
      \<and> list_all (trusted_file_at fs True) [nix, join mac ''warm-cache.sh'', join mac ''warm-flake-inputs.sh'', join tools ''jq'']
      \<and> list_all (trusted_file_at fs False) [join mac ''common.sh'', join (join base ''keys'') (warm_cache_key_name c @ ''.public'')]
      \<and> CHR '':'' \<notin> set (from_utf8_lossy (path_text tools))
      \<and> (1 < length real \<longrightarrow> CHR '':'' \<notin> set (from_utf8_lossy (path_text (butlast real))))
      \<and> 0 < warm_max_concurrency c \<and> 0 < warm_timeout_secs c \<and> is_absolute (state_dir c)"
proof -
  have req: "required n v = Inr x \<longleftrightarrow> v = Some x" for n x and v :: "path option"
    by (auto simp: required_def split: option.split)
  have wc: "is_ok (with_context m r) \<longleftrightarrow> r = Inr ()" for m and r :: "unit res" by (cases r) simp_all
  have under: "require_canonical_under q pre fs = Inr real \<longleftrightarrow>
      sys_realpath q fs = Inr real \<and> (\<exists>st. sys_realpath pre fs = Inr st \<and> take (length st) real = st)" for q pre real
    by (auto simp: require_canonical_under_def path_starts_with_def split: sum.split)
  have slash: "CHR ''/'' \<notin> set name" if "list_all (\<lambda>b. is_ascii_alnum b \<or> b = CHR ''.'' \<or> b = CHR ''_'' \<or> b = CHR ''-'') name" for name
    using that by (auto simp: list_all_iff is_ascii_alnum_def is_digit_def is_ascii_lower_def is_ascii_upper_def)
  from assms have g: "warm_max_concurrency c \<noteq> 0" "warm_timeout_secs c \<noteq> 0" "is_absolute (state_dir c)"
    by (auto simp: validate_cache_warm_def split: if_splits)
  with assms obtain nix base mac tools real where v:
    "nix_bin c = Some nix" "warm_cache_base c = Some base" "mac_cache_dir c = Some mac" "warm_tools_dir c = Some tools"
    "verify_trusted_executable nix fs = Inr ()" "require_canonical_under nix [''/'', ''nix'', ''store''] fs = Inr real"
    "(if length real > 1 then reject_path_separator (butlast real) ''NIX_BIN directory'' else Inr ()) = Inr ()"
    "c' = c\<lparr>nix_bin := Some real\<rparr>"
    and w: "list_all is_ok
          [with_context ''WARM_CACHE_BASE'' (verify_trusted_dir base fs),
           validate_cache_key_name (warm_cache_key_name c),
           with_context ''cache keys dir'' (verify_trusted_dir (join base ''keys'') fs),
           with_context ''cache public key'' (verify_trusted_file (join (join base ''keys'') (warm_cache_key_name c @ ''.public'')) fs),
           with_context ''cache signing key'' (verify_owner_only_file (join (join base ''keys'') (warm_cache_key_name c @ ''.secret'')) fs),
           with_context ''MAC_CACHE_DIR'' (verify_trusted_dir mac fs),
           with_context ''warm script'' (verify_trusted_executable (join mac ''warm-cache.sh'') fs),
           with_context ''warm script'' (verify_trusted_executable (join mac ''warm-flake-inputs.sh'') fs),
           with_context ''common.sh'' (verify_trusted_file (join mac ''common.sh'') fs),
           with_context ''WARM_TOOLS_DIR'' (verify_trusted_dir tools fs),
           reject_path_separator tools ''WARM_TOOLS_DIR'',
           with_context ''jq'' (verify_trusted_executable (join tools ''jq'') fs)]"
    by (auto simp: validate_cache_warm_def and_then_Inr_iff req Let_def)
  from v(7) have sep: "1 < length real \<longrightarrow> CHR '':'' \<notin> set (from_utf8_lossy (path_text (butlast real)))"
    by (simp add: reject_path_separator_def split: if_splits)
  from w have t: "list_all (trusted_dir_at fs) [base, join base ''keys'', mac, tools]"
      "list_all (trusted_file_at fs True) [join mac ''warm-cache.sh'', join mac ''warm-flake-inputs.sh'', join tools ''jq'']"
      "list_all (trusted_file_at fs False) [join mac ''common.sh'', join (join base ''keys'') (warm_cache_key_name c @ ''.public'')]"
      "owner_only_at fs (join (join base ''keys'') (warm_cache_key_name c @ ''.secret''))"
      "CHR '':'' \<notin> set (from_utf8_lossy (path_text tools))"
    and k: "validate_cache_key_name (warm_cache_key_name c) = Inr ()"
    by (simp_all add: wc verify_trusted_dir_iff verify_trusted_path_iff verify_owner_only_iff verify_trusted_file_def
        verify_trusted_executable_def reject_path_separator_def is_ok_iff)
  from k have "CHR ''/'' \<notin> set (warm_cache_key_name c)" "\<not> contains_str ''..'' (warm_cache_key_name c)"
    using slash by (auto simp: validate_cache_key_name_def)
  moreover have "trusted_file_at fs True nix"
    using v(5) by (simp add: verify_trusted_executable_def verify_trusted_path_iff)
  ultimately show ?thesis
    using v(1-4,8) t sep g v(6) [unfolded under] by (auto simp: word_neq_0_conv)
qed

definition warm_config :: config where
  "warm_config = toy_config\<lparr>cache_warm_enabled := True, nix_bin := Some [''/'', ''run'', ''nix''], warm_cache_base := Some [''/'', ''c''],
     mac_cache_dir := Some [''/'', ''m''], warm_tools_dir := Some [''/'', ''t''], warm_cache_key_name := ''k''\<rparr>"

definition root_dir :: inode where "root_dir = own_dir\<lparr>imode := 0x1ED, iuid := 0\<rparr>"
definition root_tool :: inode where "root_tool = (plain_file [] 0)\<lparr>imode := 0x1ED, iuid := 0\<rparr>"

text \<open>\<open>/run\<close> is a link into the store.\<close>

definition warm_host :: fsys where
  "warm_host = calm_fs [([''/'', ''run''], own_dir\<lparr>ikind := Symlink [''/'', ''nix'', ''store'', ''x'']\<rparr>),
     ([''/'', ''run'', ''nix''], root_tool), ([''/'', ''nix'', ''store'', ''x'', ''nix''], root_tool), ([''/'', ''c''], root_dir),
     ([''/'', ''c'', ''keys''], root_dir), ([''/'', ''c'', ''keys'', ''k.public''], root_tool),
     ([''/'', ''c'', ''keys'', ''k.secret''], plain_file [] 0), ([''/'', ''m''], root_dir), ([''/'', ''m'', ''warm-cache.sh''], root_tool),
     ([''/'', ''m'', ''warm-flake-inputs.sh''], root_tool), ([''/'', ''m'', ''common.sh''], root_tool),
     ([''/'', ''t''], root_dir), ([''/'', ''t'', ''jq''], root_tool)] 5"

lemma warm_host_valid:
  "validate_cache_warm warm_config warm_host = Inr (warm_config\<lparr>nix_bin := Some [''/'', ''nix'', ''store'', ''x'', ''nix'']\<rparr>)"
  by code_simp

theorem cache_warm_trusted_witness:
  "owner_only_at warm_host [''/'', ''c'', ''keys'', ''k.secret'']
   \<and> nix_bin (warm_config\<lparr>nix_bin := Some [''/'', ''nix'', ''store'', ''x'', ''nix'']\<rparr>) \<noteq> nix_bin warm_config"
proof -
  have "cache_warm_enabled warm_config" by (simp add: warm_config_def)
  from cache_warm_trusted [OF warm_host_valid this] show ?thesis
    by (auto simp: warm_config_def toy_config_def join_def)
qed

end
