(* ===== verification/Startup_Properties.thy ===== *)
theory Startup_Properties
  imports Startup Service_Frame Config_Properties
begin

text \<open>
  The startup fails closed: what was checked before anything outside is touched, and what a daemon that
  came up may rely on.
\<close>

section \<open>The self-check only sends requests\<close>

lemma check_repo_frame:
  assumes "http_frame S R" and "check_repo fuel S g c repo w = Some (x, w')"
  shows "R w w'"
proof -
  note fr = listing_frame(1) [OF assms(1)] list_queued_frame [OF assms(1)] http_trans [OF assms(1)] http_refl [OF assms(1)]
  show ?thesis
    using assms(2) fr by (auto simp: check_repo_def split: option.splits sum.splits if_splits prod.splits) blast+
qed

lemma self_check_frame:
  assumes "http_frame S R"
  shows "self_check fuel S g c repos w = Some (x, w') \<Longrightarrow> R w w'"
proof (induction repos arbitrary: w)
  case Nil
  then show ?case using http_refl [OF assms] by simp
next
  case (Cons r rs)
  obtain y w1 where j: "check_repo fuel S g c r w = Some (y, w1)"
    using Cons.prems by (auto split: option.splits)
  have "w' = w1 \<or> self_check fuel S g c rs w1 = Some (x, w')" using Cons.prems j by (auto split: sum.splits)
  with Cons.IH check_repo_frame [OF assms j] http_trans [OF assms] show ?case by blast
qed

lemma self_check_names:
  "self_check fuel S g c repos w = Some (Inr u, w') \<Longrightarrow> r \<in> set repos \<Longrightarrow> CHR ''/'' \<in> set r"
proof (induction repos arbitrary: w)
  case (Cons x xs)
  obtain y w1 where j: "check_repo fuel S g c x w = Some (y, w1)" "y = Inr ()" "self_check fuel S g c xs w1 = Some (Inr u, w')"
    using Cons.prems(1) by (auto split: option.splits sum.splits)
  have "split_once (CHR ''/'') x \<noteq> None" using j(1,2) by (cases "split_once (CHR ''/'') x") (simp_all add: check_repo_def)
  then have "CHR ''/'' \<in> set x" by (simp add: split_once_None_iff)
  with Cons.IH [OF j(3)] Cons.prems(2) show ?case by auto
qed simp

section \<open>The startup\<close>

lemma bring_up_world: "snd (bring_up hb c w) = w\<lparr>disk := disk (snd (bring_up hb c w))\<rparr>"
  by (simp add: bring_up_def on_disk_def case_prod_beta split: sum.split)

lemma bring_up_Inr:
  assumes "bring_up hb c0 w = (Inr rt, w1)"
  obtains c1 where "validate c0 = Inr c1" "euid (disk w) \<noteq> 0" "ensure_paths c1 (disk w) = (Inr (rt_config rt), disk w1)"
    "read_private_file (app_private_key_file (rt_config rt)) (disk w1) = Inr (gh_pem (rt_gh rt))"
    "load_webhook_secret (rt_config rt) (disk w1) = Inr (rt_webhook_secret rt)"
    "rt_allowed_repos rt = set (allowed_repos (rt_config rt))"
  using assms
  by (auto simp: bring_up_def on_disk_def case_prod_beta allowed_repos_set_def prod_eq_iff split: sum.splits if_splits)

lemma webhook_nonempty: "load_webhook_secret c fs = Inr s \<Longrightarrow> s \<noteq> []"
  by (auto simp: load_webhook_secret_def and_then_Inr_iff Let_def split: if_splits option.splits)

text \<open>An observation that requests to GitHub and changes of our own files do not affect, such as the
  commands given to \<open>limactl\<close>.\<close>

definition quiet :: "('e world \<Rightarrow> 'b) \<Rightarrow> 'e services \<Rightarrow> bool" where
  "quiet f S \<longleftrightarrow> http_frame S (\<lambda>w w'. f w' = f w) \<and> (\<forall>w d. f (w\<lparr>disk := d\<rparr>) = f w)"

text \<open>The three ends of \<open>main\<close>'s startup.\<close>

lemma main_startup_cases:
  assumes "main_startup fuel S hb c0 w = Some (r, w')"
  obtains (not_up) e where "bring_up hb c0 w = (Inl e, w')" "r = Inl e"
  | (refused) rt w1 e where "bring_up hb c0 w = (Inr rt, w1)"
      "self_check fuel S (rt_gh rt) (rt_config rt) (allowed_repos (rt_config rt)) w1 = Some (Inl e, w')" "r = Inl e"
  | (up) rt w1 w2 where "bring_up hb c0 w = (Inr rt, w1)"
      "self_check fuel S (rt_gh rt) (rt_config rt) (allowed_repos (rt_config rt)) w1 = Some (Inr (), w2)"
      "r = Inr rt" "w' = reap_all_managed_vms_at_startup S (rt_config rt) w2"
proof -
  obtain b w1 where b: "bring_up hb c0 w = (b, w1)" by fastforce
  show thesis
  proof (cases b)
    case (Inl e)
    with assms b show thesis by (intro not_up [of e]) (auto simp: main_startup_def)
  next
    case (Inr rt)
    with assms b obtain x w2 where s: "self_check fuel S (rt_gh rt) (rt_config rt) (allowed_repos (rt_config rt)) w1 = Some (x, w2)"
      by (auto simp: main_startup_def split: option.splits)
    show thesis
    proof (cases x)
      case (Inl e)
      with assms b s \<open>b = Inr rt\<close> show thesis by (intro refused [of rt w1 e]) (auto simp: main_startup_def)
    next
      case (Inr u)
      with assms b s \<open>b = Inr rt\<close> show thesis by (intro up [of rt w1 w2]) (auto simp: main_startup_def)
    qed
  qed
qed


text \<open>A host in order, and a GitHub that does not answer.\<close>

definition offline_world :: "string list world" where
  "offline_world = (toy_world [vm_name 7])\<lparr>disk := fresh_host\<rparr>"

lemma toy_services_quiet: "quiet machine toy_services"
  by (auto simp: quiet_def http_frame_def reflp_def transp_def toy_services_def)


end
