(* ===== verification/Control_Properties.thy ===== *)
theory Control_Properties
  imports Control
begin

text \<open>
  What the control endpoint shows: the queued list is what the dispatcher would run, the orphans cover
  what the garbage collector would reap, and the completed list is the newest part of the window.
\<close>

section \<open>Walks\<close>

lemma walk_entries_eq:
  "walk_entries f cap k ns = (List.map_filter f (take (cap - k) ns), k + min (length ns) (cap - k), cap \<le> k + length ns)"
proof (induction ns arbitrary: k)
  case (Cons n ns)
  then show ?case
    by (cases "cap \<le> k") (auto simp: take_Cons' map_filter_simps Suc_diff_Suc split: option.split)
qed (simp add: map_filter_simps)

lemma set_map_filter_iff: "y \<in> set (List.map_filter f xs) \<longleftrightarrow> (\<exists>x \<in> set xs. f x = Some y)"
  by (force simp: List.map_filter_def)

lemma list_active_eq:
  "list_active C st bkt t snap fs =
     (let dir = (case bkt of Queued \<Rightarrow> new_dir (ctl_spool st) | InFlight \<Rightarrow> cur_dir (ctl_spool st))
      in case sys_read_dir dir fs of
           Inl _ \<Rightarrow> ([], False)
         | Inr (names, _) \<Rightarrow>
             (List.map_filter (active_row C st bkt t snap dir fs) (take ACTIVE_CAP names), ACTIVE_CAP \<le> length names))"
  by (simp add: list_active_def walk_entries_eq Let_def case_prod_beta split: sum.split)

section \<open>Claims on a healthy spool\<close>

lemma healthyD: "healthy fs \<Longrightarrow> fault fs op p = None" "healthy fs \<Longrightarrow> get fs p = Some i \<Longrightarrow> ikind i = Regular"
  by (auto simp: healthy_def no_faults_def regular_only_def)

text \<open>An entry nobody claimed or archived is claimed, and reads in \<open>cur/\<close> as it did in \<open>new/\<close>.\<close>

lemma try_claim_healthy:
  assumes "healthy fs" and "get fs (new_path s n) = Some i" and "\<not> spent s fs n"
    and "\<not> has_nul (new_path s n)" "\<not> has_nul (cur_path_of s n)"
  shows "\<exists>fs'. try_claim s n fs = (Inr (Some (cur_path_of s n)), fs') \<and> fault fs' = fault fs
       \<and> get fs' (cur_path_of s n) = Some (i\<lparr>imtime := clock fs\<rparr>)"
proof -
  let ?a = "new_path s n" and ?b = "cur_path_of s n" and ?i = "i\<lparr>imtime := clock fs\<rparr>"
  let ?f = "stamp_mtime_now ?a fs"
  let ?g = "put ?b ?i (del ?a ?f)"
  from assms(3) have none: "get fs ?b = None" "\<not> marked s n fs" by (simp_all add: spent_def present_def)
  have a: "get ?f ?a = Some ?i"
    by (rule stamp_regular) (use assms(1,2) in \<open>simp_all add: healthyD\<close>)
  have r: "rename_no_clobber ?a ?b ?f = (Inr (), ?g)"
    by (rule rename_no_clobber_works) (use assms none a in \<open>simp_all add: healthyD get_stamp_other\<close>)
  have "\<not> marked s n ?g" using none by (simp add: marked_def present_def)
  then have "\<not> is_archived s n ?g" "\<not> is_archived s n fs"
    using none(2) is_archived_marked by blast+
  with r have "try_claim s n fs = (Inr (Some ?b), ?g)"
    by (simp add: try_claim_def try_claim_inner_def Let_def)
  then show ?thesis by simp
qed

lemma try_claim_healthyD:
  assumes "healthy fs" and "try_claim s n fs = (Inr (Some p), fs')"
  shows "\<not> spent s fs n" and "p = cur_path_of s n" and "\<exists>i. get fs (new_path s n) = Some i"
proof -
  from assms(2) obtain i where i: "\<not> is_archived s n fs" "p = cur_path_of s n"
    "get (stamp_mtime_now (new_path s n) fs) (new_path s n) = Some i" "get fs (cur_path_of s n) = None"
    unfolding try_claim_def by (rule try_claim_inner_SomeD)
  with assms(1) show "\<not> spent s fs n" "p = cur_path_of s n"
    by (simp_all add: spent_def present_def is_archived_healthy)
  from i(3) show "\<exists>i. get fs (new_path s n) = Some i" by (rule get_stamp_SomeD) blast
qed

lemma read_healthy:
  assumes "fault fs = (\<lambda>_ _. None)" and "get fs p = Some i" and "ikind i = Regular"
  shows "read_spool_file C p fs = Inr r \<longleftrightarrow> length (idata i) \<le> MAX_FILE_BYTES \<and> split_entry C (idata i) = Inr r"
  using assms by (auto simp: read_spool_file_Inr_iff sys_open_nofollow_def)

section \<open>The queued list\<close>

definition policy_of :: "control_state \<Rightarrow> config \<Rightarrow> bool" where
  "policy_of st cfg \<longleftrightarrow> runner_label cfg = ctl_runner_label st"

definition would_run :: "crates \<Rightarrow> control_state \<Rightarrow> config \<Rightarrow> fsys \<Rightarrow> string \<Rightarrow> workflow_job \<Rightarrow> bool" where
  "would_run C st cfg fs n event \<longleftrightarrow>
     (\<exists>p d fs'. prepare C (ctl_spool st) n cfg (ctl_webhook_secret st) (ctl_allowed_repos st)
                  (ctl_runner_labels st) fs = (Run p d event, fs'))"

lemma already_spent: "healthy fs \<Longrightarrow> already_claimed_or_archived s n fs \<longleftrightarrow> spent s fs n"
  by (auto simp: already_claimed_or_archived_def spent_def marked_def try_exists_healthy)

lemma would_run_iff:
  assumes "healthy fs" and "\<not> has_nul (root (ctl_spool st))" and "policy_of st cfg"
  shows "would_run C st cfg fs n event \<longleftrightarrow>
    (\<exists>i env body. n = canonical_name i \<and> \<not> spent (ctl_spool st) fs n
       \<and> read_spool_file C (new_path (ctl_spool st) n) fs = Inr (env, body)
       \<and> classify_validated_entry C i env body (ctl_webhook_secret st) (ctl_allowed_repos st)
           (ctl_runner_label st) (ctl_runner_labels st) = EntryRun event)"
  (is "?L \<longleftrightarrow> ?R")
proof
  let ?s = "ctl_spool st"
  assume ?L
  then obtain p d fs' where "prepare C ?s n cfg (ctl_webhook_secret st) (ctl_allowed_repos st)
      (ctl_runner_labels st) fs = (Run p d event, fs')" by (auto simp: would_run_def)
  then obtain i env body where p: "n = canonical_name i" "try_claim ?s n fs = (Inr (Some p), fs')"
    "read_spool_file C p fs' = Inr (env, body)"
    "classify_validated_entry C i env body (ctl_webhook_secret st) (ctl_allowed_repos st)
      (runner_label cfg) (ctl_runner_labels st) = EntryRun event"
    by (rule prepare_RunD)
  note c = try_claim_healthyD [OF assms(1) p(2)]
  then obtain f where f: "get fs (new_path ?s n) = Some f" by blast
  from try_claim_healthy [OF assms(1) f c(1)] no_nul_canonical [OF assms(2)] p(1,2)
  have g: "fault fs' = fault fs" "get fs' p = Some (f\<lparr>imtime := clock fs\<rparr>)" by auto
  have r: "ikind f = Regular" "fault fs = (\<lambda>_ _. None)"
    using assms(1) f by (auto simp: healthy_def no_faults_def regular_only_def)
  have "read_spool_file C (new_path ?s n) fs = Inr (env, body)"
    using p(3) read_healthy [of fs' p] read_healthy [of fs "new_path ?s n"] g r f by simp
  with p c(1) assms(3) show ?R by (auto simp: policy_of_def)
next
  let ?s = "ctl_spool st"
  assume ?R
  then obtain i env body where h: "n = canonical_name i" "\<not> spent ?s fs n"
    "read_spool_file C (new_path ?s n) fs = Inr (env, body)"
    "classify_validated_entry C i env body (ctl_webhook_secret st) (ctl_allowed_repos st)
      (ctl_runner_label st) (ctl_runner_labels st) = EntryRun event" by blast
  from read_spool_file_InrD [OF h(3)] obtain f where f: "get fs (new_path ?s n) = Some f" "ikind f = Regular" by blast
  from try_claim_healthy [OF assms(1) f(1) h(2)] no_nul_canonical [OF assms(2)] h(1) obtain fs' where
    c: "try_claim ?s n fs = (Inr (Some (cur_path_of ?s n)), fs')" "fault fs' = fault fs"
      "get fs' (cur_path_of ?s n) = Some (f\<lparr>imtime := clock fs\<rparr>)" by auto
  have z: "fault fs = (\<lambda>_ _. None)" using assms(1) by (simp add: healthy_def no_faults_def)
  have "read_spool_file C (cur_path_of ?s n) fs' = Inr (env, body)"
    using h(3) read_healthy [of fs' "cur_path_of ?s n"] read_healthy [of fs "new_path ?s n"] c f z by simp
  with h c(1) assms(3) have "prepare C ?s n cfg (ctl_webhook_secret st) (ctl_allowed_repos st)
      (ctl_runner_labels st) fs = (Run (cur_path_of ?s n) (env_delivery env) event, fs')"
    by (simp add: prepare_def policy_of_def)
  then show ?L by (auto simp: would_run_def)
qed

lemma queued_row_Some:
  "queued_row C st t m i n env body fs = Some r \<longleftrightarrow>
   n = canonical_name i \<and> \<not> already_claimed_or_archived (ctl_spool st) n fs \<and>
   (\<exists>event. classify_validated_entry C i env body (ctl_webhook_secret st) (ctl_allowed_repos st)
        (ctl_runner_label st) (ctl_runner_labels st) = EntryRun event
      \<and> queued_row C st t m i n env body fs = Some r)"
  by (cases "classify_validated_entry C i env body (ctl_webhook_secret st) (ctl_allowed_repos st)
        (ctl_runner_label st) (ctl_runner_labels st)") (auto simp: queued_row_def)

text \<open>What a row shows of the event behind it.\<close>

definition row_shows :: "job_summary \<Rightarrow> workflow_job \<Rightarrow> bool" where
  "row_shows r event \<longleftrightarrow>
     row_repo r = sanitize_for_log (full_name (ev_repository event))
     \<and> row_name r = Some (sanitize_for_log (job_name (ev_job event)))
     \<and> row_labels r = map sanitize_for_log (job_labels (ev_job event))
     \<and> row_run_id r = Some (dec_u64 (job_run_id (ev_job event)))"

lemma queued_row_shows:
  assumes "n = canonical_name i" and "\<not> already_claimed_or_archived (ctl_spool st) n fs"
    and "classify_validated_entry C i env body (ctl_webhook_secret st) (ctl_allowed_repos st)
        (ctl_runner_label st) (ctl_runner_labels st) = EntryRun event"
  shows "\<exists>r. queued_row C st t m i n env body fs = Some r \<and> row_id r @ ''.job'' = n \<and> row_shows r event"
  using assms by (simp add: queued_row_def row_shows_def canonical_name_def Let_def del: append.simps)

lemma active_row_queued:
  assumes "healthy fs" and "\<not> has_nul (root (ctl_spool st))" and "policy_of st cfg"
  shows "active_row C st Queued t snap (new_dir (ctl_spool st)) fs n = Some r \<Longrightarrow>
           \<exists>event. would_run C st cfg fs n event \<and> row_id r @ ''.job'' = n \<and> row_shows r event"
    and "would_run C st cfg fs n event \<Longrightarrow>
           \<exists>r. active_row C st Queued t snap (new_dir (ctl_spool st)) fs n = Some r
             \<and> row_id r @ ''.job'' = n \<and> row_shows r event"
proof -
  let ?p = "new_path (ctl_spool st) n"
  assume "active_row C st Queued t snap (new_dir (ctl_spool st)) fs n = Some r"
  then obtain i env body m where
    h: "read_spool_file C ?p fs = Inr (env, body)" "queued_row C st (ms_since_epoch t) m i n env body fs = Some r"
    by (auto simp: active_row_def Let_def split: if_splits option.splits sum.splits)
  from queued_row_Some [THEN iffD1, OF h(2)] obtain event where
    e: "n = canonical_name i" "\<not> already_claimed_or_archived (ctl_spool st) n fs"
      "classify_validated_entry C i env body (ctl_webhook_secret st) (ctl_allowed_repos st)
        (ctl_runner_label st) (ctl_runner_labels st) = EntryRun event" by blast
  from queued_row_shows [OF e, of "ms_since_epoch t" m] h(2) have "row_id r @ ''.job'' = n" "row_shows r event" by simp_all
  moreover have "would_run C st cfg fs n event"
    unfolding would_run_iff [OF assms] using e h(1) assms(1) by (auto simp: already_spent)
  ultimately show "\<exists>event. would_run C st cfg fs n event \<and> row_id r @ ''.job'' = n \<and> row_shows r event" by blast
next
  assume "would_run C st cfg fs n event"
  then obtain i env body where h: "n = canonical_name i" "\<not> spent (ctl_spool st) fs n"
    "read_spool_file C (new_path (ctl_spool st) n) fs = Inr (env, body)"
    "classify_validated_entry C i env body (ctl_webhook_secret st) (ctl_allowed_repos st)
      (ctl_runner_label st) (ctl_runner_labels st) = EntryRun event"
    unfolding would_run_iff [OF assms] by blast
  then have a: "\<not> already_claimed_or_archived (ctl_spool st) n fs" using assms(1) by (simp add: already_spent)
  from h(1) have u: "valid_utf8 n" "parse_spool_filename n = Some i" by simp_all
  from queued_row_shows [OF h(1) a h(4)] u h(3)
  show "\<exists>r. active_row C st Queued t snap (new_dir (ctl_spool st)) fs n = Some r
             \<and> row_id r @ ''.job'' = n \<and> row_shows r event"
    by (simp add: active_row_def Let_def)
qed

lemma read_dir_healthy: "healthy fs \<Longrightarrow> sys_read_dir d fs = Inr (children d fs, None)"
  by (simp add: sys_read_dir_def healthyD)

text \<open>C22: The queued list is the dispatcher's own plan: on a sound spool with fewer entries than the cap, the
  names listed are exactly the names \<open>prepare\<close> would turn into a job at that moment, each row shows
  the authenticated event of that job, and the list is not marked as truncated.  No job is shown that
  would be dropped, rejected or skipped as a duplicate.\<close>

theorem queued_list_is_what_runs:
  assumes "healthy fs" and "\<not> has_nul (root (ctl_spool st))" and "policy_of st cfg"
    and "length (children (new_dir (ctl_spool st)) fs) < ACTIVE_CAP"
    and "list_active C st Queued t snap fs = (rows, truncated)"
  shows "\<not> truncated
       \<and> (\<forall>r \<in> set rows. \<exists>n event. would_run C st cfg fs n event \<and> row_id r @ ''.job'' = n \<and> row_shows r event)
       \<and> (\<forall>n event. would_run C st cfg fs n event \<longrightarrow>
            (\<exists>r \<in> set rows. row_id r @ ''.job'' = n \<and> row_shows r event))"
proof -
  let ?d = "new_dir (ctl_spool st)"
  from assms(4,5) have rows: "rows = List.map_filter (active_row C st Queued t snap ?d fs) (children ?d fs)"
    and t: "\<not> truncated"
    by (simp_all add: list_active_eq read_dir_healthy [OF assms(1)] Let_def)
  note act = active_row_queued [OF assms(1-3), where C = C and t = t and snap = snap]
  have "\<exists>r \<in> set rows. row_id r @ ''.job'' = n \<and> row_shows r event" if w: "would_run C st cfg fs n event" for n event
  proof -
    from act(2) [OF w] obtain r where r: "active_row C st Queued t snap ?d fs n = Some r"
      "row_id r @ ''.job'' = n" "row_shows r event" by blast
    from w obtain env body where "read_spool_file C (new_path (ctl_spool st) n) fs = Inr (env, body)"
      unfolding would_run_iff [OF assms(1-3)] by blast
    from read_spool_file_InrD [OF this] have "n \<in> set (children ?d fs)" by (auto simp: set_children)
    with r(1) have "r \<in> set rows" unfolding rows set_map_filter_iff by blast
    with r show ?thesis by blast
  qed
  moreover have "\<exists>n event. would_run C st cfg fs n event \<and> row_id r @ ''.job'' = n \<and> row_shows r event"
    if "r \<in> set rows" for r
    using that act(1) unfolding rows set_map_filter_iff by blast
  ultimately show ?thesis using t by blast
qed

definition toy_control :: control_state where
  "toy_control = \<lparr>ctl_max_concurrency = 4, ctl_spool = demo_spool, ctl_webhook_secret = ''key'',
     ctl_allowed_repos = {''o/r''}, ctl_runner_labels = {''self-hosted'', ''lima-nix''},
     ctl_runner_label = ''lima-nix'', ctl_vms = default_snapshot\<rparr>"

theorem queued_list_is_what_runs_witness:
  "\<exists>r \<in> set (fst (list_active toy_crates toy_control Queued 90 default_snapshot toy_delivery)).
     row_id r @ ''.job'' = ''7.job'' \<and> row_shows r toy_event"
proof -
  have n: "canonical_name 7 = ''7.job''" by code_simp
  have h: "healthy toy_delivery" by (simp add: toy_delivery_def plain_file_def)
  have nul: "\<not> has_nul (root (ctl_spool toy_control))" by (simp add: toy_control_def demo_spool_def has_nul_def)
  have pol: "policy_of toy_control toy_config" by (simp add: policy_of_def toy_control_def toy_config_def)
  have cap: "length (children (new_dir (ctl_spool toy_control)) toy_delivery) < ACTIVE_CAP"
    by (simp add: toy_control_def toy_delivery_def children_def calm_fs_def ACTIVE_CAP_def)
  have r: "read_spool_file toy_crates (new_path demo_spool ''7.job'') toy_delivery = Inr (toy_envelope, ''B'')"
    by (rule read_spool_file_written [where line = "''E''" and i = "plain_file ([CHR ''E'', CHR 0x0A, CHR ''B'']) 5"])
       (simp_all add: toy_delivery_def calm_fs_def get_def plain_file_def toy_crates_def MAX_ENVELOPE_BYTES_def MAX_FILE_BYTES_def)
  have v: "classify_validated_entry toy_crates 7 toy_envelope ''B'' ''key'' {''o/r''} ''lima-nix''
      {''self-hosted'', ''lima-nix''} = EntryRun toy_event" by code_simp
  have "\<not> spent demo_spool toy_delivery ''7.job''" by code_simp
  with r v n have "would_run toy_crates toy_control toy_config toy_delivery ''7.job'' toy_event"
    unfolding would_run_iff [OF h nul pol]
    by (intro exI [of _ 7] exI [of _ toy_envelope] exI [of _ "''B''"]) (simp add: toy_control_def)
  with queued_list_is_what_runs [OF h nul pol cap surjective_pairing] show ?thesis by blast
qed

section \<open>The orphans\<close>

lemma in_flight_rows_claimed:
  assumes "active_row C st InFlight t snap cur fs n = Some r"
  shows "\<exists>i. claim_entry cur fs n = Some i \<and> row_vm r = Some (vm_name i)"
proof -
  from assms obtain i env body where h: "valid_utf8 n" "parse_spool_filename n = Some i"
    "read_spool_file C (join cur n) fs = Inr (env, body)" "row_vm r = Some (vm_name i)"
    by (auto simp: active_row_def in_flight_row_def Let_def case_prod_beta split: if_splits option.splits sum.splits)
  from read_spool_file_InrD [OF h(3)] obtain f where "get fs (join cur n) = Some f" "ikind f = Regular" by blast
  with h show ?thesis by (simp add: claim_entry_def split: option.split)
qed

lemma claimed_row:
  assumes "claim_entry cur fs n = Some i" and "read_spool_file C (join cur n) fs = Inr v"
  shows "\<exists>r. active_row C st InFlight t snap cur fs n = Some r \<and> row_vm r = Some (vm_name i)"
  using assms
  by (cases v) (auto simp: active_row_def claim_entry_def in_flight_row_def Let_def case_prod_beta
      split: if_splits option.splits)

text \<open>The VMs the garbage collector would reap because no claim is behind them.\<close>

definition gc_orphans :: "managed_vm list \<Rightarrow> (string \<times> path) list \<Rightarrow> image_identity option \<Rightarrow> string set" where
  "gc_orphans managed live current = {v. Orphan v \<in> set (plan_vm_reaps managed (Some live) current)}"

definition readable_claims :: "crates \<Rightarrow> path \<Rightarrow> fsys \<Rightarrow> bool" where
  "readable_claims C cur fs \<longleftrightarrow>
     (\<forall>n \<in> set (children cur fs). claim_entry cur fs n \<noteq> None \<longrightarrow> is_ok (read_spool_file C (join cur n) fs))"

text \<open>C35: The orphans the endpoint shows include every VM of the snapshot that the garbage collector would reap
  as unclaimed, and they are exactly those when the claims of \<open>cur/\<close> can all be read and are fewer
  than the cap.\<close>

theorem shown_orphans_cover_gc:
  assumes "live_vm_map_from_cur (cur_dir (ctl_spool st)) fs = Inr live"
    and "map vm_id managed = map fst (snapshot_vms (ctl_vms st))"
  shows "gc_orphans managed live current \<subseteq> set (rsp_orphan_vms (control_jobs C st fs))
       \<and> (readable_claims C (cur_dir (ctl_spool st)) fs \<and> length (children (cur_dir (ctl_spool st)) fs) < ACTIVE_CAP
          \<longrightarrow> gc_orphans managed live current = set (rsp_orphan_vms (control_jobs C st fs)))"
proof -
  let ?cur = "cur_dir (ctl_spool st)" and ?t = "clock fs" and ?snap = "ctl_vms st"
  let ?rows = "fst (list_active C st InFlight ?t ?snap fs)"
  let ?claimed = "set (List.map_filter row_vm ?rows)"
  note live = live_map_cases(1) [OF assms(1)]
  have rd: "sys_read_dir ?cur fs = Inr (children ?cur fs, None)"
    using live by (simp add: sys_read_dir_def readable_dir_def)
  have rows: "?rows = List.map_filter (active_row C st InFlight ?t ?snap ?cur fs) (take ACTIVE_CAP (children ?cur fs))"
    by (simp add: list_active_eq rd Let_def)
  have shown: "set (rsp_orphan_vms (control_jobs C st fs)) = fst ` set (snapshot_vms ?snap) - ?claimed"
    by (auto simp: control_jobs_def orphan_vm_names_def Let_def case_prod_beta)
  have "fst ` set (snapshot_vms ?snap) = vm_id ` set managed" by (metis assms(2) list.set_map)
  then have gc: "gc_orphans managed live current = fst ` set (snapshot_vms ?snap) - vm_name ` claimed_ids ?cur fs"
    using live by (auto simp: gc_orphans_def plan_vm_reaps_Orphan)
  have sub: "?claimed \<subseteq> vm_name ` claimed_ids ?cur fs"
  proof
    fix v assume "v \<in> ?claimed"
    then obtain r n where "n \<in> set (children ?cur fs)" "active_row C st InFlight ?t ?snap ?cur fs n = Some r" "row_vm r = Some v"
      by (auto simp: rows set_map_filter_iff dest!: in_set_takeD)
    with in_flight_rows_claimed [OF this(2)] show "v \<in> vm_name ` claimed_ids ?cur fs"
      by (auto simp: claimed_ids_def set_children)
  qed
  have "vm_name ` claimed_ids ?cur fs \<subseteq> ?claimed"
    if r: "readable_claims C ?cur fs" and l: "length (children ?cur fs) < ACTIVE_CAP"
  proof
    fix v assume "v \<in> vm_name ` claimed_ids ?cur fs"
    then obtain n i where n: "n \<in> set (children ?cur fs)" "claim_entry ?cur fs n = Some i" "v = vm_name i"
      by (auto simp: claimed_ids_def set_children)
    with r obtain w where "read_spool_file C (join ?cur n) fs = Inr w"
      unfolding readable_claims_def is_ok_iff by fastforce
    from claimed_row [OF n(2) this, of st ?t ?snap] obtain r where
      r: "active_row C st InFlight ?t ?snap ?cur fs n = Some r" "row_vm r = Some (vm_name i)" by blast
    from l have "take ACTIVE_CAP (children ?cur fs) = children ?cur fs" by simp
    with n(1) r(1) have "r \<in> set ?rows" unfolding rows set_map_filter_iff by auto
    with r(2) n(3) show "v \<in> ?claimed" by (auto simp: set_map_filter_iff)
  qed
  with sub show ?thesis unfolding gc shown by blast
qed

text \<open>A VM with a claim, and one without.\<close>

definition toy_cur :: "bytes \<Rightarrow> fsys" where
  "toy_cur b = calm_fs [(cur_path_of demo_spool (canonical_name 7), plain_file b 5)] 90"

definition two_vms :: control_state where
  "two_vms = toy_control\<lparr>ctl_vms := \<lparr>taken_ms = 1,
     snapshot_vms = [(vm_name 7, Some ''Running''), (vm_name 8, None)]\<rparr>\<rparr>"

definition two_managed :: "managed_vm list" where
  "two_managed = [\<lparr>vm_id = vm_name 7, vm_image = None\<rparr>, \<lparr>vm_id = vm_name 8, vm_image = None\<rparr>]"

lemma toy_cur_facts:
  "live_vm_map_from_cur (cur_dir (ctl_spool two_vms)) (toy_cur b)
     = Inr [(vm_name 7, cur_path_of demo_spool (canonical_name 7))]"
  "map vm_id two_managed = map fst (snapshot_vms (ctl_vms two_vms))"
  "children (cur_dir (ctl_spool two_vms)) (toy_cur b) = [canonical_name 7]"
  "gc_orphans two_managed [(vm_name 7, p)] None = {vm_name 8}"
proof -
  show c: "children (cur_dir (ctl_spool two_vms)) (toy_cur b) = [canonical_name 7]"
    by (simp add: children_def toy_cur_def calm_fs_def two_vms_def toy_control_def)
  show "live_vm_map_from_cur (cur_dir (ctl_spool two_vms)) (toy_cur b)
     = Inr [(vm_name 7, cur_path_of demo_spool (canonical_name 7))]"
    using c by (simp add: live_vm_map_from_cur_def sys_read_dir_def toy_cur_def calm_fs_def two_vms_def toy_control_def
        add_claim_def claim_entry_def get_def plain_file_def)
  show "map vm_id two_managed = map fst (snapshot_vms (ctl_vms two_vms))"
    by (simp add: two_managed_def two_vms_def)
  show "gc_orphans two_managed [(vm_name 7, p)] None = {vm_name 8}"
    by (auto simp: gc_orphans_def two_managed_def)
qed

theorem shown_orphans_cover_gc_witness:
  "set (rsp_orphan_vms (control_jobs toy_crates two_vms (toy_cur [CHR ''E'', CHR 0x0A, CHR ''B'']))) = {vm_name 8}"
proof -
  let ?fs = "toy_cur [CHR ''E'', CHR 0x0A, CHR ''B'']"
  have g: "get ?fs (cur_path_of demo_spool (canonical_name 7)) = Some (plain_file [CHR ''E'', CHR 0x0A, CHR ''B''] 5)"
    by (simp add: toy_cur_def calm_fs_def get_def)
  have "read_spool_file toy_crates (cur_path_of demo_spool (canonical_name 7)) ?fs = Inr (toy_envelope, ''B'')"
    by (rule read_spool_file_written [OF g, where line = "''E''"])
       (simp_all add: toy_cur_def calm_fs_def plain_file_def toy_crates_def MAX_ENVELOPE_BYTES_def MAX_FILE_BYTES_def)
  then have "readable_claims toy_crates (cur_dir (ctl_spool two_vms)) ?fs"
    using toy_cur_facts(3) by (simp add: readable_claims_def) (simp add: two_vms_def toy_control_def)
  moreover have "length (children (cur_dir (ctl_spool two_vms)) ?fs) < ACTIVE_CAP"
    by (simp add: toy_cur_facts ACTIVE_CAP_def)
  ultimately show ?thesis
    using shown_orphans_cover_gc [OF toy_cur_facts(1,2), where C = toy_crates and current = None] toy_cur_facts(4) by metis
qed

text \<open>A claim whose file cannot be read keeps its VM alive, but the endpoint calls the VM an orphan.\<close>

lemma unreadable_claim_shown_as_orphan:
  "vm_name 7 \<in> set (rsp_orphan_vms (control_jobs toy_crates two_vms (toy_cur ''x'')))"
  "live_vm_map_from_cur (cur_dir (ctl_spool two_vms)) (toy_cur ''x'') = Inr live \<Longrightarrow>
   vm_name 7 \<notin> gc_orphans two_managed live current"
proof -
  have "\<not> is_ok (read_spool_file toy_crates (join (cur_dir (ctl_spool two_vms)) (canonical_name 7)) (toy_cur ''x''))"
    by (auto simp: is_ok_iff two_vms_def toy_control_def toy_cur_def calm_fs_def get_def plain_file_def
        Cons_eq_append_conv dest!: read_spool_file_InrD)
  then have "list_active toy_crates two_vms InFlight t snap (toy_cur ''x'') = ([], False)" for t snap
    using toy_cur_facts(3) [of "''x''"]
    by (auto simp: list_active_eq Let_def sys_read_dir_def toy_cur_def calm_fs_def active_row_def map_filter_simps
        ACTIVE_CAP_def is_ok_def split: option.splits sum.splits)
  then show "vm_name 7 \<in> set (rsp_orphan_vms (control_jobs toy_crates two_vms (toy_cur ''x'')))"
    by (simp add: control_jobs_def orphan_vm_names_def Let_def case_prod_beta map_filter_simps two_vms_def)
  assume "live_vm_map_from_cur (cur_dir (ctl_spool two_vms)) (toy_cur ''x'') = Inr live"
  then show "vm_name 7 \<notin> gc_orphans two_managed live current"
    by (auto simp: toy_cur_facts gc_orphans_def plan_vm_reaps_Orphan)
qed

text \<open>A directory with exactly the cap's number of entries is listed to its end and still marked truncated.\<close>

lemma full_list_marked_truncated:
  assumes "healthy fs" and "length (children (new_dir (ctl_spool st)) fs) = ACTIVE_CAP"
  shows "list_active C st Queued t snap fs =
     (List.map_filter (active_row C st Queued t snap (new_dir (ctl_spool st)) fs) (children (new_dir (ctl_spool st)) fs), True)"
  using assms by (simp add: list_active_eq read_dir_healthy Let_def)

section \<open>The completed list\<close>

text \<open>An archived job within the window, and its place in the list.\<close>

definition windowed :: "spool \<Rightarrow> systime \<Rightarrow> fsys \<Rightarrow> archived_entry \<Rightarrow> bool" where
  "windowed s t fs e \<longleftrightarrow>
     (case e of (i, outcome, finished_ms, p) \<Rightarrow>
       \<exists>n md. (outcome = ''done'' \<and> p = done_path s n \<or> outcome = ''error'' \<and> p = error_path s n)
         \<and> valid_utf8 n \<and> parse_spool_filename n = Some i \<and> sys_lstat p fs = Inr md
         \<and> (\<forall>c. systime_checked_sub t (secs COMPLETED_WINDOW_SECS) = Some c \<longrightarrow> c \<le> imtime md)
         \<and> finished_ms = ms_since_epoch (imtime md))"

lemma window_entry_Some:
  "window_entry d outcome cutoff fs n = Some e \<longleftrightarrow>
   valid_utf8 n \<and> (\<exists>i md. parse_spool_filename n = Some i \<and> sys_lstat (join d n) fs = Inr md
     \<and> (\<forall>c. cutoff = Some c \<longrightarrow> c \<le> imtime md) \<and> e = (i, outcome, ms_since_epoch (imtime md), join d n))"
  by (auto simp: window_entry_def split: option.splits sum.splits)

lemma windowed_iff:
  "windowed s t fs e \<longleftrightarrow>
   (\<exists>n. window_entry (done_dir s) ''done'' (systime_checked_sub t (secs COMPLETED_WINDOW_SECS)) fs n = Some e) \<or>
   (\<exists>n. window_entry (error_dir s) ''error'' (systime_checked_sub t (secs COMPLETED_WINDOW_SECS)) fs n = Some e)"
  unfolding window_entry_Some windowed_def by (cases e) blast

lemma collect_window_set:
  assumes "collect_window d o' cutoff fs out scanned = (out', scanned', capped)"
  shows "set out' \<subseteq> set out \<union> {e. \<exists>n. window_entry d o' cutoff fs n = Some e}"
    and "readable_dir d fs \<Longrightarrow> \<not> capped \<Longrightarrow> set out' = set out \<union> {e. \<exists>n. window_entry d o' cutoff fs n = Some e}"
proof -
  show "set out' \<subseteq> set out \<union> {e. \<exists>n. window_entry d o' cutoff fs n = Some e}"
    using assms
    by (auto simp: collect_window_def walk_entries_eq set_map_filter_iff case_prod_beta split: sum.splits)
  assume r: "readable_dir d fs" and c: "\<not> capped"
  then have "out' = out @ List.map_filter (window_entry d o' cutoff fs) (children d fs)"
    using assms by (auto simp: collect_window_def walk_entries_eq sys_read_dir_def readable_dir_def)
  moreover have "n \<in> set (children d fs)" if "window_entry d o' cutoff fs n = Some e" for n e
    using that by (auto simp: window_entry_Some set_children sys_lstat_def split: option.splits)
  ultimately show "set out' = set out \<union> {e. \<exists>n. window_entry d o' cutoff fs n = Some e}"
    by (auto simp: set_map_filter_iff) blast
qed

definition finished :: "archived_entry \<Rightarrow> nat" where
  "finished e = fst (snd (snd e))"

text \<open>The list, as rows of the entries that survive the sort and the cut.\<close>

lemma list_completed_rows:
  assumes "list_completed C s t fs = (rows, truncated)"
  obtains found where "rows = map (completed_row C fs) (take COMPLETED_CAP (sort_key (\<lambda>e. - int (finished e)) found))"
    "set found \<subseteq> Collect (windowed s t fs)"
    "readable_dir (done_dir s) fs \<Longrightarrow> readable_dir (error_dir s) fs \<Longrightarrow> \<not> truncated \<Longrightarrow>
       set found = Collect (windowed s t fs) \<and> length found \<le> COMPLETED_CAP"
proof -
  let ?cut = "systime_checked_sub t (secs COMPLETED_WINDOW_SECS)"
  obtain f1 n1 c1 where 1: "collect_window (done_dir s) ''done'' ?cut fs [] 0 = (f1, n1, c1)" by (metis prod_cases3)
  obtain f2 n2 c2 where 2: "collect_window (error_dir s) ''error'' ?cut fs f1 n1 = (f2, n2, c2)" by (metis prod_cases3)
  have key: "(\<lambda>(_, _, finished_ms, _). - int finished_ms) = (\<lambda>e :: archived_entry. - int (finished e))"
    by (auto simp: finished_def fun_eq_iff)
  from assms 1 2 have r: "rows = map (completed_row C fs) (take COMPLETED_CAP (sort_key (\<lambda>e. - int (finished e)) f2))"
    and t: "truncated \<longleftrightarrow> COMPLETED_CAP < length f2 \<or> c1 \<or> c2"
    by (auto simp: list_completed_def Let_def key)
  show ?thesis
  proof (rule that [OF r])
    show "set f2 \<subseteq> Collect (windowed s t fs)"
      using collect_window_set(1) [OF 1] collect_window_set(1) [OF 2] unfolding windowed_iff list.set by blast
    assume "readable_dir (done_dir s) fs" "readable_dir (error_dir s) fs" "\<not> truncated"
    with collect_window_set(2) [OF 1] collect_window_set(2) [OF 2] t
    show "set f2 = Collect (windowed s t fs) \<and> length f2 \<le> COMPLETED_CAP"
      unfolding windowed_iff list.set by auto
  qed
qed

lemma completed_row_finished [simp]: "fin_finished_ms (completed_row C fs e) = finished e"
  by (simp add: completed_row_def finished_def Let_def case_prod_beta)

text \<open>The completed list never claims too much and says when it may be short: at most 200 rows, newest
  first, each of them an archived job of \<open>done/\<close> or \<open>error/\<close> within the last day with its own
  outcome and time; and when the directories can be read and the list is not marked truncated, every such
  job is on it.\<close>

theorem completed_list_spec:
  assumes "list_completed C s t fs = (rows, truncated)"
  shows "length rows \<le> COMPLETED_CAP
       \<and> sorted_wrt (\<lambda>a b. fin_finished_ms b \<le> fin_finished_ms a) rows
       \<and> set rows \<subseteq> completed_row C fs ` Collect (windowed s t fs)
       \<and> (readable_dir (done_dir s) fs \<and> readable_dir (error_dir s) fs \<and> \<not> truncated
           \<longrightarrow> set rows = completed_row C fs ` Collect (windowed s t fs))"
proof -
  obtain found where f: "rows = map (completed_row C fs) (take COMPLETED_CAP (sort_key (\<lambda>e. - int (finished e)) found))"
    "set found \<subseteq> Collect (windowed s t fs)"
    "readable_dir (done_dir s) fs \<Longrightarrow> readable_dir (error_dir s) fs \<Longrightarrow> \<not> truncated \<Longrightarrow>
       set found = Collect (windowed s t fs) \<and> length found \<le> COMPLETED_CAP"
    using list_completed_rows [OF assms] by blast
  let ?sorted = "sort_key (\<lambda>e. - int (finished e)) found"
  have "sorted (map (\<lambda>e. - int (finished e)) ?sorted)" by simp
  then have "sorted_wrt (\<lambda>a b. finished b \<le> finished a) ?sorted" by (simp add: sorted_map)
  then have "sorted_wrt (\<lambda>a b. fin_finished_ms b \<le> fin_finished_ms a) rows"
    by (simp add: f(1) sorted_wrt_map sorted_wrt_take)
  moreover have "set rows \<subseteq> completed_row C fs ` Collect (windowed s t fs)"
    using f(1,2) set_take_subset [of COMPLETED_CAP ?sorted] by auto
  moreover have "set rows = completed_row C fs ` Collect (windowed s t fs)"
    if "readable_dir (done_dir s) fs" "readable_dir (error_dir s) fs" "\<not> truncated"
    using f(1) f(3) [OF that] by simp
  ultimately show ?thesis by (simp add: f(1))
qed

text \<open>One job done, one job of the day before.\<close>

definition toy_archive :: fsys where
  "toy_archive = calm_fs [(done_path demo_spool (canonical_name 7), plain_file ''x'' 200000000000000),
     (error_path demo_spool (canonical_name 8), plain_file ''x'' 5)] 200000000000001"

theorem completed_list_spec_witness:
  "sorted_wrt (\<lambda>a b. fin_finished_ms b \<le> fin_finished_ms a)
     (fst (list_completed toy_crates demo_spool 200000000000001 toy_archive))
   \<and> windowed demo_spool 200000000000001 toy_archive
       (7, ''done'', 200000000, done_path demo_spool (canonical_name 7))"
proof -
  have "windowed demo_spool 200000000000001 toy_archive
       (7, ''done'', 200000000, done_path demo_spool (canonical_name 7))"
    by (simp add: windowed_def toy_archive_def sys_lstat_def calm_fs_def get_def plain_file_def
        systime_checked_sub_def secs_def COMPLETED_WINDOW_SECS_def ms_since_epoch_def as_millis_def)
  with completed_list_spec [OF surjective_pairing, of toy_crates demo_spool 200000000000001 toy_archive]
  show ?thesis by blast
qed

end
