(* ===== verification/Warm_Properties.thy ===== *)
theory Warm_Properties
  imports Warm Service_Frame
begin

text \<open>
  What the cache warmer promises: one warm per tip within the coalescing time, a configuration with
  exactly the pinned settings, children that run contained and only behind a passed closure check, and
  nothing built but the live tip of a default branch.
\<close>

section \<open>The coalescer\<close>

lemma map_of_filter_distinct:
  "distinct (map fst xs) \<Longrightarrow> map_of (filter P xs) k = (case map_of xs k of Some v \<Rightarrow> if P (k, v) then Some v else None | None \<Rightarrow> None)"
proof (induction xs)
  case (Cons a xs)
  have "map_of (filter P xs) (fst a) = None"
    using Cons.prems by (auto simp: map_of_eq_None_iff)
  with Cons show ?case by (cases a) (auto split: option.split)
qed simp

datatype coalesce_event = Mark coalesce_key nat | Clear coalesce_key nat

fun coalesce_step :: "nat \<Rightarrow> coalesce_event \<Rightarrow> (coalesce_key \<times> nat) list \<Rightarrow> (coalesce_key \<times> nat) list" where
  "coalesce_step ttl (Mark k t) marks = snd (check_and_mark ttl k t marks)"
| "coalesce_step ttl (Clear k t) marks = clear k t marks"

text \<open>What other warms may do while the mark of \<open>k\<close> at \<open>t\<close> is fresh: anything but clear it.\<close>

fun within :: "nat \<Rightarrow> coalesce_key \<Rightarrow> nat \<Rightarrow> coalesce_event \<Rightarrow> bool" where
  "within ttl k t (Mark k' t') = (t \<le> t' \<and> t' < t + ttl)"
| "within ttl k t (Clear k' t') = (k' \<noteq> k \<or> t' \<noteq> t)"

definition marked_at :: "coalesce_key \<Rightarrow> nat \<Rightarrow> (coalesce_key \<times> nat) list \<Rightarrow> bool" where
  "marked_at k t marks \<longleftrightarrow> distinct (map fst marks) \<and> map_of marks k = Some t"

lemma distinct_kept: "distinct (map fst marks) \<Longrightarrow> distinct (map fst (filter P marks))"
  by (rule distinct_map_filter)

lemma check_and_mark_True:
  assumes "check_and_mark ttl k t marks = (True, marks')" and "distinct (map fst marks)"
  shows "marked_at k t marks'"
  using assms by (auto simp: check_and_mark_def Let_def marked_at_def distinct_kept distinct_update split: if_splits)

lemma marked_at_step:
  assumes "marked_at k t marks" and "within ttl k t e"
  shows "marked_at k t (coalesce_step ttl e marks)"
proof (cases e)
  case (Mark k' t')
  with assms show ?thesis
    by (auto simp: check_and_mark_def Let_def marked_at_def distinct_kept distinct_update map_of_filter_distinct
        simp del: map_of_eq_Some_iff)
next
  case (Clear k' t')
  with assms show ?thesis by (auto simp: clear_def marked_at_def distinct_delete simp del: map_of_eq_Some_iff)
qed

lemma marked_at_steps:
  "marked_at k t marks \<Longrightarrow> list_all (within ttl k t) es \<Longrightarrow> marked_at k t (fold (coalesce_step ttl) es marks)"
  by (induction es arbitrary: marks) (simp_all add: marked_at_step)

text \<open>One warm per tip: after a mark succeeded, whatever marks and clears of other warms follow within the
  coalescing time, every further event for the same tip is refused until the warm clears its own mark or
  the time is over, and then the next one proceeds.\<close>

theorem one_warm_per_tip:
  assumes "check_and_mark ttl k t marks = (True, marks')" and "distinct (map fst marks)"
    and "list_all (within ttl k t) es"
  shows "(t \<le> t' \<and> t' < t + ttl \<longrightarrow> \<not> fst (check_and_mark ttl k t' (fold (coalesce_step ttl) es marks')))
       \<and> (t + ttl \<le> t' \<longrightarrow> fst (check_and_mark ttl k t' (fold (coalesce_step ttl) es marks')))
       \<and> fst (check_and_mark ttl k t' (clear k t (fold (coalesce_step ttl) es marks')))"
proof -
  let ?m = "fold (coalesce_step ttl) es marks'"
  have m: "marked_at k t ?m"
    by (rule marked_at_steps [OF check_and_mark_True [OF assms(1,2)] assms(3)])
  then have "fst (check_and_mark ttl k t' (clear k t ?m))"
    by (auto simp: marked_at_def clear_def check_and_mark_def Let_def map_of_filter_distinct distinct_delete)
  moreover have "fst (check_and_mark ttl k t' ?m) \<longleftrightarrow> \<not> t' - t < ttl"
    using m by (auto simp: marked_at_def check_and_mark_def Let_def map_of_filter_distinct)
  ultimately show ?thesis by auto
qed

theorem one_warm_per_tip_witness:
  "\<not> fst (check_and_mark 10 (''o'', ''r'', ''main'', ''s'') 12
       (fold (coalesce_step 10) [Mark (''o'', ''r'', ''dev'', ''s'') 7, Clear (''o'', ''r'', ''main'', ''s'') 4]
          [((''o'', ''r'', ''main'', ''s''), 5)]))"
  using one_warm_per_tip [of 10 "(''o'', ''r'', ''main'', ''s'')" 5 "[]" "[((''o'', ''r'', ''main'', ''s''), 5)]"
      "[Mark (''o'', ''r'', ''dev'', ''s'') 7, Clear (''o'', ''r'', ''main'', ''s'') 4]" 12]
  by (simp add: check_and_mark_def)

text \<open>With a zero time every call proceeds, but the map keeps the last mark.\<close>

lemma zero_ttl_keeps_one_mark: "check_and_mark 0 k t marks = (True, [(k, t)])"
  by (simp add: check_and_mark_def)

section \<open>The private configuration\<close>

lemma resolved_single_line:
  assumes "resolve_trusted_public_keys configured file fs = Inr keys"
  shows "CHR 0x0A \<notin> set keys \<and> CHR 0x0D \<notin> set keys"
  using assms by (auto simp: resolve_trusted_public_keys_def and_then_Inr_iff list_ex_iff split: if_splits)

text \<open>The private \<open>nix.conf\<close> has exactly its eight settings: with the keys the start-up resolved, and a
  scratch path and substituters without a line feed, its lines are the netrc file, the five pins of the
  hardening, the substituters and keys, and nothing else; an unresolvable key stops the start-up.\<close>

theorem nix_conf_pins:
  assumes "resolve_trusted_public_keys configured file fs = Inr keys"
    and "CHR 0x0A \<notin> set (path_text netrc)" and "CHR 0x0A \<notin> set substituters"
  shows "split_char (CHR 0x0A) (nix_conf_contents netrc substituters keys) =
    [''netrc-file = '' @ path_text netrc, ''accept-flake-config = false'', ''flake-registry = '',
     ''allow-import-from-derivation = false'', ''require-sigs = true'', ''substituters = '' @ substituters,
     ''trusted-public-keys = '' @ keys, ''experimental-features = nix-command flakes'', []]"
proof -
  have line: "split_char (CHR 0x0A) (a @ b @ [CHR 0x0A] @ rest) = (a @ b) # split_char (CHR 0x0A) rest"
    if "CHR 0x0A \<notin> set a" "CHR 0x0A \<notin> set b" for a b rest
    using split_char_append [of "CHR 0x0A" "a @ b" rest] that by simp
  from resolved_single_line [OF assms(1)] have k: "CHR 0x0A \<notin> set keys" by blast
  have plain: "split_char (CHR 0x0A) (a @ [CHR 0x0A] @ rest) = a # split_char (CHR 0x0A) rest"
    if "CHR 0x0A \<notin> set a" for a rest
    using split_char_append [of "CHR 0x0A" a rest] that by simp
  show ?thesis
    unfolding nix_conf_contents_def
    by (subst line, simp, use assms(2) in simp, subst plain, simp, subst plain, simp, subst plain, simp,
        subst plain, simp, subst line, simp, use assms(3) in simp, subst line, simp, use k in simp)
       (simp add: split_char_append [of _ _ "[]", simplified])
qed

text \<open>One operator key, and a netrc.\<close>

theorem nix_conf_pins_witness:
  "''require-sigs = true'' \<in> set (split_char (CHR 0x0A) (nix_conf_contents [''/'', ''n''] ''s'' ''a:b''))"
proof -
  have "resolve_trusted_public_keys ''a:b'' [] (calm_fs [] 0) = Inr ''a:b''" by code_simp
  from nix_conf_pins [OF this, of "[''/'', ''n'']" "''s''"] show ?thesis
    by (simp add: path_text_def)
qed

text \<open>The substituters are not checked: a line feed in them adds a setting.\<close>

lemma substituters_line_feed_adds_setting:
  "split_char (CHR 0x0A) (nix_conf_contents [''/'', ''n''] (''s'' @ [CHR 0x0A] @ ''require-sigs = false'') ''a:b'') ! 6
     = ''require-sigs = false''"
  by code_simp

section \<open>Contained children\<close>

datatype child_event = Spawned command u32 | Ended u32 "string + int" | Killed u32 | Reaped u32

text \<open>A log of this task's children, kept by the services.\<close>

definition log_of :: "('e \<Rightarrow> child_event list) \<Rightarrow> 'e warm_world \<Rightarrow> child_event list" where
  "log_of f w = f (beyond (machine w))"

definition spawn_logged ::
    "('e \<Rightarrow> child_event list) \<Rightarrow> (command \<Rightarrow> 'e warm_world \<Rightarrow> (string + u32) \<times> 'e warm_world) \<Rightarrow> bool" where
  "spawn_logged f sp \<longleftrightarrow>
     (\<forall>c w r w'. sp c w = (r, w') \<longrightarrow>
        log_of f w' = log_of f w @ (case r of Inl _ \<Rightarrow> [] | Inr pid \<Rightarrow> [Spawned c pid]))"

definition logged :: "('e \<Rightarrow> child_event list) \<Rightarrow> 'e host \<Rightarrow> bool" where
  "logged f H \<longleftrightarrow>
     spawn_logged f (spawn H) \<and> spawn_logged f (spawn_piped H) \<and> (\<forall>pid. spawn_logged f (spawn_reading H pid))
     \<and> (\<forall>pid t w r w'. wait_until H pid t w = (r, w') \<longrightarrow>
          log_of f w' = log_of f w @ (case r of None \<Rightarrow> [] | Some x \<Rightarrow> [Ended pid x]))
     \<and> (\<forall>pid w. log_of f (kill_group H pid w) = log_of f w @ [Killed pid])
     \<and> (\<forall>pid w. log_of f (reap H pid w) = log_of f w @ [Reaped pid])
     \<and> (\<forall>rq w. log_of f (snd (http_send (host_services H) rq w)) = log_of f w)"

lemma loggedD:
  assumes "logged f H"
  shows "spawn H c w = (r, w') \<Longrightarrow> log_of f w' = log_of f w @ (case r of Inl _ \<Rightarrow> [] | Inr pid \<Rightarrow> [Spawned c pid])"
    and "spawn_piped H c w = (r, w') \<Longrightarrow> log_of f w' = log_of f w @ (case r of Inl _ \<Rightarrow> [] | Inr pid \<Rightarrow> [Spawned c pid])"
    and "spawn_reading H p c w = (r, w') \<Longrightarrow> log_of f w' = log_of f w @ (case r of Inl _ \<Rightarrow> [] | Inr pid \<Rightarrow> [Spawned c pid])"
    and "wait_until H p t w = (x, w') \<Longrightarrow> log_of f w' = log_of f w @ (case x of None \<Rightarrow> [] | Some y \<Rightarrow> [Ended p y])"
    and "log_of f (kill_group H p w) = log_of f w @ [Killed p]"
    and "log_of f (reap H p w) = log_of f w @ [Reaped p]"
  using assms by (simp_all add: logged_def spawn_logged_def)

lemma logged_http: "logged f H \<Longrightarrow> http_frame (host_services H) (\<lambda>w w'. log_of f w' = log_of f w)"
  by (auto simp: logged_def http_frame_def reflp_def transp_def log_of_def)

text \<open>What one step and one closure check add to the log.\<close>

definition step_trace :: "command \<Rightarrow> bool \<Rightarrow> child_event list \<Rightarrow> bool" where
  "step_trace c ok tr \<longleftrightarrow>
     (if ok then \<exists>p. tr = [Spawned c p, Ended p (Inr 0)]
      else tr = [] \<or> (\<exists>p r. tr = [Spawned c p, Ended p r]) \<or> (\<exists>p. tr = [Spawned c p, Killed p, Reaped p]))"

lemma run_step_trace:
  assumes "logged f H" and "run_step H W r prog args label w = (x, w')"
  shows "\<exists>tr. log_of f w' = log_of f w @ tr \<and> step_trace (child_command W r prog args) (is_ok x) tr"
proof -
  let ?c = "child_command W r prog args"
  note L = loggedD [OF assms(1)]
  obtain s w1 where s: "spawn H ?c w = (s, w1)" by fastforce
  show ?thesis
  proof (cases s)
    case (Inl e)
    with assms(2) s L(1) [OF s] show ?thesis by (auto simp: run_step_def step_trace_def)
  next
    case (Inr pid)
    obtain e w2 where e: "wait_until H pid (uptime (host_services H) w1 + wm_timeout W) w1 = (e, w2)" by fastforce
    have l1: "log_of f w1 = log_of f w @ [Spawned ?c pid]" using L(1) [OF s] Inr by simp
    have l2: "log_of f w2 = log_of f w1 @ (case e of None \<Rightarrow> [] | Some y \<Rightarrow> [Ended pid y])" by (rule L(4) [OF e])
    consider (t) "e = None" | (f) m where "e = Some (Inl m)" | (z) "e = Some (Inr 0)"
      | (nz) k where "e = Some (Inr k)" "k \<noteq> 0"
      by (cases e) (auto, metis old.sum.exhaust)
    then show ?thesis
    proof cases
      case t
      with assms(2) s Inr e have "is_ok x = False" "w' = reap H pid (kill_group H pid w2)"
        by (auto simp: run_step_def)
      with l1 l2 t L(5,6) show ?thesis by (auto simp: step_trace_def)
    qed (use assms(2) s Inr e l1 l2 in \<open>auto simp: run_step_def step_trace_def\<close>)
  qed
qed

definition show_command :: "warmer \<Rightarrow> path \<Rightarrow> string \<Rightarrow> command" where
  "show_command W r installable = child_command W r (wm_nix_bin W) (nix_derivation_show_args installable)"

definition jq_command :: "warmer \<Rightarrow> path \<Rightarrow> command" where
  "jq_command W r = child_command W r (join (wm_tools_dir W) ''jq'') [''-e'', CLOSURE_SYSTEM_FILTER]"

definition build_command :: "warmer \<Rightarrow> path \<Rightarrow> string \<Rightarrow> path \<Rightarrow> command" where
  "build_command W r installable out_link =
     child_command W r (wm_nix_bin W) (nix_build_args installable out_link (wm_substituters W) (wm_trusted_public_keys W))"

definition copy_command :: "warmer \<Rightarrow> path \<Rightarrow> string \<Rightarrow> command" where
  "copy_command W r installable = child_command W r (wm_cache_sh W) [installable]"

text \<open>The events of a closure check that passed, and what every check spawns and leaves behind.\<close>

definition passed_check :: "warmer \<Rightarrow> path \<Rightarrow> string \<Rightarrow> child_event list \<Rightarrow> bool" where
  "passed_check W r installable tr \<longleftrightarrow>
     (\<exists>p q. tr = [Spawned (show_command W r installable) p, Spawned (jq_command W r) q, Ended q (Inr 0), Ended p (Inr 0)])"

definition settled :: "child_event list \<Rightarrow> bool" where
  "settled tr \<longleftrightarrow> (\<forall>c p. Spawned c p \<in> set tr \<longrightarrow> (\<exists>x. Ended p x \<in> set tr) \<or> Killed p \<in> set tr)"

definition spawns :: "child_event list \<Rightarrow> command set" where
  "spawns tr = {c. \<exists>p. Spawned c p \<in> set tr}"

lemma settled_simps [simp]: "settled []" "settled a \<Longrightarrow> settled b \<Longrightarrow> settled (a @ b)"
  unfolding settled_def set_append Un_iff by (simp, blast)

lemma spawns_simps [simp]: "spawns [] = {}" "spawns (a @ b) = spawns a \<union> spawns b"
  by (auto simp: spawns_def)

lemma step_trace_facts:
  assumes "step_trace c ok tr"
  shows "settled tr" and "spawns tr \<subseteq> {c}"
  using assms by (auto simp: step_trace_def settled_def spawns_def split: if_splits)

lemma closure_trace:
  assumes "logged f H" and "closure_is_host_build_safe H W r installable w = (ok, w')"
  shows "\<exists>tr. log_of f w' = log_of f w @ tr \<and> settled tr
       \<and> spawns tr \<subseteq> {show_command W r installable, jq_command W r} \<and> (ok \<longrightarrow> passed_check W r installable tr)"
proof -
  let ?s = "show_command W r installable" and ?j = "jq_command W r"
  note L = loggedD [OF assms(1)]
  note D = assms(2) [unfolded closure_is_host_build_safe_def, folded show_command_def jq_command_def]
  note F = settled_def spawns_def passed_check_def
  obtain s w1 where s: "spawn_piped H ?s w = (s, w1)" by fastforce
  show ?thesis
  proof (cases s)
    case (Inl e)
    with D s L(2) [OF s] show ?thesis by (auto simp: F)
  next
    case (Inr nix)
    have l1: "log_of f w1 = log_of f w @ [Spawned ?s nix]" using L(2) [OF s] Inr by simp
    show ?thesis
    proof (cases "pipe_taken H nix w1")
      case False
      with D s Inr l1 L(5) [of nix w1] show ?thesis by (auto simp: F)
    next
      case True
      obtain t w2 where t: "spawn_reading H nix ?j w1 = (t, w2)" by fastforce
      show ?thesis
      proof (cases t)
        case (Inl e)
        with D s Inr True t l1 L(3) [OF t] L(5) [of nix w2] show ?thesis by (auto simp: F)
      next
        case jq: (Inr jq)
        let ?d = "uptime (host_services H) w2 + wm_timeout W"
        obtain a w3 where a: "wait_until H jq ?d w2 = (a, w3)" by fastforce
        obtain b w4 where b: "wait_until H nix ?d w3 = (b, w4)" by fastforce
        have l2: "log_of f w2 = log_of f w @ [Spawned ?s nix, Spawned ?j jq]" using L(3) [OF t] jq l1 by simp
        have l3: "log_of f w3 = log_of f w2 @ (case a of None \<Rightarrow> [] | Some y \<Rightarrow> [Ended jq y])" by (rule L(4) [OF a])
        have l4: "log_of f w4 = log_of f w3 @ (case b of None \<Rightarrow> [] | Some y \<Rightarrow> [Ended nix y])" by (rule L(4) [OF b])
        show ?thesis
          using D s Inr True t jq a b l2 l3 l4 L(5) [of jq w3] L(5) [of nix "kill_group H jq w3"] L(5) [of nix w4]
          by (cases a; cases b) (auto simp: F Let_def)
      qed
    qed
  qed
qed

text \<open>
  A build comes directly after a passed check of the same installable, a copy directly after a successful
  build of it.
\<close>

definition allowed_after :: "warmer \<Rightarrow> path \<Rightarrow> child_event list \<Rightarrow> command \<Rightarrow> bool" where
  "allowed_after W r pre c \<longleftrightarrow>
     (\<forall>I out. c = build_command W r I out \<longrightarrow> (\<exists>pre' chk. pre = pre' @ chk \<and> passed_check W r I chk))
     \<and> (\<forall>I. c = copy_command W r I \<longrightarrow>
          (\<exists>pre' out a. pre = pre' @ [Spawned (build_command W r I out) a, Ended a (Inr 0)]))"

definition guarded :: "warmer \<Rightarrow> path \<Rightarrow> child_event list \<Rightarrow> bool" where
  "guarded W r tr \<longleftrightarrow> (\<forall>pre c p post. tr = pre @ Spawned c p # post \<longrightarrow> allowed_after W r pre c)"

lemma allowed_after_append: "allowed_after W r pre c \<Longrightarrow> allowed_after W r (xs @ pre) c"
  unfolding allowed_after_def by (metis append.assoc)

lemma guarded_append [simp]:
  assumes "guarded W r a" and "guarded W r b"
  shows "guarded W r (a @ b)"
  unfolding guarded_def
proof (intro allI impI)
  fix pre c p post assume "a @ b = pre @ Spawned c p # post"
  then consider (l) us where "a = pre @ Spawned c p # us" | (r) us where "pre = a @ us" "b = us @ Spawned c p # post"
    by (auto simp: append_eq_append_conv2 append_eq_Cons_conv)
  then show "allowed_after W r pre c"
    using assms unfolding guarded_def by cases (blast, metis allowed_after_append)
qed

lemma guarded_Nil [simp]: "guarded W r []"
  by (simp add: guarded_def)

text \<open>Only builds and copies are guarded.\<close>

lemma guarded_plain:
  assumes "\<And>c. c \<in> spawns tr \<Longrightarrow> (\<forall>I out. c \<noteq> build_command W r I out) \<and> (\<forall>I. c \<noteq> copy_command W r I)"
  shows "guarded W r tr"
  unfolding guarded_def allowed_after_def using assms by (fastforce simp: spawns_def)

lemma guarded_step:
  assumes "guarded W r pre" and "step_trace c ok tr" and "allowed_after W r pre c"
  shows "guarded W r (pre @ tr)"
  unfolding guarded_def
proof (intro allI impI)
  fix xs c' p post assume eq: "pre @ tr = xs @ Spawned c' p # post"
  then consider (l) us where "pre = xs @ Spawned c' p # us" | (r) us where "xs = pre @ us" "tr = us @ Spawned c' p # post"
    by (auto simp: append_eq_append_conv2 append_eq_Cons_conv)
  then show "allowed_after W r xs c'"
  proof cases
    case l
    with assms(1) show ?thesis by (auto simp: guarded_def)
  next
    case r
    with assms(2) have "us = [] \<and> c' = c"
      by (cases us) (auto simp: step_trace_def append_eq_Cons_conv split: if_splits)
    with r assms(3) show ?thesis by simp
  qed
qed

lemma commands_differ [simp]:
  "show_command W r I \<noteq> build_command W r' J out" "show_command W r I \<noteq> copy_command W r' J"
  "jq_command W r \<noteq> build_command W r' J out" "jq_command W r \<noteq> copy_command W r' J"
  "build_command W r I out \<noteq> copy_command W r' J" "copy_command W r' J \<noteq> build_command W r I out"
  "child_command W r p [x] \<noteq> build_command W r' J out"
  by (simp_all add: show_command_def jq_command_def build_command_def copy_command_def child_command_def
      nix_build_args_def nix_derivation_show_args_def)

lemma command_inj:
  "build_command W r I out = build_command W r J out' \<Longrightarrow> J = I" "copy_command W r I = copy_command W r J \<Longrightarrow> J = I"
  by (simp_all add: build_command_def copy_command_def child_command_def nix_build_args_def)

lemma allowed_build: "passed_check W r I chk \<Longrightarrow> allowed_after W r chk (build_command W r I out)"
  unfolding allowed_after_def by (auto dest!: command_inj(1) intro: exI [of _ "[]"])

lemma allowed_copy:
  "allowed_after W r (pre @ [Spawned (build_command W r I out) p, Ended p (Inr 0)]) (copy_command W r I)"
  unfolding allowed_after_def by (auto dest!: command_inj(2))

lemma guarded_inputs:
  assumes "wm_flake_inputs_sh W \<noteq> wm_cache_sh W" and "step_trace (child_command W r (wm_flake_inputs_sh W) [x]) ok tr"
  shows "guarded W r tr"
proof (rule guarded_plain)
  fix c assume "c \<in> spawns tr"
  with step_trace_facts(2) [OF assms(2)] have "c = child_command W r (wm_flake_inputs_sh W) [x]" by blast
  with assms(1) show "(\<forall>I out. c \<noteq> build_command W r I out) \<and> (\<forall>I. c \<noteq> copy_command W r I)"
    by (auto simp: copy_command_def child_command_def [of W r "wm_flake_inputs_sh W"] child_command_def [of W r "wm_cache_sh W"]
        build_command_def child_command_def [of W r "wm_nix_bin W"] nix_build_args_def)
qed

text \<open>The commands of a warm, all of them contained.\<close>

definition contained :: "warmer \<Rightarrow> path \<Rightarrow> command \<Rightarrow> bool" where
  "contained W r c \<longleftrightarrow>
     cmd_env c = child_env W r \<and> cmd_dir c = workdir_home r
     \<and> cmd_program c \<in> {wm_nix_bin W, wm_flake_inputs_sh W, wm_cache_sh W, join (wm_tools_dir W) ''jq''}"

lemma contained_commands [simp]:
  "contained W r (show_command W r I)" "contained W r (jq_command W r)" "contained W r (build_command W r I out)"
  "contained W r (copy_command W r I)" "contained W r (child_command W r (wm_flake_inputs_sh W) args)"
  by (simp_all add: contained_def show_command_def jq_command_def build_command_def copy_command_def child_command_def)

definition warm_trace :: "warmer \<Rightarrow> path \<Rightarrow> child_event list \<Rightarrow> bool" where
  "warm_trace W r tr \<longleftrightarrow> guarded W r tr \<and> settled tr \<and> (\<forall>c \<in> spawns tr. contained W r c)"

lemma warm_trace_append: "warm_trace W r a \<Longrightarrow> warm_trace W r b \<Longrightarrow> warm_trace W r (a @ b)"
  by (auto simp: warm_trace_def)

lemma warm_trace_step:
  assumes "warm_trace W r pre" and "step_trace c ok tr" and "allowed_after W r pre c" and "contained W r c"
  shows "warm_trace W r (pre @ tr)"
proof -
  from assms(1) have g: "guarded W r pre" "settled pre" "\<forall>c \<in> spawns pre. contained W r c" by (simp_all add: warm_trace_def)
  from guarded_step [OF g(1) assms(2,3)] settled_simps(2) [OF g(2) step_trace_facts(1) [OF assms(2)]]
    g(3) assms(4) step_trace_facts(2) [OF assms(2)] show ?thesis by (auto simp: warm_trace_def)
qed

lemma warm_target_trace:
  assumes "logged f H"
  shows "\<exists>tr. log_of f (warm_target H W r flakeref target w) = log_of f w @ tr \<and> warm_trace W r tr"
proof -
  let ?I = "flakeref @ ''#'' @ target" and ?out = "join (workdir_roots r) (outlink_slug target)"
  obtain ok w1 where c: "closure_is_host_build_safe H W r ?I w = (ok, w1)" by fastforce
  from closure_trace [OF assms c] obtain chk where
    chk: "log_of f w1 = log_of f w @ chk" "settled chk" "spawns chk \<subseteq> {show_command W r ?I, jq_command W r}"
      "ok \<longrightarrow> passed_check W r ?I chk" by blast
  have gc: "guarded W r chk"
  proof (rule guarded_plain)
    fix c assume "c \<in> spawns chk"
    with chk(3) have "c = show_command W r ?I \<or> c = jq_command W r" by blast
    then show "(\<forall>I out. c \<noteq> build_command W r I out) \<and> (\<forall>I. c \<noteq> copy_command W r I)" by auto
  qed
  have tc: "warm_trace W r chk" using gc chk(2,3) by (auto simp: warm_trace_def)
  show ?thesis
  proof (cases ok)
    case False
    with c chk(1) tc show ?thesis by (auto simp: warm_target_def Let_def)
  next
    case True
    obtain x w2 where b: "run_step H W r (wm_nix_bin W)
        (nix_build_args ?I ?out (wm_substituters W) (wm_trusted_public_keys W)) ''nix build'' w1 = (x, w2)" by fastforce
    from run_step_trace [OF assms b, folded build_command_def] obtain tb where
      tb: "log_of f w2 = log_of f w1 @ tb" "step_trace (build_command W r ?I ?out) (is_ok x) tb" by blast
    have a: "allowed_after W r chk (build_command W r ?I ?out)"
      using chk(4) True allowed_build by blast
    have wb: "warm_trace W r (chk @ tb)" by (rule warm_trace_step [OF tc tb(2) a]) simp
    show ?thesis
    proof (cases x)
      case (Inl e)
      with c True b chk(1) tb(1) wb show ?thesis by (auto simp: warm_target_def Let_def)
    next
      case (Inr u)
      obtain y w3 where s: "run_step H W r (wm_cache_sh W) [?I] ''warm-cache.sh'' w2 = (y, w3)" by fastforce
      from run_step_trace [OF assms s, folded copy_command_def] obtain ts where
        ts: "log_of f w3 = log_of f w2 @ ts" "step_trace (copy_command W r ?I) (is_ok y) ts" by blast
      from tb(2) Inr obtain p where p: "tb = [Spawned (build_command W r ?I ?out) p, Ended p (Inr 0)]"
        by (auto simp: step_trace_def)
      have "allowed_after W r (chk @ tb) (copy_command W r ?I)"
        unfolding p by (rule allowed_copy)
      then have "warm_trace W r ((chk @ tb) @ ts)" by (rule warm_trace_step [OF wb ts(2)]) simp
      with c True b Inr s chk(1) tb(1) ts(1) show ?thesis
        by (intro exI [of _ "(chk @ tb) @ ts"]) (simp add: warm_target_def Let_def)
    qed
  qed
qed

lemma warm_targets_trace:
  assumes "logged f H"
  shows "\<exists>tr. log_of f (fold (warm_target H W r flakeref) targets w) = log_of f w @ tr \<and> warm_trace W r tr"
proof (induction targets arbitrary: w)
  case (Cons t ts)
  from warm_target_trace [OF assms, of W r flakeref t w] obtain a where
    a: "log_of f (warm_target H W r flakeref t w) = log_of f w @ a" "warm_trace W r a" by blast
  from Cons.IH [of "warm_target H W r flakeref t w"] obtain b where
    "log_of f (fold (warm_target H W r flakeref) ts (warm_target H W r flakeref t w)) = log_of f (warm_target H W r flakeref t w) @ b"
    "warm_trace W r b" by blast
  with a warm_trace_append [OF a(2)] show ?case by (intro exI [of _ "a @ b"]) simp
qed (simp add: warm_trace_def)

lemma scoped_token_frame:
  assumes "http_frame S R" and "scoped_token S g a ids perm w = (x, w')"
  shows "R w w'"
proof -
  obtain y w1 where i: "installation_id S g a w = (y, w1)" by fastforce
  have "w' = w1 \<or> (\<exists>rq z. http_send S rq w1 = (z, w'))"
    using assms(2) i by (auto simp: scoped_token_def Let_def split: sum.splits prod.splits)
  with installation_frame [OF assms(1) i] http_sent [OF assms(1)] http_trans [OF assms(1)] show ?thesis by blast
qed

lemma log_of_updates [simp]:
  "log_of f (w\<lparr>disk := d\<rparr>) = log_of f w" "log_of f (snd (on_disk g w)) = log_of f w"
  "log_of f (on_shared (\<lambda>m. m\<lparr>next_attempt := a\<rparr>) w) = log_of f w"
  "log_of f (on_shared (\<lambda>m. m\<lparr>seen := s m\<rparr>) w) = log_of f w"
  "log_of f (on_shared (\<lambda>m. m\<lparr>warm_slots := n m\<rparr>) w) = log_of f w"
  by (simp_all add: log_of_def on_shared_def)

text \<open>The scratch directory of one attempt, and the three ways a warm goes.\<close>

definition scratch_slug :: "warm_candidate \<Rightarrow> u64 \<Rightarrow> string" where
  "scratch_slug cand attempt = warm_slug (cand_owner cand) (cand_repo cand) (cand_head_sha cand) attempt"

definition make_scratch :: "warmer \<Rightarrow> warm_candidate \<Rightarrow> u64 \<Rightarrow> string \<Rightarrow> fsys \<Rightarrow> path res \<times> fsys" where
  "make_scratch W cand attempt tok =
     (let parent = join (wm_state_dir W) ''warm''; slug = scratch_slug cand attempt
      in workdir_create parent slug tok
           (nix_conf_contents (join (join parent slug) ''netrc'') (wm_substituters W) (wm_trusted_public_keys W)))"

lemma run_warm_cases:
  assumes "run_warm H W cand branch w = (reached, w')"
  obtains (no_token) e where "\<not> reached" "contents_read_token (host_services H) (wm_gh W) (cand_repo_id cand) w = (Inl e, w')"
  | (no_scratch) tok w1 e where "\<not> reached"
      "contents_read_token (host_services H) (wm_gh W) (cand_repo_id cand) w = (Inr tok, w1)"
      "on_disk (make_scratch W cand (next_attempt (machine w1)) tok)
         (on_shared (\<lambda>m. m\<lparr>next_attempt := next_attempt (machine w1) + 1\<rparr>) w1) = (Inl e, w')"
  | (built) tok w1 r w3 w4 w5 where "reached"
      "contents_read_token (host_services H) (wm_gh W) (cand_repo_id cand) w = (Inr tok, w1)"
      "on_disk (make_scratch W cand (next_attempt (machine w1)) tok)
         (on_shared (\<lambda>m. m\<lparr>next_attempt := next_attempt (machine w1) + 1\<rparr>) w1) = (Inr r, w3)"
      "w4 = snd (run_step H W r (wm_flake_inputs_sh W)
              [build_flakeref (cand_owner cand) (cand_repo cand) branch (cand_head_sha cand)] ''warm-flake-inputs.sh'' w3)"
      "w5 = fold (warm_target H W r (build_flakeref (cand_owner cand) (cand_repo cand) branch (cand_head_sha cand)))
              WARM_TARGETS w4"
      "w' = w5\<lparr>disk := workdir_drop r (disk w5)\<rparr>"
proof -
  obtain t w1 where t: "contents_read_token (host_services H) (wm_gh W) (cand_repo_id cand) w = (t, w1)" by fastforce
  note A = assms [unfolded run_warm_def Let_def, folded scratch_slug_def]
  show ?thesis
  proof (cases t)
    case (Inl e)
    with A t no_token show ?thesis by simp
  next
    case (Inr tok)
    obtain d w3 where d: "on_disk (make_scratch W cand (next_attempt (machine w1)) tok)
         (on_shared (\<lambda>m. m\<lparr>next_attempt := next_attempt (machine w1) + 1\<rparr>) w1) = (d, w3)" by fastforce
    show ?thesis
    proof (cases d)
      case (Inl e)
      with A t Inr d show ?thesis by (intro no_scratch) (simp_all add: make_scratch_def Let_def)
    next
      case r: (Inr r)
      let ?ref = "build_flakeref (cand_owner cand) (cand_repo cand) branch (cand_head_sha cand)"
      from A t Inr d r have "reached \<and> w' = (let w5 = fold (warm_target H W r ?ref) WARM_TARGETS
          (snd (run_step H W r (wm_flake_inputs_sh W) [?ref] ''warm-flake-inputs.sh'' w3))
        in w5\<lparr>disk := workdir_drop r (disk w5)\<rparr>)" by (auto simp: make_scratch_def Let_def)
      with t Inr d r show ?thesis by (intro built [OF _ _ _ refl refl]) (simp_all add: Let_def)
    qed
  qed
qed

lemma run_warm_log:
  assumes "logged f H" and "wm_flake_inputs_sh W \<noteq> wm_cache_sh W"
    and "run_warm H W cand branch w = (reached, w')"
  shows "\<exists>r tr. log_of f w' = log_of f w @ tr \<and> warm_trace W r tr \<and> (\<not> reached \<longrightarrow> tr = [])"
proof -
  have tok: "log_of f w1 = log_of f w"
    if "contents_read_token (host_services H) (wm_gh W) (cand_repo_id cand) w = (t, w1)" for t w1
    using scoped_token_frame [OF logged_http [OF assms(1)] that [unfolded contents_read_token_def]] .
  have dir: "log_of f w3 = log_of f w1"
    if "on_disk g (on_shared (\<lambda>m. m\<lparr>next_attempt := a\<rparr>) w1) = (d, w3)" for g a w1 d w3
    using log_of_updates(2) [of f g "on_shared (\<lambda>m. m\<lparr>next_attempt := a\<rparr>) w1"] unfolding that by simp
  from assms(3) show ?thesis
  proof (cases rule: run_warm_cases)
    case (no_token e)
    with tok show ?thesis by (auto simp: warm_trace_def)
  next
    case (no_scratch t w1 e)
    with tok [OF no_scratch(2)] dir [OF no_scratch(3)] show ?thesis by (auto simp: warm_trace_def)
  next
    case (built t w1 r w3 w4 w5)
    let ?ref = "build_flakeref (cand_owner cand) (cand_repo cand) branch (cand_head_sha cand)"
    obtain x where s: "run_step H W r (wm_flake_inputs_sh W) [?ref] ''warm-flake-inputs.sh'' w3 = (x, w4)"
      using built(4) by (metis prod.collapse)
    from run_step_trace [OF assms(1) s] obtain a where
      a: "log_of f w4 = log_of f w3 @ a" "step_trace (child_command W r (wm_flake_inputs_sh W) [?ref]) (is_ok x) a" by blast
    have "guarded W r a" by (rule guarded_inputs [OF assms(2) a(2)])
    then have wa: "warm_trace W r a" using step_trace_facts [OF a(2)] by (auto simp: warm_trace_def)
    obtain b where b: "log_of f w5 = log_of f w4 @ b" "warm_trace W r b"
      unfolding built(5) using warm_targets_trace [OF assms(1)] by blast
    have "log_of f w' = log_of f w @ a @ b"
      using a(1) b(1) dir [OF built(3)] tok [OF built(2)] by (simp add: built(6))
    with warm_trace_append [OF wa b(2)] built(1) show ?thesis by blast
  qed
qed


text \<open>Services that answer everything, and keep the log.\<close>

definition log_event :: "child_event list \<Rightarrow> child_event list warm_world \<Rightarrow> child_event list warm_world" where
  "log_event es = on_shared (\<lambda>m. m\<lparr>beyond := beyond m @ es\<rparr>)"

definition toy_sha :: string where
  "toy_sha = replicate 40 (CHR ''a'')"

definition good_services :: "child_event list warm_shared services" where
  "good_services = \<lparr>the_crates = toy_crates\<lparr>json_branch_info := (\<lambda>_. Inr toy_sha)\<rparr>, http_send = (\<lambda>_ w. (Inr \<lparr>rs_status = 200, rs_body = Inr ''sha''\<rparr>, w)),
     limactl = (\<lambda>_ _ w. (Exited 0 [] [], w)), sleep = (\<lambda>_ w. w), preempt = (\<lambda>w. w),
     shell_or_tick = (\<lambda>_ _ _ w. (Some (Exited 0 [] []), w)), shell_now = (\<lambda>_ _. None),
     shell_wait = (\<lambda>_ _ w. (Exited 0 [] [], w)), uptime = (\<lambda>_. 0)\<rparr>"

definition good_host :: "child_event list host" where
  "good_host = \<lparr>host_services = good_services,
     spawn = (\<lambda>c w. (Inr 1, log_event [Spawned c 1] w)), spawn_piped = (\<lambda>c w. (Inr 2, log_event [Spawned c 2] w)),
     spawn_reading = (\<lambda>_ c w. (Inr 3, log_event [Spawned c 3] w)), pipe_taken = (\<lambda>_ _. True),
     wait_until = (\<lambda>p _ w. (Some (Inr 0), log_event [Ended p (Inr 0)] w)),
     kill_group = (\<lambda>p. log_event [Killed p]), reap = (\<lambda>p. log_event [Reaped p])\<rparr>"

definition toy_warmer :: warmer where
  "toy_warmer = \<lparr>wm_gh = \<lparr>gh_api = ''https://api.github.com'', gh_account = ''o'', gh_app_id = 1, gh_pem = ''pem''\<rparr>,
     wm_allowed_repos = {''o/r''}, wm_ttl = secs 600, wm_permits = 1, wm_nix_bin = [''/'', ''nix'', ''bin'', ''nix''],
     wm_flake_inputs_sh = [''/'', ''mac'', ''warm-flake-inputs.sh''], wm_cache_sh = [''/'', ''mac'', ''warm-cache.sh''],
     wm_cache_base = [''/'', ''cache''], wm_key_name = ''gha-mac-cache-1'', wm_tools_dir = [''/'', ''tools''],
     wm_state_dir = [''/'', ''state''], wm_substituters = ''https://cache.nixos.org'',
     wm_trusted_public_keys = ''a:b'', wm_timeout = secs 1800\<rparr>"

definition toy_candidate :: warm_candidate where
  "toy_candidate = \<lparr>cand_owner = ''o'', cand_repo = ''r'', cand_repo_id = 11, cand_head_branch = ''main'',
     cand_head_sha = toy_sha\<rparr>"

definition warm_start :: "child_event list warm_world" where
  "warm_start = \<lparr>disk = calm_fs [] 90, cached_installation = None, cached_token_slot = None, cached_branches = [],
     paused = False, permits = 4, spawned = [],
     machine = \<lparr>seen = [], warm_slots = 1, next_attempt = 0, beyond = []\<rparr>\<rparr>"

lemma good_host_logged: "logged (\<lambda>e. e) good_host"
  by (auto simp: logged_def spawn_logged_def good_host_def good_services_def log_of_def log_event_def on_shared_def)

lemma toy_scripts_differ: "wm_flake_inputs_sh toy_warmer \<noteq> wm_cache_sh toy_warmer"
  by (simp add: toy_warmer_def)

lemma good_token:
  assumes "cached_installation w = None \<or> cached_installation w = Some 5" "0 \<le> now w"
  shows "\<exists>w1. contents_read_token (host_services good_host) (wm_gh toy_warmer) (cand_repo_id toy_candidate) w = (Inr ''sha'', w1)
     \<and> disk w1 = disk w \<and> machine w1 = machine w"
  using assms
  by (auto simp: contents_read_token_def scoped_token_def installation_id_def mint_def good_services_def good_host_def
      toy_crates_def expect_json_def is_success_def response_json_def Let_def now_def)

definition toy_slug :: string where
  "toy_slug = ''o-r-aaaaaaaaaaaaaaaaaaaaaaaaaaaaaaaaaaaaaaaa-0''"

lemma safe_replicate:
  "concat (map safe_char (utf8_chars (replicate n (CHR ''a'')))) = replicate n (CHR ''a'')"
  by (induction n) (simp_all add: utf8_width_def safe_char_def is_ascii_alnum_def is_ascii_lower_def)

lemma toy_slug: "scratch_slug toy_candidate 0 = toy_slug"
proof -
  have "concat (map safe_char (utf8_chars ''o'')) = ''o''" "concat (map safe_char (utf8_chars ''r'')) = ''r''"
    "dec_u64 0 = ''0''" by code_simp+
  moreover have "toy_sha = ''aaaaaaaaaaaaaaaaaaaaaaaaaaaaaaaaaaaaaaaa''"
    by (simp add: toy_sha_def eval_nat_numeral)
  ultimately show ?thesis
    using safe_replicate [of 40, folded toy_sha_def]
    by (simp add: scratch_slug_def warm_slug_def toy_candidate_def toy_slug_def Let_def)
qed

definition toy_scratch :: path where
  "toy_scratch = [''/'', ''state'', ''warm'', toy_slug]"

lemma toy_workdir: "fst (workdir_create [''/'', ''state'', ''warm''] toy_slug tok conf (calm_fs [] 90)) = Inr toy_scratch"
  by code_simp

lemma toy_scratch_made:
  "fst (make_scratch toy_warmer toy_candidate 0 tok (calm_fs [] 90)) = Inr toy_scratch"
  by (simp add: make_scratch_def Let_def toy_slug toy_warmer_def join_def [of "[''/'', ''state'']"] toy_workdir)

lemma toy_warm_logs:
  assumes "run_warm good_host toy_warmer toy_candidate ''main'' w = (reached, w')"
    and "cached_installation w = None \<or> cached_installation w = Some 5" "disk w = calm_fs [] 90"
    and "next_attempt (machine w) = 0"
  shows "reached" and "log_of (\<lambda>e. e) w' \<noteq> log_of (\<lambda>e. e) w"
proof -
  have n: "0 \<le> now w" by (simp add: now_def assms(3) calm_fs_def)
  from good_token [OF assms(2) n] obtain v where
    tok: "contents_read_token (host_services good_host) (wm_gh toy_warmer) (cand_repo_id toy_candidate) w = (Inr ''sha'', v)"
      "disk v = disk w" "machine v = machine w" by blast
  from assms(1) have "reached \<and> log_of (\<lambda>e. e) w' \<noteq> log_of (\<lambda>e. e) w"
  proof (cases rule: run_warm_cases)
    case (no_token e)
    with tok show ?thesis by simp
  next
    case (no_scratch t w1 e)
    with tok assms(3,4) toy_scratch_made [of t] show ?thesis by (auto simp: on_disk_def on_shared_def split: prod.splits)
  next
    case (built t w1 r w3 w4 w5)
    from warm_targets_trace [OF good_host_logged] obtain b where b: "log_of (\<lambda>e. e) w5 = log_of (\<lambda>e. e) w4 @ b"
      unfolding built(5) by blast
    have "log_of (\<lambda>e. e) w3 = log_of (\<lambda>e. e) w"
      using built(2,3) tok by (auto simp: on_disk_def on_shared_def log_of_def split: prod.splits)
    moreover have "log_of (\<lambda>e. e) w4 \<noteq> log_of (\<lambda>e. e) w3 \<and> length (log_of (\<lambda>e. e) w3) < length (log_of (\<lambda>e. e) w4)"
      unfolding built(4) by (simp add: run_step_def good_host_def log_event_def on_shared_def log_of_def)
    ultimately have "length (log_of (\<lambda>e. e) w) < length (log_of (\<lambda>e. e) w')" using b by (simp add: built(6))
    with built(1) show ?thesis by auto
  qed
  then show "reached" "log_of (\<lambda>e. e) w' \<noteq> log_of (\<lambda>e. e) w" by simp_all
qed


section \<open>Which job is warmed\<close>

lemma default_branch_log:
  assumes "logged f H" and "default_branch (host_services H) g owner repo w = (x, w')"
  shows "log_of f w' = log_of f w"
proof -
  have c: "log_of f (v\<lparr>cached_branches := b\<rparr>) = log_of f v" for v b by (simp add: log_of_def)
  have "log_of f v' = log_of f v" if "fetch_default_branch (host_services H) g owner repo v = (y, v')" for v v' y
    using that send_authed_frame [OF logged_http [OF assms(1)]] c
    by (fastforce simp: fetch_default_branch_def split: prod.splits sum.splits)
  with assms(2) show ?thesis by (auto simp: default_branch_def split: option.splits if_splits)
qed

lemma branch_tip_log:
  assumes "logged f H" and "branch_tip (host_services H) g owner repo b w = (x, w')"
  shows "log_of f w' = log_of f w"
  using assms(2) send_authed_frame [OF logged_http [OF assms(1)]]
  by (fastforce simp: branch_tip_def split: prod.splits sum.splits)

text \<open>C33: Only the live tip of a default branch is warmed: a task whose candidate was parsed from a job spawns
  a child only if a slot was free, the job is of an allowed repository and carries a full commit id, its
  branch is the default branch GitHub names, its commit is the tip GitHub names, and no other warm holds
  a fresh mark for it.\<close>

theorem warm_only_confirmed_tip:
  assumes "maybe_trigger W event = Some cand" and "logged f H" and "wm_flake_inputs_sh W \<noteq> wm_cache_sh W"
    and "log_of f (run_candidate H W cand w) \<noteq> log_of f w"
  shows "0 < warm_slots (machine w)
       \<and> full_name (ev_repository event) \<in> wm_allowed_repos W
       \<and> full_name (ev_repository event) = cand_owner cand @ ''/'' @ cand_repo cand
       \<and> job_head_branch (ev_job event) = Some (cand_head_branch cand)
       \<and> job_head_sha (ev_job event) = Some (cand_head_sha cand) \<and> is_commit_sha (cand_head_sha cand)
       \<and> (\<exists>w1 w2 tip.
            default_branch (host_services H) (wm_gh W) (cand_owner cand) (cand_repo cand)
              (on_shared (\<lambda>m. m\<lparr>warm_slots := warm_slots m - 1\<rparr>) w) = (Inr (cand_head_branch cand), w1)
            \<and> branch_tip (host_services H) (wm_gh W) (cand_owner cand) (cand_repo cand) (cand_head_branch cand) w1
              = (Inr tip, w2)
            \<and> eq_ignore_ascii_case tip (cand_head_sha cand)
            \<and> fst (check_and_mark (wm_ttl W) (coalesce_key cand) (uptime (host_services H) w2) (seen (machine w2))))"
proof -
  let ?w0 = "on_shared (\<lambda>m. m\<lparr>warm_slots := warm_slots m - 1\<rparr>) w"
  from assms(1) have p: "full_name (ev_repository event) \<in> wm_allowed_repos W"
    "full_name (ev_repository event) = cand_owner cand @ ''/'' @ cand_repo cand"
    "job_head_branch (ev_job event) = Some (cand_head_branch cand)"
    "job_head_sha (ev_job event) = Some (cand_head_sha cand)" "is_commit_sha (cand_head_sha cand)"
    by (auto simp: maybe_trigger_def parse_candidate_def Let_def split_once_Some_iff split: option.splits if_splits)
  have s: "0 < warm_slots (machine w)" using assms(4) by (auto simp: run_candidate_def split: if_splits)
  with assms(4) have n: "log_of f (confirm_candidate H W cand ?w0) \<noteq> log_of f ?w0" by (simp add: run_candidate_def)
  obtain x w1 where d: "default_branch (host_services H) (wm_gh W) (cand_owner cand) (cand_repo cand) ?w0 = (x, w1)" by fastforce
  note l1 = default_branch_log [OF assms(2) d]
  from n d l1 have x: "x = Inr (cand_head_branch cand)"
    by (auto simp: confirm_candidate_def split: sum.splits if_splits)
  obtain y w2 where t: "branch_tip (host_services H) (wm_gh W) (cand_owner cand) (cand_repo cand) (cand_head_branch cand) w1 = (y, w2)"
    by fastforce
  note l2 = branch_tip_log [OF assms(2) t]
  from n d l1 x t l2 obtain tip where tip: "y = Inr tip" "eq_ignore_ascii_case tip (cand_head_sha cand)"
    by (auto simp: confirm_candidate_def split: sum.splits if_splits)
  from n d l1 x t l2 tip have "log_of f (warm_confirmed H W cand (cand_head_branch cand) w2) \<noteq> log_of f w2"
    by (simp add: confirm_candidate_def)
  then have "fst (check_and_mark (wm_ttl W) (coalesce_key cand) (uptime (host_services H) w2) (seen (machine w2)))"
    by (cases "check_and_mark (wm_ttl W) (coalesce_key cand) (uptime (host_services H) w2) (seen (machine w2))")
       (auto simp: warm_confirmed_def Let_def split: bool.splits)
  with p s d x t tip show ?thesis by blast
qed

definition tip_event :: workflow_job where
  "tip_event = toy_event\<lparr>ev_job := toy_info\<lparr>job_head_branch := Some ''main'', job_head_sha := Some toy_sha\<rparr>\<rparr>"

theorem warm_only_confirmed_tip_witness:
  "is_commit_sha toy_sha
   \<and> log_of (\<lambda>e. e) (run_candidate good_host toy_warmer toy_candidate warm_start) \<noteq> log_of (\<lambda>e. e) warm_start"
proof -
  have h: "is_commit_sha toy_sha"
    by (simp add: is_commit_sha_def toy_sha_def list_all_iff is_ascii_hexdigit_def is_hex_lower_def)
  then have c: "maybe_trigger toy_warmer tip_event = Some toy_candidate"
    by (simp add: maybe_trigger_def parse_candidate_def tip_event_def toy_event_def toy_info_def toy_warmer_def toy_candidate_def)
  let ?w0 = "on_shared (\<lambda>m. m\<lparr>warm_slots := warm_slots m - 1\<rparr>) warm_start"
  note ev = default_branch_def fetch_default_branch_def branch_tip_def send_authed_def token_def installation_id_def mint_token_def
    mint_def send_with_def expect_json_def response_json_def is_success_def good_host_def good_services_def toy_crates_def
    Let_def now_def calm_fs_def warm_start_def on_shared_def
  obtain v where v: "default_branch (host_services good_host) (wm_gh toy_warmer) ''o'' ''r'' ?w0 = (Inr ''main'', v)"
    "machine v = machine ?w0" "disk v = calm_fs [] 90" "cached_installation v = Some 5"
    "cached_token_slot v = Some \<lparr>token_text = ''sha'', valid_until = 90 + int TOKEN_TTL\<rparr>"
    by (simp add: ev)
  have t: "branch_tip (host_services good_host) (wm_gh toy_warmer) ''o'' ''r'' ''main'' v = (Inr toy_sha, v)"
    using v(3-5) by (simp add: ev is_fresh_at_def TOKEN_TTL_def REFRESH_MARGIN_def secs_def)
  define v' where "v' = on_shared (\<lambda>m. m\<lparr>seen := [(coalesce_key toy_candidate, 0)]\<rparr>) v"
  obtain reached w' where r: "run_warm good_host toy_warmer toy_candidate ''main'' v' = (reached, w')" by fastforce
  have v': "cached_installation v' = Some 5" "disk v' = calm_fs [] 90" "next_attempt (machine v') = 0"
    "log_of (\<lambda>e. e) v' = log_of (\<lambda>e. e) warm_start"
    using v(2-4) by (simp_all add: v'_def on_shared_def warm_start_def log_of_def)
  note l = toy_warm_logs [OF r disjI2 [OF v'(1)] v'(2,3)]
  have "warm_confirmed good_host toy_warmer toy_candidate ''main'' v = w'"
    using r l(1) v(2)
    by (simp add: warm_confirmed_def Let_def check_and_mark_def v'_def on_shared_def warm_start_def)
       (simp add: good_host_def good_services_def)
  then have "confirm_candidate good_host toy_warmer toy_candidate ?w0 = w'"
    using v(1) t by (simp add: confirm_candidate_def toy_candidate_def)
  then have "run_candidate good_host toy_warmer toy_candidate warm_start
      = on_shared (\<lambda>m. m\<lparr>warm_slots := Suc (warm_slots m)\<rparr>) w'"
    by (simp add: run_candidate_def) (simp add: warm_start_def)
  then have g: "log_of (\<lambda>e. e) (run_candidate good_host toy_warmer toy_candidate warm_start) \<noteq> log_of (\<lambda>e. e) warm_start"
    using l(2) v'(4) by simp
  from warm_only_confirmed_tip [OF c good_host_logged toy_scripts_differ g] g show ?thesis
    by (simp add: toy_candidate_def)
qed

end
