(* ===== verification/Warm_Scratch.thy ===== *)
theory Warm_Scratch
  imports Warm_Properties
begin

text \<open>
  The scratch directory of a warm (\<open>warm.rs\<close>: \<open>WarmWorkdir\<close>): what it looks like when it is
  born, and that it is gone when the warm is over.
\<close>

section \<open>The scratch directory\<close>

lemma then_io_Inr: "then_io a b fs = (Inr u, fs') \<longleftrightarrow> (\<exists>fs1. a fs = (Inr (), fs1) \<and> b fs1 = (Inr u, fs'))"
  by (auto simp: then_io_def split: prod.split sum.split)

lemma not_exists_below:
  assumes "\<not> exists_at fs p" and "below p q"
  shows "get fs q = None"
proof (rule ccontr)
  assume "get fs q \<noteq> None"
  then obtain i where "(q, i) \<in> set (nodes fs)" by (auto simp: get_def dest: map_of_SomeD)
  with assms(2) have "exists_at fs p" unfolding exists_at_def list_ex_iff below_def by fastforce
  with assms(1) show False by contradiction
qed

lemma chmod_fresh_directory:
  assumes "get fs p = Some i" and "ikind i = Directory" and "sys_chmod p m fs = (Inr u, fs')"
  shows "fs' = put p (i\<lparr>imode := m\<rparr>) fs"
  using assms by (simp add: sys_chmod_def eval_nat_numeral split: option.splits)

lemma create_dir_0700_ok:
  assumes "create_dir_0700 p fs = (Inr u, fs')"
  shows "\<not> exists_at fs p" and "\<exists>d. get fs' p = Some d \<and> ikind d = Directory \<and> imode d = 0x1C0"
    and "q \<noteq> p \<Longrightarrow> get fs' q = get fs q"
proof -
  from assms obtain fs1 where m: "sys_mkdir p fs = (Inr (), fs1)" "sys_chmod p 0x1C0 fs1 = (Inr (), fs')"
    by (auto simp: create_dir_0700_def chmod_0700_def split: sum.splits prod.splits)
  from m(1) have e: "\<not> exists_at fs p" and f: "fs1 = put p \<lparr>ikind = Directory, idata = [], imtime = clock fs, imode = 0x1ED, iuid = euid fs\<rparr> fs"
    by (auto simp: sys_mkdir_def split: option.splits if_splits)
  from chmod_fresh_directory [OF _ _ m(2)] f show "\<exists>d. get fs' p = Some d \<and> ikind d = Directory \<and> imode d = 0x1C0"
    and "q \<noteq> p \<Longrightarrow> get fs' q = get fs q" by simp_all
  show "\<not> exists_at fs p" by (rule e)
qed

lemma create_dir_all_0700_fresh:
  assumes "create_dir_all_0700 p fs = (Inr u, fs')" and "get fs p = None" and "q \<noteq> p"
  shows "get fs' q = get fs q"
proof -
  from assms(1) obtain fs1 where m: "sys_mkdir_all p fs = (Inr (), fs1)" "sys_chmod p 0x1C0 fs1 = (Inr (), fs')"
    by (auto simp: create_dir_all_0700_def chmod_0700_def split: sum.splits prod.splits)
  from m(1) assms(2) have f: "fs1 = put p \<lparr>ikind = Directory, idata = [], imtime = clock fs, imode = 0x1ED, iuid = euid fs\<rparr> fs"
    by (auto simp: sys_mkdir_all_def split: option.splits if_splits)
  from chmod_fresh_directory [OF _ _ m(2)] f assms(3) show ?thesis by simp
qed

lemma write_file_0600_ok:
  assumes "write_file_0600 p b fs = (Inr u, fs')"
  shows "\<exists>n. get fs' p = Some n \<and> ikind n = Regular \<and> imode n = 0x180 \<and> idata n = b"
    and "q \<noteq> p \<Longrightarrow> get fs' q = get fs q"
proof -
  from assms obtain fs1 where m: "sys_create_new p 0x180 fs = (Inr (), fs1)" "sys_write_all p b fs1 = (Inr (), fs')"
    by (auto simp: write_file_0600_def split: sum.splits prod.splits)
  from m(1) have f: "fs1 = put p \<lparr>ikind = Regular, idata = [], imtime = clock fs, imode = 0x180, iuid = euid fs\<rparr> fs"
    by (auto simp: sys_create_new_def split: option.splits)
  from m(2) have w: "fs' = put p ((the (get fs1 p))\<lparr>idata := b, imtime := clock fs1\<rparr>) fs1"
    by (auto simp: sys_write_all_def f split: option.splits)
  show "\<exists>n. get fs' p = Some n \<and> ikind n = Regular \<and> imode n = 0x180 \<and> idata n = b"
    and "q \<noteq> p \<Longrightarrow> get fs' q = get fs q" by (simp_all add: w f)
qed

lemma workdir_create_ok:
  assumes "workdir_create parent slug tok conf fs = (Inr r, fs')"
  shows "r = join parent slug"
    and "\<exists>d. get fs' r = Some d \<and> ikind d = Directory \<and> imode d = 0x1C0"
    and "\<exists>n. get fs' (workdir_netrc r) = Some n \<and> ikind n = Regular \<and> imode n = 0x180 \<and> idata n = netrc_contents tok"
proof -
  from assms obtain fs2 where r: "r = join parent slug" and "workdir_fill r tok conf fs2 = (Inr (), fs')"
    by (auto simp: workdir_create_def Let_def split: sum.splits prod.splits)
  then obtain f1 f2 f3 f4 where
    c: "create_dir_0700 r fs2 = (Inr (), f1)" "create_dir_all_0700 (nix_conf_dir r) f1 = (Inr (), f2)"
      "create_dir_0700 (workdir_roots r) f2 = (Inr (), f3)" "write_file_0600 (workdir_netrc r) (netrc_contents tok) f3 = (Inr (), f4)"
      "write_file_0600 (join (nix_conf_dir r) ''nix.conf'') conf f4 = (Inr (), fs')"
    unfolding workdir_fill_def then_io_Inr by blast
  have paths: "r \<noteq> nix_conf_dir r" "r \<noteq> workdir_roots r" "r \<noteq> workdir_netrc r" "r \<noteq> join (nix_conf_dir r) ''nix.conf''"
    "workdir_netrc r \<noteq> join (nix_conf_dir r) ''nix.conf''"
    by (simp_all add: nix_conf_dir_def workdir_home_def workdir_roots_def workdir_netrc_def join_def)
  have "below r (nix_conf_dir r)" by (simp add: below_def nix_conf_dir_def workdir_home_def join_def)
  with create_dir_0700_ok(1) [OF c(1)] not_exists_below have "get fs2 (nix_conf_dir r) = None" by blast
  with create_dir_0700_ok(3) [OF c(1)] paths(1) have n: "get f1 (nix_conf_dir r) = None" by metis
  show "r = join parent slug" by (rule r)
  show "\<exists>d. get fs' r = Some d \<and> ikind d = Directory \<and> imode d = 0x1C0"
    using create_dir_0700_ok(2) [OF c(1)] create_dir_all_0700_fresh [OF c(2) n paths(1)] create_dir_0700_ok(3) [OF c(3) paths(2)]
      write_file_0600_ok(2) [OF c(4) paths(3)] write_file_0600_ok(2) [OF c(5) paths(4)] by simp
  show "\<exists>n. get fs' (workdir_netrc r) = Some n \<and> ikind n = Regular \<and> imode n = 0x180 \<and> idata n = netrc_contents tok"
    using write_file_0600_ok(1) [OF c(4)] write_file_0600_ok(2) [OF c(5) paths(5)] by simp
qed

lemma workdir_drop_gone:
  assumes "\<And>q. fault fs OpUnlink q = None" and "1 < length r"
  shows "map_option ikind (get (workdir_drop r fs) r) \<in> {Some Regular, Some Special} \<or> (\<forall>q. below r q \<longrightarrow> get (workdir_drop r fs) q = None)"
proof (cases "map_option ikind (get fs r) = Some Regular \<or> map_option ikind (get fs r) = Some Special")
  case True
  then have "workdir_drop r fs = fs" by (auto simp: workdir_drop_def sys_remove_dir_all_def)
  with True show ?thesis by auto
next
  case False
  with remove_dir_all_gone [OF assms(1)] assms(2) show ?thesis by (auto simp: workdir_drop_def)
qed


lemma scratch_fault:
  "fault (snd (make_scratch W cand a tok fs)) = fault fs"
proof -
  have ch: "fault (snd (chmod_0700 p m)) = fault (snd m)" for p m
    by (auto simp: chmod_0700_def sys_chmod_def split: prod.split sum.split option.split)
  have d: "fault (snd (create_dir_0700 p g)) = fault g" "fault (snd (create_dir_all_0700 p g)) = fault g" for p g
    by (simp_all add: create_dir_0700_def create_dir_all_0700_def ch sys_mkdir_def sys_mkdir_all_def split: option.split)
  have f: "fault (snd (write_file_0600 p b g)) = fault g" for p b g
  proof -
    have "fault g1 = fault g" if "sys_create_new p 0x180 g = (x, g1)" for x g1 using sys_fields(4) [of p "0x180" g] that by simp
    moreover have "fault g2 = fault g1" if "sys_write_all p b g1 = (x, g2)" for x g1 g2 using sys_fields(5) [of p b g1] that by simp
    ultimately show ?thesis by (auto simp: write_file_0600_def split: prod.split sum.split)
  qed
  have t: "fault (snd (then_io x y g)) = fault g"
    if "\<And>g. fault (snd (x g)) = fault g" "\<And>g. fault (snd (y g)) = fault g" for x y g
    using that by (auto simp: then_io_def split: prod.split sum.split) (metis snd_conv)+
  have w: "fault (snd (workdir_fill r tok conf g)) = fault g" for r conf g
    unfolding workdir_fill_def by (intro t d f)
  have "fault (snd (workdir_create par slug tok conf fs)) = fault fs" for par slug conf
  proof -
    obtain x f1 where 1: "create_dir_all_0700 par fs = (x, f1)" by fastforce
    obtain y f3 where 3: "workdir_fill (join par slug) tok conf (snd (sys_remove_dir_all (join par slug) f1)) = (y, f3)" by fastforce
    have "fault f1 = fault fs" "fault f3 = fault f1"
      using d(2) [of par fs] w [of "join par slug" conf "snd (sys_remove_dir_all (join par slug) f1)"] 1 3 by simp_all
    with 1 3 show ?thesis by (cases x; cases y) (simp_all add: workdir_create_def workdir_drop_def Let_def)
  qed
  then show ?thesis by (simp add: make_scratch_def Let_def)
qed


end
