(* ===== verification/Warm_Child.thy ===== *)
theory Warm_Child
  imports Warm Step_System
begin

text \<open>
  One child of a warm as a machine (\<open>warm.rs: run_step, kill_group, KillGroupOnDrop\<close>): the task that
  waits for it, the guard that kills its process group when the task is dropped in an await, and the tree
  of processes it leads.  A task may be cancelled at every await; a process id may belong to somebody else
  as soon as the child was reaped.
\<close>

section \<open>The processes\<close>

datatype leader = Alive | Zombie int | Reaped

record tree =
  leader :: leader
  others :: "nat set"
  stray :: bool

text \<open>\<open>kill_group\<close>: SIGKILL to the group of that number; \<open>stray\<close> remembers one that was sent when the
  number was no longer ours.  \<open>kill_on_drop\<close> reaches the child only.\<close>

definition killed :: "leader \<Rightarrow> leader" where
  "killed l = (case l of Alive \<Rightarrow> Zombie 137 | _ \<Rightarrow> l)"

definition signal_group :: "u32 option \<Rightarrow> tree \<Rightarrow> tree" where
  "signal_group pid t =
     (case pid of
        None \<Rightarrow> t
      | Some _ \<Rightarrow> if leader t = Reaped then t\<lparr>stray := True\<rparr> else t\<lparr>leader := killed (leader t), others := {}\<rparr>)"

definition drop_child :: "tree \<Rightarrow> tree" where
  "drop_child t = t\<lparr>leader := killed (leader t)\<rparr>"

text \<open>What the rest of the machine does: the child ends, processes of the group come and go.\<close>

inductive tree_step :: "tree \<Rightarrow> tree \<Rightarrow> bool" where
  child_ends: "leader t = Alive \<Longrightarrow> tree_step t (t\<lparr>leader := Zombie status\<rparr>)"
| forks: "leader t = Alive \<or> others t \<noteq> {} \<Longrightarrow> tree_step t (t\<lparr>others := insert i (others t)\<rparr>)"
| other_ends: "tree_step t (t\<lparr>others := others t - {i}\<rparr>)"

section \<open>The task\<close>

datatype step_pc = Waiting | Reaping | Returned "unit res" | Dropped

record step_run =
  step_at :: step_pc
  guard :: "u32 option"
  child :: tree

definition guard_drop :: "step_run \<Rightarrow> tree" where
  "guard_drop s = signal_group (guard s) (child s)"

text \<open>The result of a wait that ended as \<open>wait_until\<close> reports it.\<close>

definition step_result :: "string \<Rightarrow> (string + int) option \<Rightarrow> unit res" where
  "step_result label r =
     (case r of
        Some (Inr status) \<Rightarrow> if status = 0 then Inr () else Inl (Msg (label @ '' exited''))
      | Some (Inl e) \<Rightarrow> Inl (Ctx (''wait '' @ label) (Msg e))
      | None \<Rightarrow> Inl (Msg (label @ '' timed out'')))"

lemma run_step_result:
  assumes "spawn H (child_command W r program args) w = (Inr pid, w1)"
  shows "fst (run_step H W r program args label w)
       = step_result label (fst (wait_until H pid (uptime (host_services H) w1 + wm_timeout W) w1))"
  using assms by (simp add: run_step_def step_result_def split: prod.split option.split sum.split)

text \<open>
  The wait polls the child before the timer.  Returning drops the guard, disarmed, and the child;
  cancelling drops the guard as it is first.
\<close>

inductive task_step :: "string \<Rightarrow> u32 \<Rightarrow> step_run \<Rightarrow> step_run \<Rightarrow> bool" for label :: string and pid :: u32 where
  wait_ends: "step_at s = Waiting \<Longrightarrow> leader (child s) = Zombie status \<Longrightarrow>
    task_step label pid s (s\<lparr>step_at := Returned (step_result label (Some (Inr status))), guard := None,
      child := (child s)\<lparr>leader := Reaped\<rparr>\<rparr>)"
| wait_fails: "step_at s = Waiting \<Longrightarrow>
    task_step label pid s (s\<lparr>step_at := Returned (step_result label (Some (Inl e))), guard := None,
      child := drop_child (child s)\<rparr>)"
| times_out: "step_at s = Waiting \<Longrightarrow> leader (child s) = Alive \<Longrightarrow>
    task_step label pid s (s\<lparr>step_at := Reaping, child := signal_group (Some pid) (child s)\<rparr>)"
| reaps: "step_at s = Reaping \<Longrightarrow> leader (child s) = Zombie status \<Longrightarrow>
    task_step label pid s (s\<lparr>step_at := Returned (step_result label None), guard := None,
      child := (child s)\<lparr>leader := Reaped\<rparr>\<rparr>)"
| reap_fails: "step_at s = Reaping \<Longrightarrow>
    task_step label pid s (s\<lparr>step_at := Returned (step_result label None), guard := None,
      child := drop_child (child s)\<rparr>)"
| cancelled: "step_at s = Waiting \<or> step_at s = Reaping \<Longrightarrow>
    task_step label pid s (s\<lparr>step_at := Dropped, guard := None, child := drop_child (guard_drop s)\<rparr>)"

definition warm_child_step :: "string \<Rightarrow> u32 \<Rightarrow> step_run \<Rightarrow> step_run \<Rightarrow> bool" where
  "warm_child_step label pid s s' \<longleftrightarrow> task_step label pid s s' \<or> (\<exists>t. tree_step (child s) t \<and> s' = s\<lparr>child := t\<rparr>)"

definition spawned_child :: "u32 \<Rightarrow> step_run \<Rightarrow> bool" where
  "spawned_child pid s \<longleftrightarrow> step_at s = Waiting \<and> guard s = Some pid \<and> leader (child s) = Alive \<and> \<not> stray (child s)"

section \<open>The invariant\<close>

definition tree_dead :: "tree \<Rightarrow> bool" where
  "tree_dead t \<longleftrightarrow> leader t \<noteq> Alive \<and> others t = {}"

definition child_inv :: "string \<Rightarrow> u32 \<Rightarrow> step_run \<Rightarrow> bool" where
  "child_inv label pid s \<longleftrightarrow>
     \<not> stray (child s)
     \<and> (case step_at s of
          Waiting \<Rightarrow> guard s = Some pid \<and> leader (child s) \<noteq> Reaped
        | Reaping \<Rightarrow> guard s = Some pid \<and> leader (child s) \<noteq> Reaped \<and> tree_dead (child s)
        | Returned r \<Rightarrow> guard s = None \<and> leader (child s) \<noteq> Alive \<and> (r = step_result label None \<longrightarrow> tree_dead (child s))
        | Dropped \<Rightarrow> guard s = None \<and> tree_dead (child s))"

lemma step_result_cases [simp]:
  "step_result label (Some x) \<noteq> step_result label None"
  by (simp add: step_result_def split: sum.split)

lemma tree_step_keeps:
  assumes "tree_step t t'"
  shows "stray t' = stray t" and "leader t \<noteq> Alive \<Longrightarrow> leader t' = leader t"
    and "tree_dead t \<Longrightarrow> tree_dead t'" and "leader t \<noteq> Reaped \<Longrightarrow> leader t' \<noteq> Reaped"
  using assms by (cases; auto simp: tree_dead_def)+

lemma task_step_inv:
  assumes "task_step label pid s s'" and "child_inv label pid s"
  shows "child_inv label pid s'"
  using assms(1)
  by cases (use assms(2) in \<open>auto simp: child_inv_def signal_group_def guard_drop_def drop_child_def killed_def tree_dead_def
    split: leader.splits\<close>)

interpretation warm_child: step_system "spawned_child pid" "warm_child_step label pid" "child_inv label pid" for label pid
proof (unfold_locales, goal_cases)
  case (1 s)
  then show ?case by (simp add: spawned_child_def child_inv_def)
next
  case (2 s s')
  from 2(2) consider "task_step label pid s s'" | t where "tree_step (child s) t" "s' = s\<lparr>child := t\<rparr>"
    by (auto simp: warm_child_step_def)
  then show ?case
  proof cases
    case 1
    then show ?thesis using 2(1) by (rule task_step_inv)
  next
    case (2 t)
    from tree_step_keeps [OF 2(1)] \<open>child_inv label pid s\<close> 2(2) show ?thesis
      by (cases "step_at s") (auto simp: child_inv_def)
  qed
qed

section \<open>Properties\<close>

text \<open>C32: No process of a warm outlives its step unwatched, and none of another program is hit: whenever a
  step timed out or its task was cancelled at any await, its child and the whole process group are dead, and
  the child itself is dead however the step ended; no group is ever signalled under a number that was already given back; the guard is armed exactly while
  the task waits; and once the group was killed the wait for the child ends.\<close>

theorem warm_child_tree_dies:
  assumes "gets_to (spawned_child pid) (warm_child_step label pid) s"
  shows "\<not> stray (child s)
       \<and> (step_at s = Dropped \<or> step_at s = Returned (step_result label None) \<longrightarrow>
            others (child s) = {})
       \<and> (step_at s \<noteq> Waiting \<longrightarrow> leader (child s) \<noteq> Alive)
       \<and> (guard s = Some pid \<longleftrightarrow> step_at s = Waiting \<or> step_at s = Reaping)
       \<and> (step_at s = Reaping \<longrightarrow>
            (\<exists>s'. task_step label pid s s' \<and> step_at s' = Returned (step_result label None) \<and> leader (child s') = Reaped))"
proof -
  from warm_child.gets_to_inv [OF assms] have inv: "child_inv label pid s" .
  have "\<exists>s'. task_step label pid s s' \<and> step_at s' = Returned (step_result label None) \<and> leader (child s') = Reaped"
    if r: "step_at s = Reaping"
  proof -
    from inv r obtain status where "leader (child s) = Zombie status"
      by (cases "leader (child s)") (auto simp: child_inv_def tree_dead_def)
    from task_step.reaps [OF r this, of label pid] show ?thesis by force
  qed
  with inv show ?thesis by (cases "step_at s") (auto simp: child_inv_def tree_dead_def)
qed

text \<open>A child with a helper of its own, cancelled while it runs.\<close>

definition busy_child :: step_run where
  "busy_child = \<lparr>step_at = Waiting, guard = Some 9, child = \<lparr>leader = Alive, others = {10}, stray = False\<rparr>\<rparr>"

lemma busy_child_spawned: "gets_to (spawned_child 9) (warm_child_step ''copy'' 9) busy_child"
  by (rule gets_to_start) (simp add: spawned_child_def busy_child_def)

theorem warm_child_tree_dies_witness:
  "\<exists>s. gets_to (spawned_child 9) (warm_child_step ''copy'' 9) s \<and> step_at s = Dropped \<and> others (child s) = {}"
proof -
  let ?s = "busy_child\<lparr>step_at := Dropped, guard := None, child := drop_child (guard_drop busy_child)\<rparr>"
  have step: "warm_child_step ''copy'' 9 busy_child ?s"
    unfolding warm_child_step_def by (intro disjI1 task_step.cancelled) (simp add: busy_child_def)
  have r: "gets_to (spawned_child 9) (warm_child_step ''copy'' 9) ?s"
    by (rule gets_to_step [OF busy_child_spawned]) (rule step)
  with warm_child_tree_dies [OF r] show ?thesis by auto
qed

text \<open>When the wait itself fails, the guard is disarmed all the same and only the child is killed: the rest of
  its group lives on.\<close>

lemma failed_wait_leaves_group:
  "\<exists>s e. gets_to (spawned_child 9) (warm_child_step ''copy'' 9) s \<and> step_at s = Returned (step_result ''copy'' (Some (Inl e)))
     \<and> others (child s) \<noteq> {}"
proof -
  let ?s = "busy_child\<lparr>step_at := Returned (step_result ''copy'' (Some (Inl ''e''))), guard := None, child := drop_child (child busy_child)\<rparr>"
  have step: "warm_child_step ''copy'' 9 busy_child ?s"
    unfolding warm_child_step_def by (intro disjI1 task_step.wait_fails) (simp add: busy_child_def)
  have "gets_to (spawned_child 9) (warm_child_step ''copy'' 9) ?s"
    by (rule gets_to_step [OF busy_child_spawned]) (rule step)
  then show ?thesis by (intro exI [of _ ?s] exI [of _ "''e''"]) (simp add: busy_child_def drop_child_def)
qed

end
