(* ===== verification/Warm_Closure.thy ===== *)
theory Warm_Closure
  imports Warm_Child
begin

text \<open>
  The closure check as a machine (\<open>warm.rs: closure_is_host_build_safe\<close>): \<open>nix derivation show\<close> writes
  into \<open>jq\<close>, each leads a process group and has a guard of its own.  However the task ends, the locals
  are dropped in the reverse order of their declaration: reader's guard, reader, writer's guard, writer.
\<close>

section \<open>The task\<close>

datatype closure_pc = Piping | AwaitJq | AwaitNix | Answered bool | Gone

record closure_run =
  closure_at :: closure_pc
  nix_tree :: tree
  nix_guard :: "u32 option"
  nix_status :: "(string + int) option"
  jq_tree :: "tree option"
  jq_guard :: "u32 option"
  jq_status :: "(string + int) option"

definition nix_started :: "u32 \<Rightarrow> closure_run \<Rightarrow> bool" where
  "nix_started npid s \<longleftrightarrow>
     closure_at s = Piping \<and> leader (nix_tree s) = Alive \<and> \<not> stray (nix_tree s) \<and> nix_guard s = Some npid
     \<and> nix_status s = None \<and> jq_tree s = None \<and> jq_guard s = None \<and> jq_status s = None"

definition unwind :: "closure_run \<Rightarrow> closure_run" where
  "unwind s = s\<lparr>jq_tree := map_option (\<lambda>t. drop_child (signal_group (jq_guard s) t)) (jq_tree s), jq_guard := None,
     nix_tree := drop_child (signal_group (nix_guard s) (nix_tree s)), nix_guard := None\<rparr>"

definition closure_answer :: "(string + int) option \<Rightarrow> (string + int) option \<Rightarrow> bool" where
  "closure_answer nix jq \<longleftrightarrow> nix = Some (Inr 0) \<and> jq = Some (Inr 0)"

definition answer :: "closure_run \<Rightarrow> closure_run" where
  "answer s = (unwind s)\<lparr>closure_at := Answered (closure_answer (nix_status s) (jq_status s))\<rparr>"

text \<open>The pipe and the reader are set up without an await in between; the timer covers both waits.\<close>

inductive closure_step :: "u32 \<Rightarrow> closure_run \<Rightarrow> closure_run \<Rightarrow> bool" for jpid :: u32 where
  no_reader: "closure_at s = Piping \<Longrightarrow> closure_step jpid s ((unwind s)\<lparr>closure_at := Answered False\<rparr>)"
| reader_starts: "closure_at s = Piping \<Longrightarrow>
    closure_step jpid s (s\<lparr>closure_at := AwaitJq, jq_tree := Some \<lparr>leader = Alive, others = {}, stray = False\<rparr>, jq_guard := Some jpid\<rparr>)"
| jq_ends: "closure_at s = AwaitJq \<Longrightarrow> jq_tree s = Some t \<Longrightarrow> leader t = Zombie status \<Longrightarrow>
    closure_step jpid s (s\<lparr>closure_at := AwaitNix, jq_status := Some (Inr status), jq_tree := Some (t\<lparr>leader := Reaped\<rparr>), jq_guard := None\<rparr>)"
| jq_wait_fails: "closure_at s = AwaitJq \<Longrightarrow>
    closure_step jpid s (s\<lparr>closure_at := AwaitNix, jq_status := Some (Inl e), jq_guard := None\<rparr>)"
| nix_ends: "closure_at s = AwaitNix \<Longrightarrow> leader (nix_tree s) = Zombie status \<Longrightarrow>
    closure_step jpid s (answer (s\<lparr>nix_status := Some (Inr status), nix_tree := (nix_tree s)\<lparr>leader := Reaped\<rparr>, nix_guard := None\<rparr>))"
| nix_wait_fails: "closure_at s = AwaitNix \<Longrightarrow>
    closure_step jpid s (answer (s\<lparr>nix_status := Some (Inl e), nix_guard := None\<rparr>))"
| check_times_out: "closure_at s = AwaitJq \<or> closure_at s = AwaitNix \<Longrightarrow>
    closure_step jpid s ((unwind s)\<lparr>closure_at := Answered False\<rparr>)"
| check_cancelled: "closure_at s = AwaitJq \<or> closure_at s = AwaitNix \<Longrightarrow>
    closure_step jpid s ((unwind s)\<lparr>closure_at := Gone\<rparr>)"

definition closure_check_step :: "u32 \<Rightarrow> closure_run \<Rightarrow> closure_run \<Rightarrow> bool" where
  "closure_check_step jpid s s' \<longleftrightarrow>
     closure_step jpid s s' \<or> (\<exists>t. tree_step (nix_tree s) t \<and> s' = s\<lparr>nix_tree := t\<rparr>)
     \<or> (\<exists>t t'. jq_tree s = Some t \<and> tree_step t t' \<and> s' = s\<lparr>jq_tree := Some t'\<rparr>)"

text \<open>The check over the world answers as the machine does.\<close>

lemma closure_check_answers:
  assumes "spawn_piped H (child_command W r (wm_nix_bin W) (nix_derivation_show_args installable)) w = (Inr nix, w1)"
    and "pipe_taken H nix w1"
    and "spawn_reading H nix (child_command W r (join (wm_tools_dir W) ''jq'') [''-e'', CLOSURE_SYSTEM_FILTER]) w1 = (Inr jq, w2)"
    and "wait_until H jq (uptime (host_services H) w2 + wm_timeout W) w2 = (Some js, w3)"
    and "wait_until H nix (uptime (host_services H) w2 + wm_timeout W) w3 = (Some ns, w4)"
  shows "closure_is_host_build_safe H W r installable w = (closure_answer (Some ns) (Some js), w4)"
  using assms by (simp add: closure_is_host_build_safe_def closure_answer_def Let_def)

section \<open>The invariant\<close>

text \<open>A child and its guard: armed as long as the wait for it did not return, so never under a number given back.\<close>

definition guarded :: "u32 \<Rightarrow> u32 option \<Rightarrow> (string + int) option \<Rightarrow> tree \<Rightarrow> bool" where
  "guarded pid g ended t \<longleftrightarrow> \<not> stray t \<and> g = (if ended = None then Some pid else None)
     \<and> (case ended of None \<Rightarrow> leader t \<noteq> Reaped | Some (Inr _) \<Rightarrow> leader t = Reaped | Some (Inl _) \<Rightarrow> True)"

definition let_go :: "u32 option \<Rightarrow> (string + int) option \<Rightarrow> tree \<Rightarrow> bool" where
  "let_go g ended t \<longleftrightarrow> \<not> stray t \<and> g = None \<and> leader t \<noteq> Alive
     \<and> (case ended of None \<Rightarrow> tree_dead t | Some (Inr _) \<Rightarrow> leader t = Reaped | Some (Inl _) \<Rightarrow> True)"

definition closure_inv :: "u32 \<Rightarrow> u32 \<Rightarrow> closure_run \<Rightarrow> bool" where
  "closure_inv npid jpid s \<longleftrightarrow>
     (case closure_at s of
        Piping \<Rightarrow> nix_status s = None \<and> guarded npid (nix_guard s) None (nix_tree s)
          \<and> jq_tree s = None \<and> jq_guard s = None \<and> jq_status s = None
      | AwaitJq \<Rightarrow> nix_status s = None \<and> guarded npid (nix_guard s) None (nix_tree s)
          \<and> jq_status s = None \<and> (\<exists>t. jq_tree s = Some t \<and> guarded jpid (jq_guard s) None t)
      | AwaitNix \<Rightarrow> nix_status s = None \<and> guarded npid (nix_guard s) None (nix_tree s)
          \<and> jq_status s \<noteq> None \<and> (\<exists>t. jq_tree s = Some t \<and> guarded jpid (jq_guard s) (jq_status s) t)
      | Answered b \<Rightarrow> let_go (nix_guard s) (nix_status s) (nix_tree s) \<and> (\<forall>t. jq_tree s = Some t \<longrightarrow> let_go (jq_guard s) (jq_status s) t)
          \<and> jq_guard s = None \<and> (b \<longrightarrow> closure_answer (nix_status s) (jq_status s) \<and> jq_tree s \<noteq> None)
      | Gone \<Rightarrow> let_go (nix_guard s) (nix_status s) (nix_tree s) \<and> (\<forall>t. jq_tree s = Some t \<longrightarrow> let_go (jq_guard s) (jq_status s) t)
          \<and> jq_guard s = None)"

lemma guarded_dropped:
  assumes "guarded pid g ended t"
  shows "let_go None ended (drop_child (signal_group g t))"
  using assms
  by (cases ended; cases "leader t")
     (auto simp: guarded_def let_go_def drop_child_def signal_group_def killed_def tree_dead_def split: sum.splits)

lemma tree_step_guarded: "tree_step t t' \<Longrightarrow> guarded pid g ended t \<Longrightarrow> guarded pid g ended t'"
  using tree_step_keeps [of t t'] by (auto simp: guarded_def split: option.splits sum.splits)

lemma tree_step_let_go: "tree_step t t' \<Longrightarrow> let_go g ended t \<Longrightarrow> let_go g ended t'"
  using tree_step_keeps [of t t'] by (auto simp: let_go_def split: option.splits sum.splits)

lemma unwind_simps [simp]:
  "closure_at (unwind s) = closure_at s" "nix_guard (unwind s) = None" "jq_guard (unwind s) = None"
  "nix_status (unwind s) = nix_status s" "jq_status (unwind s) = jq_status s"
  "nix_tree (unwind s) = drop_child (signal_group (nix_guard s) (nix_tree s))"
  "jq_tree (unwind s) = map_option (\<lambda>t. drop_child (signal_group (jq_guard s) t)) (jq_tree s)"
  by (simp_all add: unwind_def)

text \<open>Unwinding lets both children go, from wherever.\<close>

lemma unwound:
  assumes "guarded npid (nix_guard s) (nix_status s) (nix_tree s)"
    and "\<forall>t. jq_tree s = Some t \<longrightarrow> guarded jpid (jq_guard s) (jq_status s) t"
  shows "let_go (nix_guard (unwind s)) (nix_status (unwind s)) (nix_tree (unwind s))
       \<and> (\<forall>t. jq_tree (unwind s) = Some t \<longrightarrow> let_go (jq_guard (unwind s)) (jq_status (unwind s)) t)"
  using assms guarded_dropped by auto

lemma closure_step_inv:
  assumes "closure_step jpid s s'" and "closure_inv npid jpid s"
  shows "closure_inv npid jpid s'"
  using assms(1)
proof cases
  case (nix_ends status)
  let ?s = "s\<lparr>nix_status := Some (Inr status), nix_tree := (nix_tree s)\<lparr>leader := Reaped\<rparr>, nix_guard := None\<rparr>"
  from nix_ends assms(2) unwound [of npid ?s jpid] show ?thesis
    by (auto simp: closure_inv_def answer_def guarded_def)
next
  case (nix_wait_fails e)
  let ?s = "s\<lparr>nix_status := Some (Inl e), nix_guard := None\<rparr>"
  from nix_wait_fails assms(2) unwound [of npid ?s jpid] show ?thesis
    by (auto simp: closure_inv_def answer_def guarded_def closure_answer_def)
qed (use assms(2) unwound [of npid s jpid] in \<open>auto simp: closure_inv_def guarded_def\<close>)

interpretation closure_check: step_system "nix_started npid" "closure_check_step jpid" "closure_inv npid jpid" for npid jpid
proof (unfold_locales, goal_cases)
  case (1 s)
  then show ?case by (simp add: nix_started_def closure_inv_def guarded_def)
next
  case (2 s s')
  from 2(2) consider "closure_step jpid s s'" | t where "tree_step (nix_tree s) t" "s' = s\<lparr>nix_tree := t\<rparr>"
    | t t' where "jq_tree s = Some t" "tree_step t t'" "s' = s\<lparr>jq_tree := Some t'\<rparr>"
    unfolding closure_check_step_def by blast
  then show ?case
  proof cases
    case 1
    then show ?thesis using 2(1) by (rule closure_step_inv)
  next
    case (2 t)
    from tree_step_guarded [OF 2(1)] tree_step_let_go [OF 2(1)] 2(2) \<open>closure_inv npid jpid s\<close> show ?thesis
      by (cases "closure_at s") (auto simp: closure_inv_def)
  next
    case (3 t t')
    from tree_step_guarded [OF 3(2)] tree_step_let_go [OF 3(2)] 3(1,3) \<open>closure_inv npid jpid s\<close> show ?thesis
      by (cases "closure_at s") (auto simp: closure_inv_def)
  qed
qed

section \<open>Property\<close>

text \<open>C20: The closure check leaves nothing behind: however it is over (answered, timed out or cancelled at either
  wait, whatever the two process groups do meanwhile), both children are dead and no guard is left armed; a
  child whose wait never returned took its whole process group with it, so an unsafe closure's \<open>nix\<close> cannot
  go on; no signal ever goes to a number that was given back; and a yes means that both children
  were reaped with status 0.\<close>

theorem closure_check_leaves_nothing:
  assumes "gets_to (nix_started npid) (closure_check_step jpid) s"
  shows "\<not> stray (nix_tree s) \<and> (\<forall>t. jq_tree s = Some t \<longrightarrow> \<not> stray t)
       \<and> (closure_at s = Gone \<or> (\<exists>b. closure_at s = Answered b) \<longrightarrow>
            nix_guard s = None \<and> jq_guard s = None
            \<and> leader (nix_tree s) \<noteq> Alive \<and> (nix_status s = None \<longrightarrow> others (nix_tree s) = {})
            \<and> (\<forall>t. jq_tree s = Some t \<longrightarrow> leader t \<noteq> Alive \<and> (jq_status s = None \<longrightarrow> others t = {})))
       \<and> (closure_at s = Answered True \<longrightarrow>
            nix_status s = Some (Inr 0) \<and> jq_status s = Some (Inr 0)
            \<and> leader (nix_tree s) = Reaped \<and> (\<exists>t. jq_tree s = Some t \<and> leader t = Reaped))"
proof -
  from closure_check.gets_to_inv [OF assms] have inv: "closure_inv npid jpid s" .
  show ?thesis
  proof (cases "closure_at s")
    case (Answered b)
    with inv show ?thesis
      by (auto simp: closure_inv_def let_go_def closure_answer_def tree_dead_def split: option.splits sum.splits)
  next
    case Gone
    with inv show ?thesis by (auto simp: closure_inv_def let_go_def tree_dead_def split: option.splits sum.splits)
  qed (use inv in \<open>auto simp: closure_inv_def guarded_def split: option.splits sum.splits\<close>)
qed

text \<open>\<open>nix\<close> with a helper, cancelled while \<open>jq\<close> still reads.\<close>

definition busy_check :: closure_run where
  "busy_check = \<lparr>closure_at = Piping, nix_tree = \<lparr>leader = Alive, others = {10}, stray = False\<rparr>, nix_guard = Some 9, nix_status = None,
     jq_tree = None, jq_guard = None, jq_status = None\<rparr>"

theorem closure_check_leaves_nothing_witness:
  "\<exists>s. gets_to (nix_started 9) (closure_check_step 11) s \<and> closure_at s = Gone \<and> jq_tree s \<noteq> None \<and> others (nix_tree s) = {}"
proof -
  let ?r = "busy_check\<lparr>closure_at := AwaitJq, jq_tree := Some \<lparr>leader = Alive, others = {}, stray = False\<rparr>, jq_guard := Some 11\<rparr>"
  let ?s = "(unwind ?r)\<lparr>closure_at := Gone\<rparr>"
  have 0: "gets_to (nix_started 9) (closure_check_step 11) busy_check"
    by (rule gets_to_start) (simp add: nix_started_def busy_check_def)
  have step1: "closure_check_step 11 busy_check ?r" unfolding closure_check_step_def
    by (intro disjI1 closure_step.reader_starts) (simp add: busy_check_def)
  have 1: "gets_to (nix_started 9) (closure_check_step 11) ?r" by (rule gets_to_step [OF 0]) (rule step1)
  have step2: "closure_check_step 11 ?r ?s" unfolding closure_check_step_def
    by (intro disjI1 closure_step.check_cancelled) simp
  have "gets_to (nix_started 9) (closure_check_step 11) ?s" by (rule gets_to_step [OF 1]) (rule step2)
  moreover from closure_check_leaves_nothing [OF this] have "others (nix_tree ?s) = {}" by (simp add: busy_check_def)
  ultimately show ?thesis by (intro exI [of _ ?s]) simp
qed

text \<open>A wait that fails is the one way to leave a helper: its guard is disarmed all the same.\<close>

lemma failed_wait_leaves_helper:
  "\<exists>s. gets_to (nix_started 9) (closure_check_step 11) s \<and> closure_at s = Answered False \<and> others (nix_tree s) \<noteq> {}"
proof -
  let ?r = "busy_check\<lparr>closure_at := AwaitJq, jq_tree := Some \<lparr>leader = Alive, others = {}, stray = False\<rparr>, jq_guard := Some 11\<rparr>"
  let ?q = "?r\<lparr>closure_at := AwaitNix, jq_status := Some (Inl ''e''), jq_guard := None\<rparr>"
  let ?s = "answer (?q\<lparr>nix_status := Some (Inl ''e''), nix_guard := None\<rparr>)"
  have 0: "gets_to (nix_started 9) (closure_check_step 11) busy_check"
    by (rule gets_to_start) (simp add: nix_started_def busy_check_def)
  have step1: "closure_check_step 11 busy_check ?r" unfolding closure_check_step_def
    by (intro disjI1 closure_step.reader_starts) (simp add: busy_check_def)
  have 1: "gets_to (nix_started 9) (closure_check_step 11) ?r" by (rule gets_to_step [OF 0]) (rule step1)
  have step2: "closure_check_step 11 ?r ?q" unfolding closure_check_step_def
    by (intro disjI1 closure_step.jq_wait_fails) simp
  have 2: "gets_to (nix_started 9) (closure_check_step 11) ?q" by (rule gets_to_step [OF 1]) (rule step2)
  have step3: "closure_check_step 11 ?q ?s" unfolding closure_check_step_def
    by (intro disjI1 closure_step.nix_wait_fails) simp
  have "gets_to (nix_started 9) (closure_check_step 11) ?s" by (rule gets_to_step [OF 2]) (rule step3)
  then show ?thesis
    by (intro exI [of _ ?s]) (simp add: answer_def closure_answer_def busy_check_def drop_child_def signal_group_def)
qed

end
